(* ===== verification/Prelude.thy ===== *)
theory Prelude
  imports Complex_Main "HOL-Library.AList" "HOL-Library.Multiset" "HOL-Library.Log_Nat"
begin

text \<open>
  Shared vocabulary of the development: the rule collections the component theories extend,
  the result type of fallible Python code, insertion-ordered dictionaries as association
  lists, and grouping by a key in insertion order (the \<open>setdefault(key, []).append(x)\<close> and
  \<open>defaultdict(list)\<close> idiom of the scripts).  Interfaces are stated as locales and
  interpreted on the definitions given here.
\<close>

named_theorems result_simps \<open>evaluation of fallible computations\<close>
named_theorems dict_simps \<open>lookup and key order of insertion-ordered dictionaries\<close>
named_theorems io_simps \<open>evaluation of effectful computations\<close>

section \<open>Fallible results\<close>

type_synonym ('e, 'a) result = "'e + 'a"

definition res_bind :: "('e, 'a) result \<Rightarrow> ('a \<Rightarrow> ('e, 'b) result) \<Rightarrow> ('e, 'b) result" where
  "res_bind m f = (case m of Inl e \<Rightarrow> Inl e | Inr x \<Rightarrow> f x)"

lemma res_bind_Inl [simp, result_simps]: "res_bind (Inl e) f = Inl e"
  by (simp add: res_bind_def)

lemma res_bind_Inr [simp, result_simps]: "res_bind (Inr x) f = f x"
  by (simp add: res_bind_def)

lemma res_bind_eq_Inr:
  "res_bind m f = Inr y \<longleftrightarrow> (\<exists>x. m = Inr x \<and> f x = Inr y)"
  by (cases m) auto

lemma res_bind_eq_Inl:
  "res_bind m f = Inl e \<longleftrightarrow> m = Inl e \<or> (\<exists>x. m = Inr x \<and> f x = Inl e)"
  by (cases m) auto

lemma res_bind_assoc: "res_bind (res_bind m f) g = res_bind m (\<lambda>x. res_bind (f x) g)"
  by (cases m) auto

text \<open>A loop that collects a result per element and stops at the first error.\<close>

fun res_map :: "('a \<Rightarrow> ('e, 'b) result) \<Rightarrow> 'a list \<Rightarrow> ('e, 'b list) result" where
  "res_map f [] = Inr []"
| "res_map f (x # xs) = res_bind (f x) (\<lambda>y. res_bind (res_map f xs) (\<lambda>ys. Inr (y # ys)))"

lemma res_map_total: "(\<And>x. x \<in> set xs \<Longrightarrow> f x = Inr (g x)) \<Longrightarrow> res_map f xs = Inr (map g xs)"
  by (induction xs) auto

lemma res_map_length: "res_map f xs = Inr ys \<Longrightarrow> length ys = length xs"
  by (induction xs arbitrary: ys) (auto simp: res_bind_eq_Inr)

lemma res_map_nth:
  "res_map f xs = Inr ys \<Longrightarrow> i < length xs \<Longrightarrow> f (xs ! i) = Inr (ys ! i)"
proof (induction xs arbitrary: ys i)
  case (Cons x xs)
  then show ?case by (cases i) (auto simp: res_bind_eq_Inr)
qed simp

lemma res_map_append:
  "res_map f (xs @ ys) = res_bind (res_map f xs) (\<lambda>us. res_bind (res_map f ys) (\<lambda>vs. Inr (us @ vs)))"
  by (induction xs) (auto simp: res_bind_def split: sum.splits)

section \<open>Dictionaries in insertion order\<close>

text \<open>
  A Python dictionary keeps its insertion order, and assigning to a present key keeps the
  key's position: exactly an association list with \<open>AList.update\<close>.
\<close>

type_synonym ('k, 'v) dict = "('k \<times> 'v) list"

definition dict_get :: "('k, 'v) dict \<Rightarrow> 'k \<Rightarrow> 'v option" where
  "dict_get d k = map_of d k"

definition dict_set :: "'k \<Rightarrow> 'v \<Rightarrow> ('k, 'v) dict \<Rightarrow> ('k, 'v) dict" where
  "dict_set k v d = AList.update k v d"

definition dict_keys :: "('k, 'v) dict \<Rightarrow> 'k list" where
  "dict_keys d = map fst d"

lemma dict_get_Nil [simp, dict_simps]: "dict_get [] k = None"
  by (simp add: dict_get_def)

lemma dict_get_Cons [simp, dict_simps]:
  "dict_get ((k', v) # d) k = (if k = k' then Some v else dict_get d k)"
  by (simp add: dict_get_def)

lemma dict_keys_Cons [simp, dict_simps]: "dict_keys ((k, v) # d) = k # dict_keys d"
  by (simp add: dict_keys_def)

lemma dict_keys_Nil [simp, dict_simps]: "dict_keys [] = []"
  by (simp add: dict_keys_def)

lemma dict_keys_append [simp, dict_simps]: "dict_keys (d @ e) = dict_keys d @ dict_keys e"
  by (simp add: dict_keys_def)

lemma dict_set_Nil [simp, dict_simps]: "dict_set k v [] = [(k, v)]"
  by (simp add: dict_set_def)

lemma dict_set_Cons [simp, dict_simps]:
  "dict_set k v ((k', v') # d) = (if k' = k then (k, v) # d else (k', v') # dict_set k v d)"
  by (simp add: dict_set_def)

lemma dict_keys_set:
  "dict_keys (dict_set k v d) = (if k \<in> set (dict_keys d) then dict_keys d else dict_keys d @ [k])"
  by (induction d) auto

lemma dict_set_fresh: "k \<notin> set (dict_keys d) \<Longrightarrow> dict_set k v d = d @ [(k, v)]"
  by (induction d) auto

lemma dict_get_append_fresh:
  "k \<notin> set (dict_keys d) \<Longrightarrow> dict_get (d @ e) k = dict_get e k"
  by (induction d) auto

lemma dict_get_eq_None: "dict_get d k = None \<longleftrightarrow> k \<notin> set (dict_keys d)"
  by (induction d) (auto split: if_splits)

text \<open>
  The interface the client code relies on: a store whose lookup sees the last assignment and
  whose assignments never move or lose a key.
\<close>

locale keyed_store =
  fixes get :: "'d \<Rightarrow> 'k \<Rightarrow> 'v option"
    and put :: "'k \<Rightarrow> 'v \<Rightarrow> 'd \<Rightarrow> 'd"
    and keys :: "'d \<Rightarrow> 'k list"
  assumes get_put: "get (put k v d) = (get d)(k := Some v)"
    and keys_put: "keys (put k v d) = (if k \<in> set (keys d) then keys d else keys d @ [k])"
    and get_keys: "get d k = None \<longleftrightarrow> k \<notin> set (keys d)"
begin

lemma get_put_same: "get (put k v d) k = Some v"
  by (simp add: get_put)

lemma get_put_other: "k' \<noteq> k \<Longrightarrow> get (put k v d) k' = get d k'"
  by (simp add: get_put)

lemma put_present_keys: "get d k \<noteq> None \<Longrightarrow> keys (put k v d) = keys d"
  by (simp add: keys_put get_keys)

lemma distinct_put: "distinct (keys d) \<Longrightarrow> distinct (keys (put k v d))"
  by (simp add: keys_put)

text \<open>A loop of assignments whose keys are computed from the loop variable.\<close>

lemma keys_fold_put:
  "distinct (map f xs) \<Longrightarrow> set (map f xs) \<inter> set (keys d) = {} \<Longrightarrow>
   keys (fold (\<lambda>x. put (f x) (g x)) xs d) = keys d @ map f xs"
proof (induction xs arbitrary: d)
  case (Cons x xs)
  then show ?case by (subst fold.simps) (auto simp: Cons.IH keys_put)
qed simp

lemma get_fold_put_other:
  "k \<notin> f ` set xs \<Longrightarrow> get (fold (\<lambda>x. put (f x) (g x)) xs d) k = get d k"
  by (induction xs arbitrary: d) (auto simp: get_put)

lemma get_fold_put:
  "x \<in> set xs \<Longrightarrow> distinct (map f xs) \<Longrightarrow>
   get (fold (\<lambda>x. put (f x) (g x)) xs d) (f x) = Some (g x)"
proof (induction xs arbitrary: d)
  case (Cons y xs)
  show ?case
  proof (cases "x = y")
    case True
    with Cons.prems(2) have "f x \<notin> f ` set xs" by auto
    with True show ?thesis by (simp add: get_fold_put_other get_put)
  next
    case False
    with Cons show ?thesis by simp
  qed
qed simp

end

interpretation dict: keyed_store dict_get dict_set dict_keys
proof
  fix k :: 'a and v :: 'b and d :: "('a, 'b) dict"
  show "dict_get (dict_set k v d) = (dict_get d)(k := Some v)"
    by (rule ext) (induction d, auto)
qed (simp_all add: dict_keys_set dict_get_eq_None)

section \<open>Grouping in insertion order\<close>

text \<open>\<open>grouped.setdefault(key, []).append(item)\<close>\<close>

definition group_add :: "'k \<Rightarrow> 'a \<Rightarrow> ('k, 'a list) dict \<Rightarrow> ('k, 'a list) dict" where
  "group_add k x g =
     (case dict_get g k of None \<Rightarrow> dict_set k [x] g | Some xs \<Rightarrow> dict_set k (xs @ [x]) g)"

definition group_by :: "('a \<Rightarrow> 'k) \<Rightarrow> 'a list \<Rightarrow> ('k, 'a list) dict" where
  "group_by key xs = fold (\<lambda>x. group_add (key x) x) xs []"

lemma group_by_snoc: "group_by key (xs @ [x]) = group_add (key x) x (group_by key xs)"
  by (simp add: group_by_def)

lemma group_add_get:
  "dict_get (group_add k x g) k' =
     (if k' = k then Some (case dict_get g k of None \<Rightarrow> [x] | Some xs \<Rightarrow> xs @ [x])
      else dict_get g k')"
  by (simp add: group_add_def dict.get_put split: option.splits)

lemma group_by_get:
  "dict_get (group_by key xs) k =
     (if k \<in> key ` set xs then Some (filter (\<lambda>x. key x = k) xs) else None)"
proof (induction xs arbitrary: k rule: rev_induct)
  case Nil
  then show ?case by (simp add: group_by_def)
next
  case (snoc x xs)
  have "filter (\<lambda>y. key y = key x) xs = []" if "key x \<notin> key ` set xs"
    using that by (auto simp: filter_empty_conv image_iff)
  then show ?case
    by (auto simp: group_by_snoc group_add_get snoc.IH split: option.splits)
qed

lemma group_by_keys: "set (dict_keys (group_by key xs)) = key ` set xs"
proof (rule set_eqI)
  show "k \<in> set (dict_keys (group_by key xs)) \<longleftrightarrow> k \<in> key ` set xs" for k
    using dict.get_keys [of "group_by key xs" k] group_by_get [of key xs k]
    by (cases "k \<in> key ` set xs") auto
qed

lemma group_by_distinct: "distinct (dict_keys (group_by key xs))"
proof (induction xs rule: rev_induct)
  case Nil
  then show ?case by (simp add: group_by_def)
next
  case (snoc x xs)
  then show ?case
    by (auto simp: group_by_snoc group_add_def dict.distinct_put split: option.splits)
qed

text \<open>What the reporting code needs of a grouping: every group is the subsequence of its key.\<close>

locale grouping =
  fixes grp :: "('a \<Rightarrow> 'k) \<Rightarrow> 'a list \<Rightarrow> ('k, 'a list) dict"
  assumes grp_get: "dict_get (grp key xs) k =
     (if k \<in> key ` set xs then Some (filter (\<lambda>x. key x = k) xs) else None)"
    and grp_distinct: "distinct (dict_keys (grp key xs))"
begin

lemma grp_mem_iff:
  "(k, ys) \<in> set (grp key xs) \<longleftrightarrow> k \<in> key ` set xs \<and> ys = filter (\<lambda>x. key x = k) xs"
proof -
  have "(k, ys) \<in> set (grp key xs) \<longleftrightarrow> dict_get (grp key xs) k = Some ys"
    using grp_distinct [of key xs] by (simp add: dict_get_def dict_keys_def)
  then show ?thesis by (auto simp: grp_get)
qed

lemma grp_nonempty: "(k, ys) \<in> set (grp key xs) \<Longrightarrow> ys \<noteq> []"
  by (auto simp: grp_mem_iff filter_empty_conv)

lemma grp_key: "(k, ys) \<in> set (grp key xs) \<Longrightarrow> y \<in> set ys \<Longrightarrow> key y = k"
  by (auto simp: grp_mem_iff)

lemma grp_keys: "set (dict_keys (grp key xs)) = key ` set xs"
proof (rule set_eqI)
  show "k \<in> set (dict_keys (grp key xs)) \<longleftrightarrow> k \<in> key ` set xs" for k
    using dict.get_keys [of "grp key xs" k] grp_get [of key xs k]
    by (cases "k \<in> key ` set xs") auto
qed

text \<open>Nothing is lost and nothing is counted twice.\<close>

lemma grp_total:
  "(\<Sum>(k, ys)\<leftarrow>grp key xs. length ys) = length xs"
proof -
  let ?g = "grp key xs" and ?n = "\<lambda>k. length (filter (\<lambda>x. key x = k) xs)"
  have "(\<Sum>(k, ys)\<leftarrow>?g. length ys) = (\<Sum>k\<leftarrow>map fst ?g. ?n k)"
    by (auto simp: o_def grp_mem_iff intro!: arg_cong [where f = sum_list] map_cong)
  also have "\<dots> = (\<Sum>k\<in>set (map fst ?g). ?n k)"
    using grp_distinct [of key xs] unfolding dict_keys_def by (rule sum_list_distinct_conv_sum_set)
  also have "\<dots> = (\<Sum>k\<in>key ` set xs. ?n k)"
    using grp_keys [of key xs] by (simp add: dict_keys_def)
  also have "\<dots> = (\<Sum>k\<in>key ` set xs. card {i. i < length xs \<and> key (xs ! i) = k})"
    by (simp add: length_filter_conv_card)
  also have "\<dots> = card (\<Union>k\<in>key ` set xs. {i. i < length xs \<and> key (xs ! i) = k})"
    by (subst card_UN_disjoint) auto
  also have "(\<Union>k\<in>key ` set xs. {i. i < length xs \<and> key (xs ! i) = k}) = {..<length xs}"
    by (fastforce intro: nth_mem)
  finally show ?thesis by simp
qed

end

interpretation py_group: grouping group_by
  by unfold_locales (simp_all add: group_by_get group_by_distinct)

section \<open>Lists\<close>

lemma sorted_key_distinct_strict:
  fixes f :: "'a \<Rightarrow> 'b::linorder"
  assumes "distinct (map f xs)"
  shows "sorted_wrt (<) (map f (sort_key f xs))"
proof -
  have "distinct (map f (sort_key f xs))"
    using assms by (simp add: distinct_map)
  moreover have "sorted (map f (sort_key f xs))" by simp
  ultimately show ?thesis by (simp add: strict_sorted_iff)
qed

lemma set_sort_key [simp]: "set (sort_key f xs) = set xs"
  by simp

lemma sort_key_eq_Nil [simp]: "sort_key f xs = [] \<longleftrightarrow> xs = []"
  by (metis length_0_conv length_sort)

lemma sum_list_map_sort_key:
  fixes g :: "'a \<Rightarrow> 'b::comm_monoid_add"
  shows "(\<Sum>x\<leftarrow>sort_key f xs. g x) = (\<Sum>x\<leftarrow>xs. g x)"
  by (metis mset_map mset_sort sum_mset_sum_list)

end
