(* ===== verification/Py_Float.thy ===== *)
theory Py_Float
  imports Prelude
begin

text \<open>
  Python's \<open>float\<close>: the finite IEEE-754 binary64 values as the rationals they denote, and
  \<open>b64\<close>, the correctly rounded conversion (round half to even, gradual underflow at
  \<open>2 powi (-1074)\<close>).  Every arithmetic operation of the scripts is \<open>b64\<close> of the exact
  result.  Not represented: signed zero, infinities and NaN, hence no overflow; the
  quantities of the scripts (seconds, joules, bytes per second) stay far below \<open>2 ^ 1023\<close>.

  The laws the statistics and energy code relies on form the locale \<open>rounding\<close>; \<open>b64\<close>
  interprets it.
\<close>

section \<open>Rounding to an integer, half to even\<close>

definition round_half_even :: "rat \<Rightarrow> int" where
  "round_half_even x =
     (let f = \<lfloor>x\<rfloor>; d = x - of_int f
      in if d < 1 / 2 then f else if 1 / 2 < d then f + 1 else if even f then f else f + 1)"

lemma rhe_of_int [simp]: "round_half_even (of_int i) = i"
  by (simp add: round_half_even_def)

lemma rhe_0 [simp]: "round_half_even 0 = 0"
  using rhe_of_int [of 0] by simp

lemma rhe_bounds: "\<lfloor>x\<rfloor> \<le> round_half_even x" "round_half_even x \<le> \<lfloor>x\<rfloor> + 1"
  by (simp_all add: round_half_even_def Let_def)

lemma rhe_err: "\<bar>of_int (round_half_even x) - x\<bar> \<le> 1 / 2"
proof -
  have "of_int \<lfloor>x\<rfloor> \<le> x" "x < of_int \<lfloor>x\<rfloor> + 1"
    by linarith+
  then show ?thesis by (simp add: round_half_even_def Let_def abs_if) linarith
qed

lemma rhe_mono: "x \<le> y \<Longrightarrow> round_half_even x \<le> round_half_even y"
proof -
  assume le: "x \<le> y"
  then have fl: "\<lfloor>x\<rfloor> \<le> \<lfloor>y\<rfloor>" by (rule floor_mono)
  show ?thesis
  proof (cases "\<lfloor>x\<rfloor> = \<lfloor>y\<rfloor>")
    case True
    with le show ?thesis by (simp add: round_half_even_def Let_def)
  next
    case False
    with fl rhe_bounds [of x] rhe_bounds [of y] show ?thesis by linarith
  qed
qed

lemma rhe_ge_int: "of_int i \<le> x \<Longrightarrow> i \<le> round_half_even x"
  using rhe_mono [of "of_int i" x] by simp

lemma rhe_le_int: "x \<le> of_int i \<Longrightarrow> round_half_even x \<le> i"
  using rhe_mono [of x "of_int i"] by simp

lemma rhe_minus: "round_half_even (- x) = - round_half_even x"
proof (cases "of_int \<lfloor>x\<rfloor> = x")
  case True
  then show ?thesis by (metis of_int_minus rhe_of_int)
next
  case False
  have b: "of_int \<lfloor>x\<rfloor> \<le> x" "x < of_int \<lfloor>x\<rfloor> + 1"
    by linarith+
  from b False have "of_int \<lfloor>x\<rfloor> < x" by linarith
  with b have "\<lfloor>- x\<rfloor> = - \<lfloor>x\<rfloor> - 1"
    by (intro floor_unique) auto
  then show ?thesis by (auto simp: round_half_even_def Let_def)
qed

section \<open>Binary exponent\<close>

definition ilog2 :: "rat \<Rightarrow> int" where
  "ilog2 x =
     (let (p, q) = quotient_of x; e = bitlen p - bitlen q
      in if 2 powi e \<le> x then e else e - 1)"

lemma bitlen_powi:
  assumes "0 < p"
  shows "2 powi (bitlen p - 1) \<le> (of_int p :: rat)" "(of_int p :: rat) < 2 powi bitlen p"
proof -
  have pos: "0 < bitlen p"
    using assms by (metis bitlen_eq_zero_iff bitlen_nonneg leD order_less_le)
  have b: "2 ^ nat (bitlen p - 1) \<le> p" "p < 2 ^ nat (bitlen p)"
    using bitlen_bounds [OF assms] by auto
  from b(1) have "(of_int (2 ^ nat (bitlen p - 1)) :: rat) \<le> of_int p"
    by (simp only: of_int_le_iff)
  with pos show "2 powi (bitlen p - 1) \<le> (of_int p :: rat)"
    by (simp add: power_int_def)
  from b(2) have "(of_int p :: rat) < of_int (2 ^ nat (bitlen p))"
    by (simp only: of_int_less_iff)
  with pos show "(of_int p :: rat) < 2 powi bitlen p"
    by (simp add: power_int_def)
qed

lemma ilog2_bounds:
  assumes "0 < x"
  shows "2 powi ilog2 x \<le> x" "x < 2 powi (ilog2 x + 1)"
proof -
  obtain p q where pq: "quotient_of x = (p, q)" by (cases "quotient_of x")
  have q: "0 < q" and x: "x = of_int p / of_int q"
    using pq by (simp_all add: quotient_of_denom_pos quotient_of_div)
  have p: "0 < p"
    using assms q by (simp add: x zero_less_divide_iff)
  let ?e = "bitlen p - bitlen q"
  have "x < 2 powi bitlen p / 2 powi (bitlen q - 1)"
    unfolding x using bitlen_powi(2) [OF p] bitlen_powi(1) [OF q] p q
    by (intro frac_less) auto
  also have "\<dots> = 2 powi (?e + 1)"
    by (simp add: power_int_diff power_int_add)
  finally have up: "x < 2 powi (?e + 1)" .
  have "2 powi (?e - 1) = (2 powi (bitlen p - 1) / 2 powi bitlen q :: rat)"
    by (simp add: power_int_diff)
  also have "\<dots> \<le> x"
    unfolding x using bitlen_powi(1) [OF p] bitlen_powi(2) [OF q] p q
    by (intro frac_le) auto
  finally have lo: "2 powi (?e - 1) \<le> x" .
  from up lo show "2 powi ilog2 x \<le> x" "x < 2 powi (ilog2 x + 1)"
    by (simp_all add: ilog2_def pq Let_def)
qed

lemma powi_less_imp: "(2 :: rat) powi a < 2 powi b \<Longrightarrow> a < b"
  by (metis linorder_not_less power_int_increasing one_le_numeral)

lemma powi_mono: "a \<le> b \<Longrightarrow> (2 :: rat) powi a \<le> 2 powi b"
  by (simp add: power_int_increasing)

lemma ilog2_mono: "0 < x \<Longrightarrow> x \<le> y \<Longrightarrow> ilog2 x \<le> ilog2 y"
proof -
  assume "0 < x" "x \<le> y"
  then have "(2 :: rat) powi ilog2 x < 2 powi (ilog2 y + 1)"
    using ilog2_bounds [of x] ilog2_bounds [of y] by linarith
  then show ?thesis using powi_less_imp by fastforce
qed

section \<open>Binary64 rounding\<close>

text \<open>The exponent of the last significand bit: 53 bits, or the subnormal spacing.\<close>

definition exp64 :: "rat \<Rightarrow> int" where
  "exp64 x = max (ilog2 \<bar>x\<bar> - 52) (- 1074)"

definition b64 :: "rat \<Rightarrow> rat" where
  "b64 x =
     (if x = 0 then 0
      else let u = 2 powi exp64 x in of_int (round_half_even (x / u)) * u)"

text \<open>The representable values, with the exponent range open at the top.\<close>

definition rep64 :: "rat \<Rightarrow> bool" where
  "rep64 x \<longleftrightarrow> (\<exists>m e. \<bar>m\<bar> \<le> 2 ^ 53 \<and> - 1074 \<le> e \<and> x = of_int m * 2 powi e)"

lemma rep64I: "\<bar>m\<bar> \<le> 2 ^ 53 \<Longrightarrow> - 1074 \<le> e \<Longrightarrow> rep64 (of_int m * 2 powi e)"
  unfolding rep64_def by blast

lemma b64_0 [simp]: "b64 0 = 0"
  by (simp add: b64_def)

lemma b64_minus: "b64 (- x) = - b64 x"
  by (simp add: b64_def exp64_def Let_def rhe_minus)

lemma rep64_minus [simp]: "rep64 (- x) = rep64 x"
proof -
  have "rep64 (- x)" if r: "rep64 x" for x
  proof -
    obtain m e where "\<bar>m\<bar> \<le> 2 ^ 53" "- 1074 \<le> e" "x = of_int m * 2 powi e"
      using r unfolding rep64_def by blast
    then show ?thesis using rep64I [of "- m" e] by simp
  qed
  from this [of x] this [of "- x"] show ?thesis by auto
qed

lemma powi_pos [simp]: "0 < (2 :: rat) powi e"
  by simp

lemma powi_shift: "(2 :: rat) powi (e + numeral k) = 2 ^ numeral k * 2 powi e"
  by (subst power_int_add) (auto simp del: power_numeral)

lemma scaled_upper:
  assumes "0 < x"
  shows "x / 2 powi exp64 x \<le> of_int (2 ^ 53)"
proof -
  have "x < 2 powi (ilog2 x + 1)" using assms by (rule ilog2_bounds)
  also have "\<dots> \<le> 2 powi (exp64 x + 53)"
    using assms by (intro powi_mono) (simp add: exp64_def)
  also have "\<dots> = 2 ^ 53 * 2 powi exp64 x"
    by (rule powi_shift)
  finally show ?thesis by (simp add: field_simps)
qed

lemma scaled_lower:
  assumes "0 < x" "- 1074 < exp64 x"
  shows "of_int (2 ^ 52) * 2 powi exp64 x \<le> x"
proof -
  have "exp64 x + 52 = ilog2 x" using assms by (simp add: exp64_def max_def split: if_splits)
  then have "2 powi (exp64 x + 52) \<le> x"
    using ilog2_bounds(1) [OF assms(1)] by simp
  then show ?thesis by (simp add: powi_shift)
qed

lemma b64_pos_eq: "0 < x \<Longrightarrow> b64 x = of_int (round_half_even (x / 2 powi exp64 x)) * 2 powi exp64 x"
  by (simp add: b64_def Let_def)

lemma b64_nonneg_pos: "0 < x \<Longrightarrow> 0 \<le> b64 x"
  using rhe_ge_int [of 0 "x / 2 powi exp64 x"] by (simp add: b64_pos_eq)

lemma rep64_b64: "rep64 (b64 x)"
proof -
  have pos: "rep64 (b64 x)" if x: "0 < x" for x
  proof -
    let ?m = "round_half_even (x / 2 powi exp64 x)"
    have "?m \<le> 2 ^ 53" using scaled_upper [OF x] by (rule rhe_le_int)
    moreover have "0 \<le> ?m" using x by (intro rhe_ge_int) simp
    moreover have "- 1074 \<le> exp64 x" by (simp add: exp64_def)
    ultimately show ?thesis
      unfolding b64_pos_eq [OF x] by (intro rep64I) auto
  qed
  consider "x = 0" | "0 < x" | "0 < - x" by linarith
  then show ?thesis
  proof cases
    case 1
    then show ?thesis using rep64I [of 0 0] by simp
  next
    case 2
    then show ?thesis by (rule pos)
  next
    case 3
    then have "rep64 (b64 (- x))" by (rule pos)
    then show ?thesis by (simp add: b64_minus)
  qed
qed

text \<open>On the grid of a larger exponent a value is an integer multiple of the spacing.\<close>

lemma powi_multiple:
  assumes "e \<le> e'"
  shows "of_int m * (2 :: rat) powi e' = of_int (m * 2 ^ nat (e' - e)) * 2 powi e"
proof -
  have "(2 :: rat) powi e' = 2 powi (e + (e' - e))" by simp
  also have "\<dots> = 2 powi e * 2 ^ nat (e' - e)"
    using assms by (subst power_int_add) (auto simp: power_int_def)
  finally show ?thesis by simp
qed

lemma rep64_coarse:
  assumes "0 < x" "\<bar>m\<bar> \<le> 2 ^ 53" "e < exp64 x" "- 1074 \<le> e"
  shows "of_int m * (2 :: rat) powi e \<le> of_int (2 ^ 52) * 2 powi exp64 x"
    and "of_int (2 ^ 52) * 2 powi exp64 x \<le> x"
proof -
  have "(of_int m :: rat) \<le> of_int (2 ^ 53)" using assms(2) by (simp only: of_int_le_iff)
  then have "of_int m * 2 powi e \<le> (of_int (2 ^ 53) :: rat) * 2 powi e"
    by (rule mult_right_mono) simp
  also have "\<dots> = of_int (2 ^ 52) * 2 powi (e + 1)"
    by (simp add: power_int_add)
  also have "\<dots> \<le> (of_int (2 ^ 52) :: rat) * 2 powi exp64 x"
    using assms(3) by (intro mult_left_mono powi_mono) auto
  finally show "of_int m * (2 :: rat) powi e \<le> of_int (2 ^ 52) * 2 powi exp64 x" .
  show "of_int (2 ^ 52) * 2 powi exp64 x \<le> x"
    using assms by (intro scaled_lower) auto
qed

lemma b64_ge_rep:
  assumes x: "0 < x" and z: "rep64 z" "z \<le> x"
  shows "z \<le> b64 x"
proof -
  obtain m e where m: "\<bar>m\<bar> \<le> 2 ^ 53" "- 1074 \<le> e" "z = of_int m * 2 powi e"
    using z(1) by (auto simp: rep64_def)
  let ?u = "2 powi exp64 x :: rat"
  have core: "of_int k * ?u \<le> b64 x" if "of_int k * ?u \<le> x" for k
  proof -
    have "k \<le> round_half_even (x / ?u)"
      using that by (intro rhe_ge_int) (simp add: field_simps)
    then show ?thesis by (simp add: b64_pos_eq [OF x])
  qed
  show ?thesis
  proof (cases "exp64 x \<le> e")
    case True
    then show ?thesis using powi_multiple [OF True, of m] core z(2) m(3) by metis
  next
    case False
    then show ?thesis
      using rep64_coarse [OF x m(1) _ m(2)] core [of "2 ^ 52"] m(3) by force
  qed
qed

lemma b64_le_rep:
  assumes x: "0 < x" and z: "rep64 z" "x \<le> z"
  shows "b64 x \<le> z"
proof -
  obtain m e where m: "\<bar>m\<bar> \<le> 2 ^ 53" "- 1074 \<le> e" "z = of_int m * 2 powi e"
    using z(1) by (auto simp: rep64_def)
  let ?u = "2 powi exp64 x :: rat"
  have core: "b64 x \<le> of_int k * ?u" if "x \<le> of_int k * ?u" for k
  proof -
    have "round_half_even (x / ?u) \<le> k"
      using that by (intro rhe_le_int) (simp add: field_simps)
    then show ?thesis by (simp add: b64_pos_eq [OF x])
  qed
  show ?thesis
  proof (cases "exp64 x \<le> e")
    case True
    then show ?thesis using powi_multiple [OF True, of m] core z(2) m(3) by metis
  next
    case False
    then have "z = of_int (2 ^ 52) * ?u"
      using rep64_coarse [OF x m(1) _ m(2)] m(3) z(2) by force
    then show ?thesis using core [of "2 ^ 52"] z(2) by simp
  qed
qed

lemma b64_mono_pos:
  assumes "0 < x" "x \<le> y"
  shows "b64 x \<le> b64 y"
proof (cases "exp64 x = exp64 y")
  case True
  have "round_half_even (x / 2 powi exp64 y) \<le> round_half_even (y / 2 powi exp64 y)"
    using assms by (intro rhe_mono divide_right_mono) auto
  with True assms show ?thesis by (simp add: b64_pos_eq)
next
  case False
  have y: "0 < y" using assms by simp
  have "ilog2 x \<le> ilog2 y" using assms by (rule ilog2_mono)
  with False assms y have e: "- 1074 < exp64 y" "exp64 y = ilog2 y - 52" "ilog2 x + 1 \<le> ilog2 y"
    by (auto simp: exp64_def max_def split: if_splits)
  let ?z = "of_int (2 ^ 52) * 2 powi exp64 y :: rat"
  have "(2 :: rat) powi ilog2 y = 2 powi (exp64 y + 52)" by (simp only: e(2)) simp
  also have "\<dots> = 2 ^ 52 * 2 powi exp64 y" by (rule powi_shift)
  finally have z: "?z = 2 powi ilog2 y" by simp
  have "rep64 ?z"
    using e(1) by (intro rep64I) auto
  moreover have "x \<le> ?z"
    using ilog2_bounds(2) [OF assms(1)] powi_mono [OF e(3)] unfolding z by linarith
  moreover have "?z \<le> y" using y e(1) by (rule scaled_lower)
  ultimately show ?thesis using b64_le_rep [OF assms(1)] b64_ge_rep [OF y] by force
qed

lemma b64_mono: "x \<le> y \<Longrightarrow> b64 x \<le> b64 y"
proof -
  assume le: "x \<le> y"
  consider "0 < x" | "x \<le> 0" "0 \<le> y" | "0 < - y" by linarith
  then show ?thesis
  proof cases
    case 1
    then show ?thesis using le by (rule b64_mono_pos)
  next
    case 2
    have "0 \<le> b64 y" using 2 b64_nonneg_pos [of y] by (cases "y = 0") auto
    moreover have "b64 x \<le> 0"
      using 2 b64_nonneg_pos [of "- x"] by (cases "x = 0") (auto simp: b64_minus)
    ultimately show ?thesis by simp
  next
    case 3
    then show ?thesis using b64_mono_pos [OF 3, of "- x"] le by (simp add: b64_minus)
  qed
qed

lemma b64_rep: "rep64 z \<Longrightarrow> b64 z = z"
proof -
  assume z: "rep64 z"
  have pos: "b64 z = z" if "rep64 z" "0 < z" for z
    using b64_le_rep [OF that(2,1)] b64_ge_rep [OF that(2,1)] by force
  consider "z = 0" | "0 < z" | "0 < - z" by linarith
  then show ?thesis
  proof cases
    case 2
    with z show ?thesis by (intro pos)
  next
    case 3
    with z have "b64 (- z) = - z" by (intro pos) auto
    then show ?thesis by (simp add: b64_minus)
  qed simp
qed

lemma b64_idem [simp]: "b64 (b64 x) = b64 x"
  by (rule b64_rep) (rule rep64_b64)

lemma rep64_int: "\<bar>i\<bar> \<le> 2 ^ 53 \<Longrightarrow> rep64 (of_int i)"
  using rep64I [of i 0] by simp

lemma b64_int: "\<bar>i\<bar> \<le> 2 ^ 53 \<Longrightarrow> b64 (of_int i) = of_int i"
  by (rule b64_rep) (rule rep64_int)

lemma rep64_double: "rep64 x \<Longrightarrow> rep64 (2 * x)"
proof -
  assume "rep64 x"
  then obtain m e where *: "\<bar>m\<bar> \<le> 2 ^ 53" "- 1074 \<le> e" "x = of_int m * 2 powi e"
    unfolding rep64_def by blast
  have "2 * x = of_int m * 2 powi (e + 1)" by (simp add: *(3) power_int_add)
  moreover have "rep64 (of_int m * 2 powi (e + 1))" using * by (intro rep64I) auto
  ultimately show ?thesis by simp
qed

section \<open>The laws of rounding\<close>

text \<open>
  What the numeric code relies on: rounding is monotone, odd, leaves representable values
  alone, and integers of at most 53 bits are representable.
\<close>

locale rounding =
  fixes rnd :: "rat \<Rightarrow> rat" and rep :: "rat \<Rightarrow> bool"
  assumes rnd_mono: "x \<le> y \<Longrightarrow> rnd x \<le> rnd y"
    and rnd_rep: "rep x \<Longrightarrow> rnd x = x"
    and rep_rnd: "rep (rnd x)"
    and rep_int: "\<bar>i\<bar> \<le> 2 ^ 53 \<Longrightarrow> rep (of_int i)"
    and rnd_odd: "rnd (- x) = - rnd x"
begin

lemma rnd_int: "\<bar>i\<bar> \<le> 2 ^ 53 \<Longrightarrow> rnd (of_int i) = of_int i"
  by (rule rnd_rep) (rule rep_int)

lemma rnd_zero: "rnd 0 = 0"
  using rnd_int [of 0] by simp

lemma rnd_nonneg: "0 \<le> x \<Longrightarrow> 0 \<le> rnd x"
  using rnd_mono [of 0 x] by (simp add: rnd_zero)

lemma rnd_nonpos: "x \<le> 0 \<Longrightarrow> rnd x \<le> 0"
  using rnd_mono [of x 0] by (simp add: rnd_zero)

lemma rnd_ge: "rep a \<Longrightarrow> a \<le> x \<Longrightarrow> a \<le> rnd x"
  using rnd_mono [of a x] by (simp add: rnd_rep)

lemma rnd_le: "rep a \<Longrightarrow> x \<le> a \<Longrightarrow> rnd x \<le> a"
  using rnd_mono [of x a] by (simp add: rnd_rep)

text \<open>Subtracting a non-negative amount never raises a representable value.\<close>

lemma rnd_sub_le: "rep a \<Longrightarrow> 0 \<le> b \<Longrightarrow> rnd (a - b) \<le> a"
  by (rule rnd_le) auto

lemma rnd_scale_down: "rep a \<Longrightarrow> 0 \<le> a \<Longrightarrow> t \<le> 1 \<Longrightarrow> rnd (a * t) \<le> a"
  by (rule rnd_le) (auto simp: mult_left_le)

text \<open>The rounded arithmetic mean of representable values lies between the extremes.\<close>

lemma sum_list_bounds:
  fixes lo hi :: rat
  assumes "\<forall>x\<in>set xs. lo \<le> x \<and> x \<le> hi"
  shows "of_nat (length xs) * lo \<le> sum_list xs" "sum_list xs \<le> of_nat (length xs) * hi"
  using assms by (induction xs) (auto simp: algebra_simps)

lemma rnd_mean:
  assumes "xs \<noteq> []" "\<forall>x\<in>set xs. lo \<le> x \<and> x \<le> hi" "rep lo" "rep hi"
  shows "lo \<le> rnd (sum_list xs / of_nat (length xs))"
    and "rnd (sum_list xs / of_nat (length xs)) \<le> hi"
proof -
  have n: "0 < (of_nat (length xs) :: rat)" using assms(1) by simp
  show "lo \<le> rnd (sum_list xs / of_nat (length xs))"
    using sum_list_bounds(1) [OF assms(2)] n assms(3)
    by (intro rnd_ge) (auto simp: pos_le_divide_eq mult.commute)
  show "rnd (sum_list xs / of_nat (length xs)) \<le> hi"
    using sum_list_bounds(2) [OF assms(2)] n assms(4)
    by (intro rnd_le) (auto simp: pos_divide_le_eq mult.commute)
qed

end

interpretation dbl: rounding b64 rep64
  by unfold_locales (simp_all add: b64_mono b64_rep rep64_b64 rep64_int b64_minus)

section \<open>Accuracy\<close>

lemma b64_abs_err: "\<bar>b64 x - x\<bar> \<le> 2 powi exp64 x / 2"
proof (cases "x = 0")
  case False
  let ?u = "2 powi exp64 x :: rat"
  have "b64 x - x = (of_int (round_half_even (x / ?u)) - x / ?u) * ?u"
    using False by (simp add: b64_def Let_def left_diff_distrib)
  then have "\<bar>b64 x - x\<bar> = \<bar>of_int (round_half_even (x / ?u)) - x / ?u\<bar> * ?u"
    by (simp add: abs_mult)
  also have "\<dots> \<le> 1 / 2 * ?u" using rhe_err by (intro mult_right_mono) auto
  finally show ?thesis by simp
qed (simp add: exp64_def)

lemma b64_err: "\<bar>b64 x - x\<bar> \<le> \<bar>x\<bar> / 2 ^ 53 + 2 powi (- 1075)"
proof (cases "x = 0")
  case False
  have half: "2 powi e / 2 = (2 :: rat) powi (e - 1)" for e by (simp add: power_int_diff)
  show ?thesis
  proof (cases "exp64 x = - 1074")
    case True
    have "\<bar>b64 x - x\<bar> \<le> 2 powi (- 1074) / 2" using b64_abs_err [of x] by (simp only: True)
    also have "\<dots> = 2 powi (- 1075)" by (simp only: half) simp
    also have "\<dots> \<le> \<bar>x\<bar> / 2 ^ 53 + 2 powi (- 1075)" by (simp only: le_add_same_cancel2) simp
    finally show ?thesis .
  next
    case False
    then have e: "ilog2 \<bar>x\<bar> = exp64 x + 52" by (simp add: exp64_def max_def split: if_splits)
    have "2 powi (exp64 x + 52) \<le> \<bar>x\<bar>"
      using ilog2_bounds(1) [of "\<bar>x\<bar>"] \<open>x \<noteq> 0\<close> by (simp only: e)
    then have "2 ^ 52 * 2 powi exp64 x \<le> \<bar>x\<bar>" by (simp only: powi_shift)
    then have "2 powi exp64 x / 2 \<le> \<bar>x\<bar> / 2 ^ 53" by (simp add: field_simps)
    moreover have "0 \<le> (2 :: rat) powi (- 1075)" by (rule less_imp_le) (rule powi_pos)
    ultimately show ?thesis using b64_abs_err [of x] by linarith
  qed
qed simp

section \<open>Square root\<close>

text \<open>
  \<open>statistics.stdev\<close> takes the root of an exact fraction, correctly rounded: the integer
  root of a scaled numerator, rounded to odd, then one rounding to binary64.
\<close>

function isqrt :: "int \<Rightarrow> int" where
  "isqrt n =
     (if n \<le> 0 then 0
      else let r = 2 * isqrt (n div 4) in if (r + 1) * (r + 1) \<le> n then r + 1 else r)"
  by pat_completeness auto
termination
  by (relation "measure nat") auto

declare isqrt.simps [simp del]

lemma isqrt_0 [simp]: "isqrt 0 = 0"
  by (simp add: isqrt.simps)

lemma isqrt_correct:
  "0 \<le> n \<Longrightarrow> 0 \<le> isqrt n \<and> isqrt n * isqrt n \<le> n \<and> n < (isqrt n + 1) * (isqrt n + 1)"
proof (induction n rule: isqrt.induct)
  case (1 n)
  show ?case
  proof (cases "n = 0")
    case False
    with 1 have n: "0 < n" by simp
    let ?s = "isqrt (n div 4)"
    have IH: "0 \<le> ?s" "?s * ?s \<le> n div 4" "n div 4 < (?s + 1) * (?s + 1)"
      using 1(1) n by auto
    from IH(2) have "4 * (?s * ?s) \<le> n" by linarith
    then have lo: "(2 * ?s) * (2 * ?s) \<le> n" by (simp add: algebra_simps)
    from IH(3) have "n < 4 * ((?s + 1) * (?s + 1))" by linarith
    then have hi: "n < (2 * ?s + 1 + 1) * (2 * ?s + 1 + 1)" by (simp add: algebra_simps)
    from lo hi n IH(1) show ?thesis by (simp add: isqrt.simps [of n] Let_def)
  qed simp
qed

lemma isqrt_nonneg: "0 \<le> isqrt n"
  using isqrt_correct [of n] by (cases "0 \<le> n") (auto simp: isqrt.simps [of n])

definition isqrt_rto :: "int \<Rightarrow> int \<Rightarrow> int" where
  "isqrt_rto n m =
     (let a = isqrt (n div m) in if a * a * m \<noteq> n \<and> even a then a + 1 else a)"

definition fsqrt :: "rat \<Rightarrow> rat" where
  "fsqrt x =
     (let (n, m) = quotient_of x; q = (bitlen n - bitlen m - 109) div 2
      in if 0 \<le> q then b64 (of_int (isqrt_rto n (m * 4 ^ nat q) * 2 ^ nat q))
         else b64 (of_int (isqrt_rto (n * 4 ^ nat (- q)) m) / 2 ^ nat (- q)))"

lemma isqrt_rto_nonneg: "0 \<le> isqrt_rto n m"
  using isqrt_nonneg by (simp add: isqrt_rto_def Let_def)

lemma fsqrt_nonneg: "0 \<le> fsqrt x"
  by (auto simp: fsqrt_def Let_def isqrt_rto_nonneg split: prod.splits intro!: dbl.rnd_nonneg)

lemma fsqrt_0 [simp]: "fsqrt 0 = 0"
  by (simp add: fsqrt_def isqrt_rto_def Let_def)

lemma rep64_fsqrt: "rep64 (fsqrt x)"
  by (simp add: fsqrt_def Let_def rep64_b64 split: prod.splits)

text \<open>
  The computed root is next to the exact one: no representable value lies strictly between
  them, and a representable root is returned as it is.
\<close>

lemma fsqrt_scaled:
  assumes "0 < x"
  obtains q N M where "0 < N" "0 < M" "x = of_int N / of_int M * (2 powi q * 2 powi q)"
    "2 ^ 108 \<le> (of_int N / of_int M :: rat)" "fsqrt x = b64 (of_int (isqrt_rto N M) * 2 powi q)"
proof -
  obtain n m where nm: "quotient_of x = (n, m)" by fastforce
  have m: "0 < m" and x: "x = of_int n / of_int m"
    using nm by (simp_all add: quotient_of_denom_pos quotient_of_div)
  have n: "0 < n" using assms m by (simp add: x zero_less_divide_iff)
  define q where "q = (bitlen n - bitlen m - 109) div 2"
  have "2 powi (bitlen n - bitlen m - 1) = (2 powi (bitlen n - 1) / 2 powi bitlen m :: rat)"
    by (simp add: power_int_diff)
  also have "\<dots> \<le> x"
    unfolding x using bitlen_powi(1) [OF n] bitlen_powi(2) [OF m] m n by (intro frac_le) auto
  finally have lo: "2 powi (bitlen n - bitlen m - 1) \<le> x" .
  have "2 * q + 108 \<le> bitlen n - bitlen m - 1" unfolding q_def by presburger
  then have "2 powi (2 * q + 108) \<le> x" using lo powi_mono by (meson order_trans)
  moreover have sq: "2 powi (2 * q) = (2 powi q * 2 powi q :: rat)"
    by (subst mult_2, subst power_int_add) simp_all
  ultimately have big: "2 ^ 108 * (2 powi q * 2 powi q) \<le> x"
    by (simp only: powi_shift)
  have pos: "0 < (2 powi q * 2 powi q :: rat)" by simp
  have f: "fsqrt x = (if 0 \<le> q then b64 (of_int (isqrt_rto n (m * 4 ^ nat q) * 2 ^ nat q))
      else b64 (of_int (isqrt_rto (n * 4 ^ nat (- q)) m) / 2 ^ nat (- q)))"
    by (simp add: fsqrt_def nm q_def Let_def)
  show ?thesis
  proof (cases "0 \<le> q")
    case True
    then have p: "(2 powi q :: rat) = 2 ^ nat q" by (simp add: power_int_def)
    have four: "(2 ^ nat q * 2 ^ nat q :: rat) = 4 ^ nat q"
      by (simp flip: power_mult_distrib)
    have eq: "x = of_int n / of_int (m * 4 ^ nat q) * (2 powi q * 2 powi q)"
      unfolding p four by (simp add: x)
    then have "2 ^ 108 \<le> (of_int n / of_int (m * 4 ^ nat q) :: rat)"
      using big pos by (metis mult_le_cancel_right_pos)
    then show ?thesis
      using that [of n "m * 4 ^ nat q" q] n m eq f True p by simp
  next
    case False
    then have p: "(2 powi q :: rat) = 1 / 2 ^ nat (- q)"
      by (simp add: power_int_def inverse_eq_divide power_one_over)
    have four: "(2 ^ nat (- q) * 2 ^ nat (- q) :: rat) = 4 ^ nat (- q)"
      by (simp flip: power_mult_distrib)
    have eq: "x = of_int (n * 4 ^ nat (- q)) / of_int m * (2 powi q * 2 powi q)"
      unfolding p by (simp add: four x)
    then have "2 ^ 108 \<le> (of_int (n * 4 ^ nat (- q)) / of_int m :: rat)"
      using big pos by (metis mult_le_cancel_right_pos)
    then show ?thesis
      using that [of "n * 4 ^ nat (- q)" m q] n m eq f False p by simp
  qed
qed

lemma isqrt_floor:
  assumes "0 < N" "0 < M"
  defines "a \<equiv> isqrt (N div M)"
  shows "0 \<le> a" "of_int (a * a) \<le> (of_int N / of_int M :: rat)"
    "(of_int N / of_int M :: rat) < of_int ((a + 1) * (a + 1))"
    "isqrt_rto N M = a \<and> of_int (a * a) = (of_int N / of_int M :: rat)
     \<or> a \<le> isqrt_rto N M \<and> isqrt_rto N M \<le> a + 1 \<and> of_int (a * a) \<noteq> (of_int N / of_int M :: rat)"
proof -
  have fl: "\<lfloor>of_int N / of_int M :: rat\<rfloor> = N div M" by (rule floor_divide_of_int_eq)
  have a: "0 \<le> a" "a * a \<le> N div M" "N div M < (a + 1) * (a + 1)"
    using isqrt_correct [of "N div M"] assms by (auto simp: pos_imp_zdiv_nonneg_iff)
  show "0 \<le> a" by fact
  show "of_int (a * a) \<le> (of_int N / of_int M :: rat)" using a(2) by (simp only: le_floor_iff flip: fl)
  show "(of_int N / of_int M :: rat) < of_int ((a + 1) * (a + 1))"
    using a(3) by (simp only: floor_less_iff flip: fl)
  have "of_int (a * a) = (of_int N / of_int M :: rat) \<longleftrightarrow> a * a * M = N"
  proof -
    have "of_int (a * a) = (of_int N / of_int M :: rat) \<longleftrightarrow> of_int (a * a) * of_int M = (of_int N :: rat)"
      using assms(2) by (simp add: eq_divide_eq)
    also have "\<dots> \<longleftrightarrow> of_int (a * a * M) = (of_int N :: rat)" by simp
    also have "\<dots> \<longleftrightarrow> a * a * M = N" by (rule of_int_eq_iff)
    finally show ?thesis .
  qed
  then show "isqrt_rto N M = a \<and> of_int (a * a) = (of_int N / of_int M :: rat)
     \<or> a \<le> isqrt_rto N M \<and> isqrt_rto N M \<le> a + 1 \<and> of_int (a * a) \<noteq> (of_int N / of_int M :: rat)"
    by (simp add: isqrt_rto_def a_def Let_def)
qed

text \<open>A value on a grid of spacing \<open>2 powi q\<close>, or small.\<close>

lemma rep64_grid:
  assumes "rep64 z" "0 \<le> z"
  shows "(\<exists>K. 0 \<le> K \<and> z = of_int K * 2 powi q) \<or> z \<le> 2 ^ 52 * 2 powi q"
proof -
  obtain k e where ke: "\<bar>k\<bar> \<le> 2 ^ 53" "z = of_int k * 2 powi e"
    using assms(1) unfolding rep64_def by blast
  have k: "0 \<le> k" using assms(2) ke(2) powi_pos [of e] by (simp add: zero_le_mult_iff del: powi_pos)
  show ?thesis
  proof (cases "q \<le> e")
    case True
    from powi_multiple [OF this, of k] ke(2) k show ?thesis
      by (intro disjI1 exI [of _ "k * 2 ^ nat (e - q)"]) simp
  next
    case False
    have "(of_int k :: rat) \<le> of_int (2 ^ 53)" using ke(1) by (simp only: of_int_le_iff)
    then have "z \<le> of_int (2 ^ 53) * 2 powi e" unfolding ke(2) by (intro mult_right_mono) auto
    also have "\<dots> = of_int (2 ^ 52) * 2 powi (e + 1)" by (simp add: power_int_add)
    also have "\<dots> \<le> of_int (2 ^ 52) * 2 powi q"
      using False by (intro mult_left_mono powi_mono) auto
    finally show ?thesis by simp
  qed
qed

lemma square_le: "0 \<le> (a :: 'a :: linordered_idom) \<Longrightarrow> 0 \<le> b \<Longrightarrow> a * a \<le> b * b \<longleftrightarrow> a \<le> b"
  by (metis abs_le_square_iff abs_of_nonneg power2_eq_square)

lemma fsqrt_faithful:
  assumes "0 \<le> x" "rep64 z" "0 \<le> z"
  shows "z * z \<le> x \<Longrightarrow> z \<le> fsqrt x" and "x \<le> z * z \<Longrightarrow> fsqrt x \<le> z"
proof -
  have "(z * z \<le> x \<longrightarrow> z \<le> fsqrt x) \<and> (x \<le> z * z \<longrightarrow> fsqrt x \<le> z)"
  proof (cases "x = 0")
    case True
    then show ?thesis using assms by (auto simp: mult_le_0_iff)
  next
    case False
    then have "0 < x" using assms(1) by simp
    then obtain q N M where s: "0 < N" "0 < M" "x = of_int N / of_int M * (2 powi q * 2 powi q)"
      "2 ^ 108 \<le> (of_int N / of_int M :: rat)" "fsqrt x = b64 (of_int (isqrt_rto N M) * 2 powi q)"
      by (rule fsqrt_scaled)
    let ?y = "of_int N / of_int M :: rat" and ?u = "2 powi q :: rat"
    define a R where "a = isqrt (N div M)" and "R = isqrt_rto N M"
    note a = isqrt_floor [OF s(1,2), folded a_def R_def]
    have u: "0 < ?u" by simp
    have "(of_int (2 ^ 54 * 2 ^ 54) :: rat) = 2 ^ 108" by simp
    with s(4) a(3) have "(of_int (2 ^ 54 * 2 ^ 54) :: rat) < of_int ((a + 1) * (a + 1))"
      by (metis order_le_less_trans)
    then have "(2 ^ 54 * 2 ^ 54 :: int) < (a + 1) * (a + 1)" by (simp only: of_int_less_iff)
    then have "\<not> (a + 1) * (a + 1) \<le> 2 ^ 54 * 2 ^ 54" by (simp only: not_le)
    then have "2 ^ 54 < a + 1"
      using a(1) square_le [of "a + 1" "2 ^ 54"] by (simp only: not_le zero_le_power zero_le_numeral)
    then have big: "2 ^ 54 \<le> a" by simp
    have aR: "a \<le> R" using a(4) by auto
    have lower: "z \<le> of_int R * ?u" if "z * z \<le> x"
      using rep64_grid [OF assms(2,3), of q]
    proof (elim disjE exE conjE)
      fix K assume K: "0 \<le> K" "z = of_int K * ?u"
      then have "of_int (K * K) * (?u * ?u) \<le> ?y * (?u * ?u)" using that s(3) by (simp add: mult_ac)
      then have "of_int (K * K) \<le> ?y" using u by (simp only: mult_le_cancel_right_pos mult_pos_pos)
      then have "(of_int (K * K) :: rat) < of_int ((a + 1) * (a + 1))" using a(3) by linarith
      then have "K * K < (a + 1) * (a + 1)" by (simp only: of_int_less_iff)
      then have "K < a + 1" using K(1) a(1) square_le [of "a + 1" K] by linarith
      then have "(of_int K :: rat) \<le> of_int R" using aR by simp
      then show ?thesis unfolding K(2) by (intro mult_right_mono) auto
    next
      assume "z \<le> 2 ^ 52 * ?u"
      also have "(2 ^ 52 :: rat) = of_int (2 ^ 52)" by simp
      also have "of_int (2 ^ 52) * ?u \<le> of_int R * ?u"
        using big aR by (intro mult_right_mono; simp del: of_int_power)
      finally show ?thesis .
    qed
    have upper: "of_int R * ?u \<le> z" if "x \<le> z * z"
      using rep64_grid [OF assms(2,3), of q]
    proof (elim disjE exE conjE)
      fix K assume K: "0 \<le> K" "z = of_int K * ?u"
      then have "?y * (?u * ?u) \<le> of_int (K * K) * (?u * ?u)" using that s(3) by (simp add: mult_ac)
      then have y: "?y \<le> of_int (K * K)" using u by (simp only: mult_le_cancel_right_pos mult_pos_pos)
      have "R \<le> K"
      proof (cases "of_int (a * a) = ?y")
        case True
        then have "a * a \<le> K * K" using y by (metis of_int_le_iff)
        then show ?thesis using a(4) True K(1) a(1) square_le [of a K] by auto
      next
        case False
        then have "(of_int (a * a) :: rat) < of_int (K * K)" using y a(2) by linarith
        then have "a * a < K * K" by (simp only: of_int_less_iff)
        then have "a < K" using K(1) a(1) square_le [of K a] by linarith
        then show ?thesis using a(4) False by linarith
      qed
      then show ?thesis unfolding K(2) by (intro mult_right_mono) auto
    next
      assume z: "z \<le> 2 ^ 52 * ?u"
      then have "z * z \<le> (2 ^ 52 * ?u) * (2 ^ 52 * ?u)" using assms(3) by (intro mult_mono) auto
      also have "\<dots> = 2 ^ 104 * (?u * ?u)" by (simp add: mult_ac)
      also have "\<dots> < 2 ^ 108 * (?u * ?u)" using u by (intro mult_strict_right_mono) auto
      also have "\<dots> \<le> x" unfolding s(3) using s(4) u by (intro mult_right_mono) auto
      finally show ?thesis using that by linarith
    qed
    show ?thesis
      using lower upper assms(2) unfolding s(5) R_def [symmetric] by (auto intro: dbl.rnd_ge dbl.rnd_le)
  qed
  then show "z * z \<le> x \<Longrightarrow> z \<le> fsqrt x" "x \<le> z * z \<Longrightarrow> fsqrt x \<le> z" by auto
qed

end
