(* ===== verification/Py_Value.thy ===== *)
theory Py_Value
  imports Py_Float
begin

text \<open>
  The Python values the scripts compute with: exceptions, numbers (unbounded integers and
  binary64 floats with Python's mixed arithmetic), and the dynamically typed values that
  \<open>json.load\<close> returns.  An operation that may raise returns an \<open>exn + _\<close>.
\<close>

section \<open>Exceptions\<close>

datatype exn =
    KeyboardInterrupt | SystemExit int
  | OSError string | FileNotFoundError string | RuntimeError string | TimeoutExpired
  | TypeError | AttributeError | ValueError | IndexError | KeyError | ZeroDivisionError
  | StatisticsError | OtherException string
  | OutOfFuel \<comment> \<open>no Python exception: the bound on a modelled loop ran out\<close>

type_synonym 'a py = "(exn, 'a) result"

text \<open>\<open>except Exception\<close> lets exactly the \<open>BaseException\<close>s through; \<open>except OSError\<close>
  also catches its subclass \<open>FileNotFoundError\<close>.\<close>

definition is_Exception :: "exn \<Rightarrow> bool" where
  "is_Exception e = (case e of KeyboardInterrupt \<Rightarrow> False | SystemExit _ \<Rightarrow> False
     | OutOfFuel \<Rightarrow> False | _ \<Rightarrow> True)"

definition is_OSError :: "exn \<Rightarrow> bool" where
  "is_OSError e = (case e of OSError _ \<Rightarrow> True | FileNotFoundError _ \<Rightarrow> True | _ \<Rightarrow> False)"

lemma is_Exception_simps [simp]:
  "\<not> is_Exception KeyboardInterrupt" "\<not> is_Exception (SystemExit n)" "\<not> is_Exception OutOfFuel"
  "is_Exception (OSError s)" "is_Exception (FileNotFoundError s)" "is_Exception (RuntimeError s)"
  "is_Exception TimeoutExpired" "is_Exception TypeError" "is_Exception AttributeError"
  "is_Exception ValueError" "is_Exception IndexError" "is_Exception KeyError"
  "is_Exception ZeroDivisionError" "is_Exception StatisticsError"
  "is_Exception (OtherException s)"
  by (simp_all add: is_Exception_def)

section \<open>Numbers\<close>

datatype pynum = PInt int | PFlt rat

definition num_val :: "pynum \<Rightarrow> rat" where
  "num_val a = (case a of PInt i \<Rightarrow> of_int i | PFlt x \<Rightarrow> x)"

definition to_flt :: "pynum \<Rightarrow> rat" where
  "to_flt a = (case a of PInt i \<Rightarrow> b64 (of_int i) | PFlt x \<Rightarrow> x)"

text \<open>A number as the interpreter can hold it: a float is a representable value.\<close>

definition num_ok :: "pynum \<Rightarrow> bool" where
  "num_ok a = (case a of PInt i \<Rightarrow> True | PFlt x \<Rightarrow> rep64 x)"

lemma num_val_simps [simp]: "num_val (PInt i) = of_int i" "num_val (PFlt x) = x"
  by (simp_all add: num_val_def)

lemma to_flt_simps [simp]: "to_flt (PInt i) = b64 (of_int i)" "to_flt (PFlt x) = x"
  by (simp_all add: to_flt_def)

lemma num_ok_simps [simp]: "num_ok (PInt i)" "num_ok (PFlt x) = rep64 x"
  by (simp_all add: num_ok_def)

lemma to_flt_ok: "num_ok a \<Longrightarrow> to_flt a = b64 (num_val a)"
  by (cases a) (auto simp: b64_rep)

lemma to_flt_mono: "num_ok a \<Longrightarrow> num_ok b \<Longrightarrow> num_val a \<le> num_val b \<Longrightarrow> to_flt a \<le> to_flt b"
  by (simp add: to_flt_ok b64_mono)

lemma rep64_to_flt: "num_ok a \<Longrightarrow> rep64 (to_flt a)"
  by (simp add: to_flt_ok rep64_b64)

text \<open>Mixed arithmetic: two integers stay exact, anything else is computed in binary64.\<close>

fun num_add :: "pynum \<Rightarrow> pynum \<Rightarrow> pynum" where
  "num_add (PInt i) (PInt j) = PInt (i + j)"
| "num_add a b = PFlt (b64 (to_flt a + to_flt b))"

fun num_sub :: "pynum \<Rightarrow> pynum \<Rightarrow> pynum" where
  "num_sub (PInt i) (PInt j) = PInt (i - j)"
| "num_sub a b = PFlt (b64 (to_flt a - to_flt b))"

fun num_mul :: "pynum \<Rightarrow> pynum \<Rightarrow> pynum" where
  "num_mul (PInt i) (PInt j) = PInt (i * j)"
| "num_mul a b = PFlt (b64 (to_flt a * to_flt b))"

text \<open>\<open>/\<close> of two integers is the correctly rounded quotient.\<close>

fun num_div :: "pynum \<Rightarrow> pynum \<Rightarrow> pynum py" where
  "num_div (PInt i) (PInt j) =
     (if j = 0 then Inl ZeroDivisionError else Inr (PFlt (b64 (of_int i / of_int j))))"
| "num_div a b =
     (if num_val b = 0 then Inl ZeroDivisionError else Inr (PFlt (b64 (to_flt a / to_flt b))))"

lemma num_ok_add: "num_ok (num_add a b)"
  by (induction a b rule: num_add.induct) (auto simp: rep64_b64)

lemma num_ok_sub: "num_ok (num_sub a b)"
  by (induction a b rule: num_sub.induct) (auto simp: rep64_b64)

lemma num_ok_mul: "num_ok (num_mul a b)"
  by (induction a b rule: num_mul.induct) (auto simp: rep64_b64)

lemma num_ok_div: "num_div a b = Inr c \<Longrightarrow> num_ok c"
  by (induction a b rule: num_div.induct) (auto simp: rep64_b64 split: if_splits)

lemma num_div_error: "num_div a b = Inl e \<longleftrightarrow> num_val b = 0 \<and> e = ZeroDivisionError"
  by (induction a b rule: num_div.induct) auto

lemma num_div_total: "num_val b \<noteq> 0 \<Longrightarrow> \<exists>q. num_div a b = Inr q"
  by (induction a b rule: num_div.induct) auto

text \<open>Comparisons between integers and floats are exact.\<close>

definition num_le :: "pynum \<Rightarrow> pynum \<Rightarrow> bool" where
  "num_le a b \<longleftrightarrow> num_val a \<le> num_val b"

definition num_lt :: "pynum \<Rightarrow> pynum \<Rightarrow> bool" where
  "num_lt a b \<longleftrightarrow> num_val a < num_val b"

text \<open>\<open>min(xs)\<close>, \<open>max(xs)\<close>: the first extreme element; \<open>sorted(xs)\<close> is stable.\<close>

fun min_by :: "('a \<Rightarrow> 'b::linorder) \<Rightarrow> 'a \<Rightarrow> 'a list \<Rightarrow> 'a" where
  "min_by f m [] = m"
| "min_by f m (x # xs) = min_by f (if f x < f m then x else m) xs"

fun max_by :: "('a \<Rightarrow> 'b::linorder) \<Rightarrow> 'a \<Rightarrow> 'a list \<Rightarrow> 'a" where
  "max_by f m [] = m"
| "max_by f m (x # xs) = max_by f (if f m < f x then x else m) xs"

definition py_min :: "('a \<Rightarrow> 'b::linorder) \<Rightarrow> 'a list \<Rightarrow> 'a py" where
  "py_min f xs = (case xs of [] \<Rightarrow> Inl ValueError | y # ys \<Rightarrow> Inr (min_by f y ys))"

definition py_max :: "('a \<Rightarrow> 'b::linorder) \<Rightarrow> 'a list \<Rightarrow> 'a py" where
  "py_max f xs = (case xs of [] \<Rightarrow> Inl ValueError | y # ys \<Rightarrow> Inr (max_by f y ys))"

lemma min_by_mem: "min_by f m xs \<in> insert m (set xs)"
  by (induction xs arbitrary: m) (simp, fastforce)

lemma max_by_mem: "max_by f m xs \<in> insert m (set xs)"
  by (induction xs arbitrary: m) (simp, fastforce)

lemma min_by_all: "\<forall>x\<in>insert m (set xs). f (min_by f m xs) \<le> f x"
proof (induction xs arbitrary: m)
  case (Cons y xs)
  have *: "\<forall>x\<in>set xs. f (min_by f y xs) \<le> f x" "f (min_by f y xs) \<le> f y"
    "\<forall>x\<in>set xs. f (min_by f m xs) \<le> f x" "f (min_by f m xs) \<le> f m"
    using Cons.IH [of y] Cons.IH [of m] by simp_all
  show ?case
  proof (cases "f y < f m")
    case True
    with *(2) have "f (min_by f y xs) \<le> f m" by (meson less_imp_le order_trans)
    with True * show ?thesis by simp
  next
    case False
    with *(4) have "f (min_by f m xs) \<le> f y" by (meson leI order_trans)
    with False * show ?thesis by simp
  qed
qed simp

lemma min_by_le: "x \<in> insert m (set xs) \<Longrightarrow> f (min_by f m xs) \<le> f x"
  by (rule bspec [OF min_by_all])

lemma max_by_all: "\<forall>x\<in>insert m (set xs). f x \<le> f (max_by f m xs)"
proof (induction xs arbitrary: m)
  case (Cons y xs)
  have *: "\<forall>x\<in>set xs. f x \<le> f (max_by f y xs)" "f y \<le> f (max_by f y xs)"
    "\<forall>x\<in>set xs. f x \<le> f (max_by f m xs)" "f m \<le> f (max_by f m xs)"
    using Cons.IH [of y] Cons.IH [of m] by simp_all
  show ?case
  proof (cases "f m < f y")
    case True
    with *(2) have "f m \<le> f (max_by f y xs)" by (meson less_imp_le order_trans)
    with True * show ?thesis by simp
  next
    case False
    with *(4) have "f y \<le> f (max_by f m xs)" by (meson leI order_trans)
    with False * show ?thesis by simp
  qed
qed simp

lemma max_by_ge: "x \<in> insert m (set xs) \<Longrightarrow> f x \<le> f (max_by f m xs)"
  by (rule bspec [OF max_by_all])

text \<open>The first among the extreme elements is returned.\<close>

lemma min_by_first:
  "\<exists>us vs. m # xs = us @ min_by f m xs # vs \<and> (\<forall>u\<in>set us. f (min_by f m xs) < f u)"
proof (induction xs arbitrary: m)
  case Nil
  then show ?case by (intro exI [of _ "[]"]) simp
next
  case (Cons y xs)
  show ?case
  proof (cases "f y < f m")
    case True
    obtain us vs where *: "y # xs = us @ min_by f y xs # vs"
      "\<forall>u\<in>set us. f (min_by f y xs) < f u" using Cons.IH [of y] by blast
    have "f (min_by f y xs) \<le> f y" by (rule min_by_le) simp
    moreover have "min_by f m (y # xs) = min_by f y xs" using True by simp
    ultimately show ?thesis
      unfolding * using True *
      by (intro exI [of _ "m # us"] exI [of _ vs]) (auto simp del: min_by.simps)
  next
    case False
    then have r: "min_by f m (y # xs) = min_by f m xs" by simp
    obtain us vs where *: "m # xs = us @ min_by f m xs # vs"
      "\<forall>u\<in>set us. f (min_by f m xs) < f u" using Cons.IH [of m] by blast
    show ?thesis
    proof (cases us)
      case Nil
      with *(1) have "m = min_by f m xs" by auto
      then show ?thesis unfolding r by (metis append_Nil empty_iff list.set(1))
    next
      case (Cons u us')
      with * have "u = m" "xs = us' @ min_by f m xs # vs" "f (min_by f m xs) < f m" by auto
      with * False Cons show ?thesis
        unfolding r by (intro exI [of _ "m # y # us'"] exI [of _ vs]) auto
    qed
  qed
qed

text \<open>List indexing with Python's negative indices.\<close>

definition py_index :: "'a list \<Rightarrow> int \<Rightarrow> 'a py" where
  "py_index xs i =
     (if 0 \<le> i
      then (if nat i < length xs then Inr (xs ! nat i) else Inl IndexError)
      else (if nat (- i) \<le> length xs then Inr (xs ! (length xs - nat (- i))) else Inl IndexError))"

lemma py_index_in_range:
  "0 \<le> i \<Longrightarrow> i < int (length xs) \<Longrightarrow> py_index xs i = Inr (xs ! nat i)"
  by (simp add: py_index_def nat_less_iff)

section \<open>Dynamically typed values\<close>

datatype pyval =
    VNone | VBool bool | VNum pynum | VStr string
  | VList "pyval list" | VDict "(string \<times> pyval) list"

type_synonym pydict = "(string, pyval) dict"

fun truthy :: "pyval \<Rightarrow> bool" where
  "truthy VNone = False"
| "truthy (VBool b) = b"
| "truthy (VNum a) = (num_val a \<noteq> 0)"
| "truthy (VStr s) = (s \<noteq> [])"
| "truthy (VList xs) = (xs \<noteq> [])"
| "truthy (VDict d) = (d \<noteq> [])"

text \<open>\<open>x.get(key, default)\<close>: only a dictionary has the method.\<close>

fun val_get :: "pyval \<Rightarrow> string \<Rightarrow> pyval \<Rightarrow> pyval py" where
  "val_get (VDict d) k dflt = Inr (case dict_get d k of None \<Rightarrow> dflt | Some v \<Rightarrow> v)"
| "val_get _ k dflt = Inl AttributeError"

text \<open>\<open>key in x\<close>, for a dictionary.\<close>

fun val_has :: "pyval \<Rightarrow> string \<Rightarrow> bool py" where
  "val_has (VDict d) k = Inr (dict_get d k \<noteq> None)"
| "val_has _ k = Inl TypeError"

text \<open>\<open>for x in v\<close>: lists, the keys of a dictionary, the characters of a string.\<close>

fun val_iter :: "pyval \<Rightarrow> pyval list py" where
  "val_iter (VList xs) = Inr xs"
| "val_iter (VDict d) = Inr (map VStr (dict_keys d))"
| "val_iter (VStr s) = Inr (map (\<lambda>c. VStr [c]) s)"
| "val_iter _ = Inl TypeError"

text \<open>The number a value stands for in arithmetic: \<open>bool\<close> is a subclass of \<open>int\<close>.\<close>

fun as_num :: "pyval \<Rightarrow> pynum option" where
  "as_num (VNum a) = Some a"
| "as_num (VBool b) = Some (PInt (if b then 1 else 0))"
| "as_num _ = None"

fun val_add :: "pynum \<Rightarrow> pyval \<Rightarrow> pynum py" where
  "val_add a v = (case as_num v of Some b \<Rightarrow> Inr (num_add a b) | None \<Rightarrow> Inl TypeError)"

text \<open>Truncation towards zero, as \<open>int(x)\<close> on a float.\<close>

definition trunc :: "rat \<Rightarrow> int" where
  "trunc x = (if 0 \<le> x then \<lfloor>x\<rfloor> else \<lceil>x\<rceil>)"

lemma trunc_of_int [simp]: "trunc (of_int i) = i"
  by (simp add: trunc_def)

definition num_floor :: "pynum \<Rightarrow> int" where "num_floor a = \<lfloor>num_val a\<rfloor>"
definition num_ceil :: "pynum \<Rightarrow> int" where "num_ceil a = \<lceil>num_val a\<rceil>"
definition num_int :: "pynum \<Rightarrow> int" where "num_int a = trunc (num_val a)"

end
