(* ===== verification/Stats.thy ===== *)
theory Stats
  imports Py_Value
begin

text \<open>
  The statistics of \<open>scripts/run_bench.py\<close>: \<open>percentile\<close> and \<open>compute_stats\<close>, with the
  functions of Python's \<open>statistics\<close> module they call (\<open>mean\<close>, \<open>median\<close> and
  \<open>stdev\<close>, which sum exactly and round once).
\<close>

section \<open>The statistics module\<close>

definition num_sum :: "pynum list \<Rightarrow> rat" where
  "num_sum xs = sum_list (map num_val xs)"

definition all_int :: "pynum list \<Rightarrow> bool" where
  "all_int xs = list_all (\<lambda>a. case a of PInt _ \<Rightarrow> True | PFlt _ \<Rightarrow> False) xs"

text \<open>\<open>mean\<close> of integers stays an integer when it is one.\<close>

definition stat_mean :: "pynum list \<Rightarrow> pynum py" where
  "stat_mean xs =
     (if xs = [] then Inl StatisticsError
      else let m = num_sum xs / of_nat (length xs)
           in if all_int xs \<and> of_int \<lfloor>m\<rfloor> = m then Inr (PInt \<lfloor>m\<rfloor>) else Inr (PFlt (b64 m)))"

definition stat_median :: "pynum list \<Rightarrow> pynum py" where
  "stat_median xs =
     (let ys = sort_key num_val xs; n = length ys
      in if n = 0 then Inl StatisticsError
         else if odd n then Inr (ys ! (n div 2))
         else num_div (num_add (ys ! (n div 2 - 1)) (ys ! (n div 2))) (PInt 2))"

text \<open>The exact sum of squared deviations, in the form \<open>(n * sxx - sx * sx) / n\<close>.\<close>

definition stat_ss :: "pynum list \<Rightarrow> rat" where
  "stat_ss xs =
     (let n = of_nat (length xs); sx = num_sum xs; sxx = sum_list (map (\<lambda>a. num_val a * num_val a) xs)
      in (n * sxx - sx * sx) / n)"

definition stat_stdev :: "pynum list \<Rightarrow> pynum py" where
  "stat_stdev xs =
     (if length xs < 2 then Inl StatisticsError
      else Inr (PFlt (fsqrt (stat_ss xs / of_nat (length xs - 1)))))"

section \<open>percentile\<close>

definition percentile :: "pynum list \<Rightarrow> pynum \<Rightarrow> pynum option py" where
  "percentile sorted_values p =
     (if sorted_values = [] then Inr None
      else if length sorted_values = 1 then Inr (Some (sorted_values ! 0))
      else res_bind (num_div p (PFlt 100)) (\<lambda>q.
        let k = num_mul (PInt (int (length sorted_values) - 1)) q;
            f = num_floor k; c = num_ceil k
        in if f = c then res_bind (py_index sorted_values (num_int k)) (\<lambda>v. Inr (Some v))
           else res_bind (py_index sorted_values f) (\<lambda>vf.
                res_bind (py_index sorted_values c) (\<lambda>vc.
                  let d0 = num_mul vf (num_sub (PInt c) k);
                      d1 = num_mul vc (num_sub k (PInt f))
                  in Inr (Some (num_add d0 d1))))))"

section \<open>compute_stats\<close>

record stats =
  st_count :: int
  st_mean :: pynum
  st_median :: pynum
  st_stdev :: pynum
  st_min :: pynum
  st_max :: pynum
  st_p25 :: "pynum option"
  st_p50 :: "pynum option"
  st_p95 :: "pynum option"

definition compute_stats :: "pynum list \<Rightarrow> stats option py" where
  "compute_stats values =
     (if values = [] then Inr None
      else let sorted_values = sort_key num_val values in
        res_bind (stat_mean values) (\<lambda>mean.
        res_bind (stat_median values) (\<lambda>median.
        res_bind (if 1 < length values then stat_stdev values else Inr (PFlt 0)) (\<lambda>stdev.
        res_bind (py_min num_val values) (\<lambda>mn.
        res_bind (py_max num_val values) (\<lambda>mx.
        res_bind (percentile sorted_values (PInt 25)) (\<lambda>p25.
        res_bind (percentile sorted_values (PInt 50)) (\<lambda>p50.
        res_bind (percentile sorted_values (PInt 95)) (\<lambda>p95.
          Inr (Some \<lparr>st_count = int (length values), st_mean = mean, st_median = median,
            st_stdev = stdev, st_min = mn, st_max = mx,
            st_p25 = p25, st_p50 = p50, st_p95 = p95\<rparr>))))))))))"

section \<open>Correctness of percentile\<close>

text \<open>
  \<open>p / 100.0\<close> is a float in the unit interval, so the fractional index stays inside the
  list: the rounding laws give the range, and no access raises.
\<close>

lemma percent_fraction:
  assumes "0 \<le> p" "p \<le> 100"
  shows "num_div (PInt p) (PFlt 100) = Inr (PFlt (b64 (of_int p / 100)))"
    and "0 \<le> b64 (of_int p / 100)" and "b64 (of_int p / 100) \<le> 1"
proof -
  have "b64 (of_int p) = of_int p" using assms by (intro b64_int) auto
  then show "num_div (PInt p) (PFlt 100) = Inr (PFlt (b64 (of_int p / 100)))" by simp
  show "0 \<le> b64 (of_int p / 100)" using assms by (intro dbl.rnd_nonneg) simp
  show "b64 (of_int p / 100) \<le> 1"
    using assms dbl.rep_int [of 1] by (intro dbl.rnd_le) auto
qed

definition pct_index :: "nat \<Rightarrow> int \<Rightarrow> rat" where
  "pct_index n p = b64 (of_int (int n - 1) * b64 (of_int p / 100))"

lemma pct_index_range:
  assumes "0 \<le> p" "p \<le> 100" "1 \<le> n" "int n \<le> 2 ^ 53"
  shows "0 \<le> pct_index n p" "pct_index n p \<le> of_int (int n - 1)"
proof -
  have "rep64 (of_int (int n - 1))" using assms by (intro rep64_int) auto
  then show "pct_index n p \<le> of_int (int n - 1)"
    unfolding pct_index_def using assms percent_fraction(3) [of p] by (intro dbl.rnd_scale_down) auto
  show "0 \<le> pct_index n p"
    unfolding pct_index_def using assms percent_fraction(2) [of p] by (intro dbl.rnd_nonneg) auto
qed

lemma percentile_eq:
  assumes "0 \<le> p" "p \<le> 100" "2 \<le> length xs" "int (length xs) \<le> 2 ^ 53"
  defines "k \<equiv> pct_index (length xs) p"
  shows "percentile xs (PInt p) =
    Inr (Some (if \<lfloor>k\<rfloor> = \<lceil>k\<rceil> then xs ! nat \<lfloor>k\<rfloor>
      else num_add (num_mul (xs ! nat \<lfloor>k\<rfloor>) (PFlt (b64 (of_int \<lceil>k\<rceil> - k))))
                   (num_mul (xs ! nat \<lceil>k\<rceil>) (PFlt (b64 (k - of_int \<lfloor>k\<rfloor>))))))"
proof -
  let ?n = "length xs"
  have k: "0 \<le> k" "k \<le> of_int (int ?n - 1)"
    unfolding k_def using assms by (intro pct_index_range; simp)+
  from k(2) have "\<lceil>k\<rceil> \<le> int ?n - 1" by (simp only: ceiling_le_iff)
  with k(1) have fc: "0 \<le> \<lfloor>k\<rfloor>" "\<lfloor>k\<rfloor> \<le> \<lceil>k\<rceil>" "\<lceil>k\<rceil> \<le> int ?n - 1"
    by (auto simp: floor_le_ceiling)
  have idx: "py_index xs \<lfloor>k\<rfloor> = Inr (xs ! nat \<lfloor>k\<rfloor>)" "py_index xs \<lceil>k\<rceil> = Inr (xs ! nat \<lceil>k\<rceil>)"
    using fc by (intro py_index_in_range; linarith)+
  have exact: "b64 (of_int (int ?n - 1)) = of_int (int ?n - 1)" "b64 (of_int \<lfloor>k\<rfloor>) = of_int \<lfloor>k\<rfloor>"
    "b64 (of_int \<lceil>k\<rceil>) = of_int \<lceil>k\<rceil>"
    using assms(3,4) fc by (intro b64_int; linarith)+
  have kk: "num_mul (PInt (int ?n - 1)) (PFlt (b64 (of_int p / 100))) = PFlt k"
    using exact(1) by (simp add: k_def pct_index_def)
  have w: "num_sub (PInt \<lceil>k\<rceil>) (PFlt k) = PFlt (b64 (of_int \<lceil>k\<rceil> - k))"
    "num_sub (PFlt k) (PInt \<lfloor>k\<rfloor>) = PFlt (b64 (k - of_int \<lfloor>k\<rfloor>))"
    using exact(2,3) by simp_all
  have "trunc k = \<lfloor>k\<rfloor>" using k(1) by (simp add: trunc_def)
  moreover have "xs \<noteq> []" "?n \<noteq> 1" using assms(3) by auto
  ultimately show ?thesis
    using idx
    by (simp del: num_div.simps num_mul.simps num_sub.simps num_add.simps
        add: percentile_def percent_fraction(1) [OF assms(1,2)] kk w Let_def
        num_floor_def num_ceil_def num_int_def)
qed

section \<open>Accuracy of the interpolation\<close>

definition eps :: rat where "eps = 1 / 2 ^ 53"
definition tiny :: rat where "tiny = 2 powi (- 1075)"

lemma eps_tiny: "0 < eps" "0 < tiny" "tiny \<le> 1 / 2 ^ 60"
proof -
  show "0 < eps" by (simp add: eps_def)
  show "0 < tiny" unfolding tiny_def by (rule powi_pos)
  have "(2 :: rat) powi (- 1075) \<le> 2 powi (- 60)" by (rule powi_mono) simp
  also have "\<dots> = 1 / 2 ^ 60" by (simp add: power_int_def inverse_eq_divide power_one_over)
  finally show "tiny \<le> 1 / 2 ^ 60" by (simp add: tiny_def)
qed

lemma b64_upper: "0 \<le> x \<Longrightarrow> b64 x \<le> x * (1 + eps) + tiny"
  using b64_err [of x] by (simp add: eps_def tiny_def algebra_simps)

lemma b64_lower: "0 \<le> x \<Longrightarrow> x * (1 - eps) - tiny \<le> b64 x"
  using b64_err [of x] by (simp add: eps_def tiny_def algebra_simps)

lemma slack_up: "((1 + eps) + 2 * tiny) * (1 + eps) * (1 + eps) \<le> 1 + 1 / 2 ^ 51"
proof -
  have "((1 + eps) + 2 * tiny) * ((1 + eps) * (1 + eps))
      \<le> ((1 + eps) + 2 * (1 / 2 ^ 60)) * ((1 + eps) * (1 + eps))"
    using eps_tiny by (intro mult_right_mono) auto
  also have "\<dots> \<le> 1 + 1 / 2 ^ 51" by (simp add: eps_def)
  finally show ?thesis by (simp add: mult.assoc)
qed

lemma slack_down: "1 - 1 / 2 ^ 51 \<le> ((1 - eps) - 2 * tiny) * (1 - eps) * (1 - eps)"
proof -
  have "1 - 1 / 2 ^ 51 \<le> ((1 - eps) - 2 * (1 / 2 ^ 60)) * ((1 - eps) * (1 - eps))"
    by (simp add: eps_def)
  also have "\<dots> \<le> ((1 - eps) - 2 * tiny) * ((1 - eps) * (1 - eps))"
    using eps_tiny by (intro mult_right_mono) (auto simp: eps_def)
  finally show ?thesis by (simp add: mult.assoc)
qed

lemma b64_add_upper: "0 \<le> x \<Longrightarrow> 0 \<le> y \<Longrightarrow> b64 x + b64 y \<le> (x + y) * (1 + eps) + 2 * tiny"
  using b64_upper [of x] b64_upper [of y] by (simp add: distrib_right)

lemma b64_add_lower: "0 \<le> x \<Longrightarrow> 0 \<le> y \<Longrightarrow> (x + y) * (1 - eps) - 2 * tiny \<le> b64 x + b64 y"
  using b64_lower [of x] b64_lower [of y] by (simp add: distrib_right)

text \<open>
  The rounded combination of two values with rounded weights that sum to one: it can leave
  the interval of the values, by at most a relative \<open>2 ^ - 51\<close> and the subnormal spacing.
\<close>

lemma interpolation_upper:
  assumes v: "0 \<le> v" "v \<le> hi" "0 \<le> w" "w \<le> hi"
    and ab: "0 \<le> a" "0 \<le> b" "a + b = 1"
  shows "b64 (b64 (v * b64 a) + b64 (w * b64 b)) \<le> hi * (1 + 1 / 2 ^ 51) + 4 * tiny"
proof -
  let ?s = "v * b64 a + w * b64 b" and ?t = "b64 (v * b64 a) + b64 (w * b64 b)"
  have e: "0 < eps" "eps \<le> 1 / 2" "0 < tiny" using eps_tiny by (auto simp: eps_def)
  have hi: "0 \<le> hi" and pos: "0 \<le> b64 a" "0 \<le> b64 b"
    using v ab by (auto intro: dbl.rnd_nonneg)
  then have s0: "0 \<le> v * b64 a" "0 \<le> w * b64 b" using v by auto
  then have t0: "0 \<le> ?t" by (intro add_nonneg_nonneg dbl.rnd_nonneg)
  have "?s \<le> hi * b64 a + hi * b64 b" using v pos by (intro add_mono mult_right_mono)
  also have "\<dots> \<le> hi * ((1 + eps) + 2 * tiny)"
    using mult_left_mono [OF b64_add_upper [OF ab(1,2)] hi] by (simp add: ab(3) distrib_left)
  finally have s_up: "?s \<le> hi * ((1 + eps) + 2 * tiny)" .
  have small: "2 * tiny * (1 + eps) + tiny \<le> 4 * tiny"
    using e by (simp add: algebra_simps mult_left_le)
  have "b64 ?t \<le> ?t * (1 + eps) + tiny" using t0 by (rule b64_upper)
  also have "\<dots> \<le> (?s * (1 + eps) + 2 * tiny) * (1 + eps) + tiny"
    using b64_add_upper [OF s0] e by (intro add_right_mono mult_right_mono) auto
  also have "\<dots> = ?s * ((1 + eps) * (1 + eps)) + (2 * tiny * (1 + eps) + tiny)"
    by (simp add: algebra_simps)
  also have "\<dots> \<le> hi * ((1 + eps) + 2 * tiny) * ((1 + eps) * (1 + eps)) + 4 * tiny"
    using s_up small e by (intro add_mono mult_right_mono) auto
  also have "\<dots> \<le> hi * (1 + 1 / 2 ^ 51) + 4 * tiny"
    using mult_left_mono [OF slack_up hi] by (simp only: mult.assoc add_le_cancel_right)
  finally show ?thesis .
qed

lemma interpolation_lower:
  assumes v: "0 \<le> lo" "lo \<le> v" "lo \<le> w"
    and ab: "0 \<le> a" "0 \<le> b" "a + b = 1"
  shows "lo * (1 - 1 / 2 ^ 51) - 4 * tiny \<le> b64 (b64 (v * b64 a) + b64 (w * b64 b))"
proof -
  let ?s = "v * b64 a + w * b64 b" and ?t = "b64 (v * b64 a) + b64 (w * b64 b)"
  have e: "0 < eps" "eps \<le> 1 / 2" "0 < tiny" using eps_tiny by (auto simp: eps_def)
  have pos: "0 \<le> b64 a" "0 \<le> b64 b" using ab by (auto intro: dbl.rnd_nonneg)
  then have s0: "0 \<le> v * b64 a" "0 \<le> w * b64 b" using v by auto
  then have t0: "0 \<le> ?t" by (intro add_nonneg_nonneg dbl.rnd_nonneg)
  have "lo * ((1 - eps) - 2 * tiny) \<le> lo * b64 a + lo * b64 b"
    using mult_left_mono [OF b64_add_lower [OF ab(1,2)] v(1)] by (simp add: ab(3) distrib_left)
  also have "\<dots> \<le> ?s" using v pos by (intro add_mono mult_right_mono)
  finally have s_lo: "lo * ((1 - eps) - 2 * tiny) \<le> ?s" .
  have small: "2 * tiny * (1 - eps) + tiny \<le> 4 * tiny"
    using e by (simp add: algebra_simps mult_left_le)
  have "lo * (1 - 1 / 2 ^ 51) - 4 * tiny
      \<le> lo * ((1 - eps) - 2 * tiny) * ((1 - eps) * (1 - eps)) - 4 * tiny"
    using mult_left_mono [OF slack_down v(1)] by (simp only: mult.assoc diff_right_mono)
  also have "\<dots> \<le> ?s * ((1 - eps) * (1 - eps)) - (2 * tiny * (1 - eps) + tiny)"
    using s_lo small e by (intro diff_mono mult_right_mono) auto
  also have "\<dots> = (?s * (1 - eps) - 2 * tiny) * (1 - eps) - tiny"
    by (simp add: algebra_simps)
  also have "\<dots> \<le> ?t * (1 - eps) - tiny"
    using b64_add_lower [OF s0] e by (intro diff_right_mono mult_right_mono) auto
  also have "\<dots> \<le> b64 ?t" using t0 by (rule b64_lower)
  finally show ?thesis .
qed

text \<open>A sample value that arithmetic reads exactly: any float, an integer of 53 bits.\<close>

definition exact_num :: "pynum \<Rightarrow> bool" where
  "exact_num a \<longleftrightarrow> num_ok a \<and> to_flt a = num_val a"

lemma exact_flt: "rep64 x \<Longrightarrow> exact_num (PFlt x)"
  by (simp add: exact_num_def)

lemma exact_int: "\<bar>i\<bar> \<le> 2 ^ 53 \<Longrightarrow> exact_num (PInt i)"
  by (simp add: exact_num_def b64_int)

lemma percentile_bounds:
  assumes "0 \<le> p" "p \<le> 100" "xs \<noteq> []" "int (length xs) \<le> 2 ^ 53"
    and xs: "\<forall>a\<in>set xs. exact_num a \<and> lo \<le> num_val a \<and> num_val a \<le> hi" and lo: "0 \<le> lo"
  shows "\<exists>r. percentile xs (PInt p) = Inr (Some r) \<and> num_ok r
    \<and> lo * (1 - 1 / 2 ^ 51) - 4 * tiny \<le> num_val r \<and> num_val r \<le> hi * (1 + 1 / 2 ^ 51) + 4 * tiny"
proof -
  have e: "0 < tiny" using eps_tiny by simp
  have slack: "lo * (1 - 1 / 2 ^ 51) - 4 * tiny \<le> num_val a" "num_val a \<le> hi * (1 + 1 / 2 ^ 51) + 4 * tiny"
    if "a \<in> set xs" for a
  proof -
    from xs that have "lo \<le> num_val a" "num_val a \<le> hi" "0 \<le> hi" using lo by fastforce+
    moreover have "lo * (1 - 1 / 2 ^ 51) \<le> lo" "hi \<le> hi * (1 + 1 / 2 ^ 51)"
      using lo \<open>0 \<le> hi\<close> by (simp_all add: mult_left_le algebra_simps)
    ultimately show "lo * (1 - 1 / 2 ^ 51) - 4 * tiny \<le> num_val a"
      "num_val a \<le> hi * (1 + 1 / 2 ^ 51) + 4 * tiny" using e by linarith+
  qed
  show ?thesis
  proof (cases "length xs = 1")
    case True
    then have "xs ! 0 \<in> set xs" by simp
    with True slack xs show ?thesis by (auto simp: percentile_def exact_num_def)
  next
    case False
    with assms(3) have n: "2 \<le> length xs" by (cases xs rule: list.exhaust) (auto simp: Suc_le_eq)
    define k where "k = pct_index (length xs) p"
    have k: "0 \<le> k" "k \<le> of_int (int (length xs) - 1)"
      unfolding k_def using assms n by (intro pct_index_range; simp)+
    from k(2) have "\<lceil>k\<rceil> \<le> int (length xs) - 1" by (simp only: ceiling_le_iff)
    with k(1) n have fc: "nat \<lfloor>k\<rfloor> < length xs" "nat \<lceil>k\<rceil> < length xs"
      using floor_le_ceiling [of k] by linarith+
    let ?v = "xs ! nat \<lfloor>k\<rfloor>" and ?w = "xs ! nat \<lceil>k\<rceil>"
    have mem: "?v \<in> set xs" "?w \<in> set xs" using fc by auto
    note eq = percentile_eq [OF assms(1,2) n assms(4), folded k_def]
    show ?thesis
    proof (cases "\<lfloor>k\<rfloor> = \<lceil>k\<rceil>")
      case True
      with eq mem slack xs show ?thesis by (auto simp: exact_num_def)
    next
      case False
      let ?r = "b64 (b64 (num_val ?v * b64 (of_int \<lceil>k\<rceil> - k)) + b64 (num_val ?w * b64 (k - of_int \<lfloor>k\<rfloor>)))"
      have "to_flt ?v = num_val ?v" "to_flt ?w = num_val ?w"
        using xs mem by (auto simp: exact_num_def)
      then have "percentile xs (PInt p) = Inr (Some (PFlt ?r))"
        using eq False by simp
      moreover have "\<lceil>k\<rceil> = \<lfloor>k\<rfloor> + 1" using False by (simp add: ceiling_altdef split: if_splits)
      then have "of_int \<lceil>k\<rceil> - k + (k - of_int \<lfloor>k\<rfloor>) = 1" "0 \<le> of_int \<lceil>k\<rceil> - k" "0 \<le> k - of_int \<lfloor>k\<rfloor>"
        by simp_all linarith
      then have "?r \<le> hi * (1 + 1 / 2 ^ 51) + 4 * tiny" "lo * (1 - 1 / 2 ^ 51) - 4 * tiny \<le> ?r"
        using xs mem lo by (intro interpolation_upper interpolation_lower; force)+
      ultimately show ?thesis by (simp add: rep64_b64)
    qed
  qed
qed

section \<open>Correctness of compute_stats\<close>

lemma b64_2: "b64 2 = 2"
  using b64_int [of 2] by simp

lemma rep64_num_val: "exact_num a \<Longrightarrow> rep64 (num_val a)"
  using rep64_to_flt [of a] by (simp add: exact_num_def)

lemma midpoint_between:
  assumes "exact_num a" "exact_num b" "num_val a \<le> num_val b"
    and m: "num_div (num_add a b) (PInt 2) = Inr m"
  shows "num_val a \<le> num_val m \<and> num_val m \<le> num_val b"
proof -
  have rep: "rep64 (num_val a)" "rep64 (num_val b)"
    using assms(1,2) by (auto intro: rep64_num_val)
  show ?thesis
  proof (cases "\<exists>i j. a = PInt i \<and> b = PInt j")
    case True
    then obtain i j where ij: "a = PInt i" "b = PInt j" by blast
    then have m: "num_val m = b64 ((num_val a + num_val b) / 2)" using m by auto
    show ?thesis unfolding m using assms(3) rep by (intro conjI dbl.rnd_ge dbl.rnd_le) auto
  next
    case False
    have "num_add a b = PFlt (b64 (num_val a + num_val b))"
      using False assms(1,2) by (cases a; cases b) (auto simp: exact_num_def)
    then have m: "num_val m = b64 (b64 (num_val a + num_val b) / 2)"
      using m by (auto simp: b64_2)
    have "2 * num_val a \<le> b64 (num_val a + num_val b)" "b64 (num_val a + num_val b) \<le> 2 * num_val b"
      using assms(3) rep by (intro dbl.rnd_ge dbl.rnd_le; simp add: rep64_double)+
    then show ?thesis unfolding m using rep by (intro conjI dbl.rnd_ge dbl.rnd_le) auto
  qed
qed

lemma stat_mean_between:
  assumes "xs \<noteq> []" "\<forall>a\<in>set xs. lo \<le> num_val a \<and> num_val a \<le> hi" "rep64 lo" "rep64 hi"
  shows "\<exists>m. stat_mean xs = Inr m \<and> num_ok m \<and> lo \<le> num_val m \<and> num_val m \<le> hi"
proof -
  let ?ys = "map num_val xs"
  let ?m = "num_sum xs / of_nat (length xs)"
  have ys: "?ys \<noteq> []" "\<forall>y\<in>set ?ys. lo \<le> y \<and> y \<le> hi" using assms by auto
  have flt: "lo \<le> b64 ?m" "b64 ?m \<le> hi"
    using dbl.rnd_mean [OF ys assms(3,4)] by (simp_all add: num_sum_def)
  have "0 < (of_nat (length xs) :: rat)" using assms(1) by simp
  then have exact: "lo \<le> ?m" "?m \<le> hi"
    using dbl.sum_list_bounds [OF ys(2)]
    by (simp_all add: num_sum_def pos_le_divide_eq pos_divide_le_eq mult.commute)
  show ?thesis
    using assms(1) flt exact by (auto simp: stat_mean_def Let_def rep64_b64)
qed

lemma stat_median_between:
  assumes "xs \<noteq> []" "\<forall>a\<in>set xs. exact_num a \<and> lo \<le> num_val a \<and> num_val a \<le> hi"
  shows "\<exists>m. stat_median xs = Inr m \<and> lo \<le> num_val m \<and> num_val m \<le> hi"
proof -
  let ?ys = "sort_key num_val xs" and ?n = "length xs"
  have mem: "?ys ! i \<in> set xs" if "i < ?n" for i
    using that nth_mem [of i ?ys] by simp
  show ?thesis
  proof (cases "odd ?n")
    case True
    with assms mem [of "?n div 2"] show ?thesis by (auto simp: stat_median_def Let_def)
  next
    case False
    let ?a = "?ys ! (?n div 2 - 1)" and ?b = "?ys ! (?n div 2)"
    from False assms(1) have n: "0 < ?n div 2" "?n div 2 < ?n" by (cases xs; fastforce)+
    have le: "num_val ?a \<le> num_val ?b"
      using sorted_nth_mono [of "map num_val ?ys" "?n div 2 - 1" "?n div 2"] n by simp
    obtain m where m: "num_div (num_add ?a ?b) (PInt 2) = Inr m"
      using num_div_total [of "PInt 2"] by fastforce
    have "?a \<in> set xs" "?b \<in> set xs" using n by (auto intro: mem)
    then have "num_val ?a \<le> num_val m \<and> num_val m \<le> num_val ?b" "lo \<le> num_val ?a" "num_val ?b \<le> hi"
      using midpoint_between [OF _ _ le m] assms(2) by auto
    then have "lo \<le> num_val m \<and> num_val m \<le> hi" by auto
    with m False assms(1) show ?thesis by (simp add: stat_median_def Let_def)
  qed
qed

text \<open>The summary of a sample, field by field.\<close>

definition stats_sound :: "pynum list \<Rightarrow> stats \<Rightarrow> bool" where
  "stats_sound xs st \<longleftrightarrow>
     st_count st = int (length xs)
   \<and> st_min st \<in> set xs \<and> st_max st \<in> set xs
   \<and> list_all (\<lambda>a. num_val (st_min st) \<le> num_val a \<and> num_val a \<le> num_val (st_max st)) xs
   \<and> num_val (st_min st) \<le> num_val (st_mean st) \<and> num_val (st_mean st) \<le> num_val (st_max st)
   \<and> num_val (st_min st) \<le> num_val (st_median st) \<and> num_val (st_median st) \<le> num_val (st_max st)
   \<and> 0 \<le> num_val (st_stdev st)
   \<and> st_p25 st \<noteq> None \<and> st_p50 st \<noteq> None \<and> st_p95 st \<noteq> None"

lemma percentile_total:
  assumes "0 \<le> p" "p \<le> 100" "xs \<noteq> []" "int (length xs) \<le> 2 ^ 53"
  shows "\<exists>r. percentile xs (PInt p) = Inr (Some r)"
proof (cases "length xs = 1")
  case True
  with assms show ?thesis by (simp add: percentile_def)
next
  case False
  with assms(3) have "2 \<le> length xs" by (cases xs rule: list.exhaust) (auto simp: Suc_le_eq)
  from percentile_eq [OF assms(1,2) this assms(4)] show ?thesis by blast
qed

lemma compute_stats_sound:
  assumes xs: "xs \<noteq> []" and n: "int (length xs) \<le> 2 ^ 53" and ok: "\<forall>a\<in>set xs. exact_num a"
  shows "\<exists>st. compute_stats xs = Inr (Some st) \<and> stats_sound xs st"
proof -
  obtain y ys where y: "xs = y # ys" using xs by (cases xs) auto
  let ?mn = "min_by num_val y ys" and ?mx = "max_by num_val y ys"
  have mem: "?mn \<in> set xs" "?mx \<in> set xs"
    using min_by_mem [of num_val y ys] max_by_mem [of num_val y ys] by (auto simp: y)
  have ext: "\<forall>a\<in>set xs. num_val ?mn \<le> num_val a \<and> num_val a \<le> num_val ?mx"
    using min_by_all [of y ys num_val] max_by_all [of y ys num_val] by (auto simp: y)
  have rep: "rep64 (num_val ?mn)" "rep64 (num_val ?mx)" using mem ok by (auto intro: rep64_num_val)
  obtain m where m: "stat_mean xs = Inr m" "num_val ?mn \<le> num_val m" "num_val m \<le> num_val ?mx"
    using stat_mean_between [OF xs ext rep] by blast
  have "\<forall>a\<in>set xs. exact_num a \<and> num_val ?mn \<le> num_val a \<and> num_val a \<le> num_val ?mx"
    using ok ext by blast
  then obtain md where md: "stat_median xs = Inr md" "num_val ?mn \<le> num_val md" "num_val md \<le> num_val ?mx"
    using stat_median_between [OF xs] by blast
  obtain sd where sd: "(if 1 < length xs then stat_stdev xs else Inr (PFlt 0)) = Inr sd" "0 \<le> num_val sd"
    by (cases "1 < length xs") (auto simp: stat_stdev_def fsqrt_nonneg)
  have srt: "sort_key num_val xs \<noteq> []" "int (length (sort_key num_val xs)) \<le> 2 ^ 53"
    using xs n by simp_all
  obtain p25 p50 p95 where p: "percentile (sort_key num_val xs) (PInt 25) = Inr (Some p25)"
    "percentile (sort_key num_val xs) (PInt 50) = Inr (Some p50)"
    "percentile (sort_key num_val xs) (PInt 95) = Inr (Some p95)"
    using percentile_total [OF _ _ srt] by fastforce
  have mm: "py_min num_val xs = Inr ?mn" "py_max num_val xs = Inr ?mx"
    by (simp_all add: py_min_def py_max_def y)
  show ?thesis
    using xs m md sd p mm mem ext
    by (simp add: compute_stats_def Let_def stats_sound_def list_all_iff)
qed

section \<open>Accuracy of the summary\<close>

text \<open>
  The exact values the fields of a summary stand for: the mean, the sample variance, the
  median and the linear interpolation of the sorted sample at a position.
\<close>

definition exact_mean :: "pynum list \<Rightarrow> rat" where
  "exact_mean xs = sum_list (map num_val xs) / of_nat (length xs)"

definition exact_variance :: "pynum list \<Rightarrow> rat" where
  "exact_variance xs =
     (\<Sum>a\<leftarrow>xs. (num_val a - exact_mean xs) * (num_val a - exact_mean xs)) / of_nat (length xs - 1)"

definition ordered_sample :: "pynum list \<Rightarrow> rat list" where
  "ordered_sample xs = sort (map num_val xs)"

definition exact_median :: "pynum list \<Rightarrow> rat" where
  "exact_median xs = (ordered_sample xs ! ((length xs - 1) div 2) + ordered_sample xs ! (length xs div 2)) / 2"

definition interpolate :: "rat list \<Rightarrow> rat \<Rightarrow> rat" where
  "interpolate ys k =
     ys ! nat \<lfloor>k\<rfloor> + (k - of_int \<lfloor>k\<rfloor>) * (ys ! nat \<lceil>k\<rceil> - ys ! nat \<lfloor>k\<rfloor>)"

text \<open>
  A computed root is faithful when no representable value lies strictly between it and the
  exact one; a computed percentile is the interpolation at a position next to the exact one.
\<close>

definition faithful_root :: "rat \<Rightarrow> rat \<Rightarrow> bool" where
  "faithful_root x r \<longleftrightarrow>
     (\<forall>z. rep64 z \<and> 0 \<le> z \<longrightarrow> (z * z \<le> x \<longrightarrow> z \<le> r) \<and> (x \<le> z * z \<longrightarrow> r \<le> z))"

definition near_percentile :: "pynum list \<Rightarrow> rat \<Rightarrow> rat \<Rightarrow> rat \<Rightarrow> bool" where
  "near_percentile xs B p r \<longleftrightarrow>
     (\<exists>k. 0 \<le> k \<and> k \<le> of_nat (length xs - 1)
        \<and> \<bar>k - of_nat (length xs - 1) * p / 100\<bar> \<le> of_nat (length xs - 1) / 2 ^ 51
        \<and> \<bar>r - interpolate (ordered_sample xs) k\<bar> \<le> B / 2 ^ 50 + 4 * tiny)"

lemma ordered_sample_eq: "map num_val (sort_key num_val xs) = ordered_sample xs"
  unfolding ordered_sample_def by (rule properties_for_sort [symmetric]) simp_all

lemma sum_squares_shift:
  fixes c :: rat
  shows "(\<Sum>a\<leftarrow>xs. (num_val a - c) * (num_val a - c)) =
    (\<Sum>a\<leftarrow>xs. num_val a * num_val a) - 2 * c * num_sum xs + of_nat (length xs) * (c * c)"
  by (induction xs) (simp_all add: num_sum_def algebra_simps)

lemma stat_ss_variance:
  assumes "xs \<noteq> []"
  shows "stat_ss xs / of_nat (length xs - 1) = exact_variance xs"
proof -
  have n: "(of_nat (length xs) :: rat) \<noteq> 0" using assms by simp
  have m: "num_sum xs = of_nat (length xs) * exact_mean xs"
    using n by (simp add: num_sum_def exact_mean_def)
  have "stat_ss xs = (\<Sum>a\<leftarrow>xs. num_val a * num_val a) - of_nat (length xs) * (exact_mean xs * exact_mean xs)"
    using n by (simp add: stat_ss_def Let_def m field_simps)
  also have "\<dots> = (\<Sum>a\<leftarrow>xs. (num_val a - exact_mean xs) * (num_val a - exact_mean xs))"
    unfolding sum_squares_shift m by (simp add: algebra_simps)
  finally show ?thesis by (simp add: exact_variance_def)
qed

lemma exact_variance_nonneg: "0 \<le> exact_variance xs"
  unfolding exact_variance_def by (intro divide_nonneg_nonneg sum_list_nonneg) auto

lemma stdev_faithful:
  assumes "xs \<noteq> []" "(if 1 < length xs then stat_stdev xs else Inr (PFlt 0)) = Inr sd"
  shows "faithful_root (exact_variance xs) (num_val sd)"
proof (cases "1 < length xs")
  case True
  then have "sd = PFlt (fsqrt (exact_variance xs))"
    using assms(2) unfolding stat_stdev_def stat_ss_variance [OF assms(1)] by auto
  then show ?thesis
    using fsqrt_faithful [OF exact_variance_nonneg [of xs]] by (simp add: faithful_root_def)
next
  case False
  then have "length xs = 1" using assms(1) by (cases xs) auto
  then have "exact_variance xs = 0" "sd = PFlt 0" using assms(2) by (auto simp: exact_variance_def)
  then show ?thesis by (auto simp: faithful_root_def mult_le_0_iff)
qed

lemma mean_accurate:
  assumes "stat_mean xs = Inr m"
  shows "\<bar>num_val m - exact_mean xs\<bar> \<le> \<bar>exact_mean xs\<bar> / 2 ^ 53 + tiny"
proof -
  have t: "0 < tiny" using eps_tiny by simp
  have "num_val m = exact_mean xs \<or> num_val m = b64 (exact_mean xs)"
    using assms by (auto simp: stat_mean_def Let_def num_sum_def exact_mean_def split: if_splits)
  then show ?thesis using b64_err [of "exact_mean xs"] t by (auto simp: tiny_def)
qed

text \<open>Errors add up.\<close>

lemma b64_error: "\<bar>b64 x - x\<bar> \<le> \<bar>x\<bar> * eps + tiny"
  using b64_err [of x] by (simp add: eps_def tiny_def)

lemma error_trans: "\<bar>x - y\<bar> \<le> d \<Longrightarrow> \<bar>y - z\<bar> \<le> e \<Longrightarrow> \<bar>x - z\<bar> \<le> d + (e :: rat)"
  by linarith

lemma error_add: "\<bar>x - y\<bar> \<le> d \<Longrightarrow> \<bar>x' - y'\<bar> \<le> e \<Longrightarrow> \<bar>(x + x') - (y + y')\<bar> \<le> d + (e :: rat)"
  by linarith

lemma error_abs: "\<bar>x - y\<bar> \<le> d \<Longrightarrow> \<bar>y\<bar> \<le> b \<Longrightarrow> \<bar>x\<bar> \<le> b + (d :: rat)"
  by linarith

lemma midpoint_accurate:
  assumes ok: "exact_num a" "exact_num b" and B: "\<bar>num_val a\<bar> \<le> B" "\<bar>num_val b\<bar> \<le> B"
    and m: "num_div (num_add a b) (PInt 2) = Inr m"
  shows "\<bar>num_val m - (num_val a + num_val b) / 2\<bar> \<le> B / 2 ^ 51 + 4 * tiny"
proof -
  let ?s = "num_val a + num_val b"
  have t: "0 < tiny" using eps_tiny by simp
  have s: "\<bar>?s\<bar> \<le> 2 * B" "0 \<le> B" using B by linarith+
  show ?thesis
  proof (cases "\<exists>i j. a = PInt i \<and> b = PInt j")
    case True
    then have "num_val m = b64 (?s / 2)" using m by auto
    then have "\<bar>num_val m - ?s / 2\<bar> \<le> \<bar>?s / 2\<bar> / 2 ^ 53 + tiny"
      using b64_err [of "?s / 2"] by (simp add: tiny_def)
    with s t show ?thesis by (simp add: abs_divide)
  next
    case False
    have "num_add a b = PFlt (b64 ?s)"
      using False ok by (cases a; cases b) (auto simp: exact_num_def)
    then have mv: "num_val m = b64 (b64 ?s / 2)" using m by (auto simp: b64_2)
    have "\<bar>b64 ?s - ?s\<bar> \<le> \<bar>?s\<bar> / 2 ^ 53 + tiny" using b64_err [of ?s] by (simp add: tiny_def)
    then have one: "\<bar>b64 ?s - ?s\<bar> \<le> 2 * B / 2 ^ 53 + tiny" using s(1) by (simp add: divide_right_mono)
    then have "\<bar>b64 ?s\<bar> \<le> 2 * B + (2 * B / 2 ^ 53 + tiny)" using s(1) by (rule error_abs)
    then have "\<bar>b64 ?s / 2\<bar> / 2 ^ 53 \<le> 4 * B / 2 ^ 54 + tiny" using s(2) t by simp
    moreover have "\<bar>b64 (b64 ?s / 2) - b64 ?s / 2\<bar> \<le> \<bar>b64 ?s / 2\<bar> / 2 ^ 53 + tiny"
      using b64_err [of "b64 ?s / 2"] by (simp add: tiny_def)
    ultimately have two: "\<bar>b64 (b64 ?s / 2) - b64 ?s / 2\<bar> \<le> 4 * B / 2 ^ 54 + 2 * tiny" by linarith
    have "\<bar>b64 ?s / 2 - ?s / 2\<bar> \<le> B / 2 ^ 53 + tiny" using one t by (simp add: abs_le_iff field_simps)
    from error_trans [OF two this] s(2) t show ?thesis unfolding mv by simp
  qed
qed

lemma median_accurate:
  assumes ok: "\<forall>a\<in>set xs. exact_num a \<and> \<bar>num_val a\<bar> \<le> B" and m: "stat_median xs = Inr m"
  shows "\<bar>num_val m - exact_median xs\<bar> \<le> B / 2 ^ 51 + 4 * tiny"
proof -
  let ?ys = "sort_key num_val xs" and ?n = "length xs"
  have n: "0 < ?n" using m by (cases xs) (auto simp: stat_median_def)
  have nth: "ordered_sample xs ! i = num_val (?ys ! i)" if "i < ?n" for i
    using that by (simp flip: ordered_sample_eq)
  have mem: "?ys ! i \<in> set xs" if "i < ?n" for i
    using that nth_mem [of i ?ys] by simp
  have B: "0 \<le> B" using ok mem [OF n] by force
  show ?thesis
  proof (cases "odd ?n")
    case True
    then have "(?n - 1) div 2 = ?n div 2" by presburger
    moreover have "m = ?ys ! (?n div 2)" using True m n unfolding stat_median_def Let_def length_sort by auto
    ultimately have "num_val m = exact_median xs" using n by (simp add: exact_median_def nth)
    then show ?thesis using B eps_tiny by simp
  next
    case False
    then have i: "(?n - 1) div 2 = ?n div 2 - 1" "?n div 2 - 1 < ?n" "?n div 2 < ?n" using n by presburger+
    have "num_div (num_add (?ys ! (?n div 2 - 1)) (?ys ! (?n div 2))) (PInt 2) = Inr m"
      using False m n by (simp add: stat_median_def Let_def)
    then show ?thesis
      using midpoint_accurate [of "?ys ! (?n div 2 - 1)" "?ys ! (?n div 2)" B m] ok mem i nth
      by (simp add: exact_median_def)
  qed
qed

text \<open>The error of a rounded combination.\<close>

lemma product_error:
  assumes "\<bar>v\<bar> \<le> B" "0 \<le> a" "a \<le> 1"
  shows "\<bar>b64 (v * b64 a) - v * a\<bar> \<le> B * (2 * eps + tiny) + tiny"
proof -
  have e: "0 < eps" "0 < tiny" and B: "0 \<le> B" using eps_tiny assms(1) by auto
  have a': "0 \<le> b64 a" "b64 a \<le> 1"
    using assms dbl.rep_int [of 1] by (auto intro: dbl.rnd_nonneg dbl.rnd_le)
  have "\<bar>b64 a - a\<bar> \<le> a * eps + tiny" using b64_err [of a] assms(2) by (simp add: eps_def tiny_def)
  also have "\<dots> \<le> eps + tiny" using assms(3) e by (simp add: mult_left_le_one_le assms(2))
  finally have err: "\<bar>b64 a - a\<bar> \<le> eps + tiny" .
  have "\<bar>v * b64 a - v * a\<bar> = \<bar>v\<bar> * \<bar>b64 a - a\<bar>" by (simp flip: abs_mult right_diff_distrib)
  also have "\<dots> \<le> B * (eps + tiny)" using assms(1) err B by (intro mult_mono) auto
  finally have one: "\<bar>v * b64 a - v * a\<bar> \<le> B * (eps + tiny)" .
  have "\<bar>v * b64 a\<bar> \<le> B * 1" unfolding abs_mult using assms(1) a' B by (intro mult_mono) auto
  then have "\<bar>v * b64 a\<bar> * eps \<le> B * eps" using e by (intro mult_right_mono) auto
  moreover have "\<bar>b64 (v * b64 a) - v * b64 a\<bar> \<le> \<bar>v * b64 a\<bar> * eps + tiny"
    using b64_err [of "v * b64 a"] by (simp add: eps_def tiny_def)
  ultimately have "\<bar>b64 (v * b64 a) - v * b64 a\<bar> \<le> B * eps + tiny" by linarith
  from error_trans [OF this one] show ?thesis by (simp add: algebra_simps)
qed

lemma interpolation_error:
  assumes "\<bar>v\<bar> \<le> B" "\<bar>w\<bar> \<le> B" "0 \<le> a" "0 \<le> b" "a + b = 1"
  shows "\<bar>b64 (b64 (v * b64 a) + b64 (w * b64 b)) - (v * a + w * b)\<bar> \<le> B / 2 ^ 50 + 4 * tiny"
proof -
  let ?t = "b64 (v * b64 a) + b64 (w * b64 b)" and ?s = "v * a + w * b" and ?d = "2 * (B * (2 * eps + tiny) + tiny)"
  have e: "0 < eps" "0 < tiny" "tiny \<le> eps / 100" "eps \<le> 1 / 100" and B: "0 \<le> B"
    using eps_tiny assms(1) by (auto simp: eps_def)
  have ts: "\<bar>?t - ?s\<bar> \<le> ?d"
  proof -
    have "\<bar>b64 (v * b64 a) - v * a\<bar> \<le> B * (2 * eps + tiny) + tiny"
      by (rule product_error) (use assms in linarith)+
    moreover have "\<bar>b64 (w * b64 b) - w * b\<bar> \<le> B * (2 * eps + tiny) + tiny"
      by (rule product_error) (use assms in linarith)+
    ultimately show ?thesis using error_add by fastforce
  qed
  have "\<bar>?s\<bar> \<le> B * a + B * b"
    using abs_triangle_ineq [of "v * a" "w * b"] assms
    by (simp add: abs_mult) (meson add_mono mult_right_mono order_trans)
  then have "\<bar>?s\<bar> \<le> B" using assms(5) by (simp flip: distrib_left)
  then have "\<bar>?t\<bar> \<le> B + ?d" using ts by linarith
  then have "\<bar>?t\<bar> * eps \<le> (B + ?d) * eps" using e by (intro mult_right_mono) auto
  then have bt: "\<bar>b64 ?t - ?t\<bar> \<le> (B + ?d) * eps + tiny"
    using b64_error [of ?t] by linarith
  have "?d + (B + ?d) * eps + tiny = B * (4 * eps + 2 * tiny + eps + 4 * eps * eps + 2 * tiny * eps) + (3 + 2 * eps) * tiny"
    by (simp add: algebra_simps)
  also have "\<dots> \<le> B * (8 * eps) + 4 * tiny"
  proof (intro add_mono mult_left_mono mult_right_mono)
    have "4 * eps * eps \<le> 4 * eps * (1 / 100)" by (rule mult_left_mono) (use e in auto)
    moreover have "2 * tiny * eps \<le> 2 * tiny * 1" by (rule mult_left_mono) (use e in auto)
    ultimately show "4 * eps + 2 * tiny + eps + 4 * eps * eps + 2 * tiny * eps \<le> 8 * eps"
      using e by linarith
  qed (use e B in auto)
  finally have "?d + (B + ?d) * eps + tiny \<le> B / 2 ^ 50 + 4 * tiny" by (simp add: eps_def)
  then show ?thesis using ts bt by linarith
qed

lemma pct_index_error:
  assumes "0 \<le> p" "p \<le> 100" "2 \<le> n" "int n \<le> 2 ^ 53"
  shows "\<bar>pct_index n p - of_nat (n - 1) * of_int p / 100\<bar> \<le> of_nat (n - 1) / 2 ^ 51"
proof -
  let ?m = "of_nat (n - 1) :: rat" and ?q = "b64 (of_int p / 100)"
  have m: "1 \<le> ?m" "of_int (int n - 1) = ?m" using assms(3) by (simp_all add: of_nat_diff)
  have e: "0 < eps" "0 < tiny" "tiny \<le> eps / 100" using eps_tiny by (auto simp: eps_def)
  have q: "0 \<le> ?q" "?q \<le> 1" using percent_fraction(2,3) [OF assms(1,2)] by auto
  have "\<bar>?q - of_int p / 100\<bar> \<le> of_int p / 100 * eps + tiny"
    using b64_err [of "of_int p / 100"] assms(1) by (simp add: eps_def tiny_def)
  also have "\<dots> \<le> 1 * eps + tiny" using assms(2) e by (intro add_right_mono mult_right_mono) auto
  finally have "\<bar>?q - of_int p / 100\<bar> \<le> eps + tiny" by simp
  then have "?m * \<bar>?q - of_int p / 100\<bar> \<le> ?m * (eps + tiny)" using m by (intro mult_left_mono) auto
  moreover have "?m * \<bar>?q - of_int p / 100\<bar> = \<bar>?m * (?q - of_int p / 100)\<bar>"
    unfolding abs_mult using m(1) by simp
  then have "?m * \<bar>?q - of_int p / 100\<bar> = \<bar>?m * ?q - ?m * of_int p / 100\<bar>"
    by (simp only: right_diff_distrib times_divide_eq_right)
  ultimately have one: "\<bar>?m * ?q - ?m * of_int p / 100\<bar> \<le> ?m * (eps + tiny)" by simp
  have "0 \<le> ?m * ?q" "?m * ?q \<le> ?m" using m(1) q by (auto intro: mult_left_le)
  then have "\<bar>?m * ?q\<bar> * eps \<le> ?m * eps" using e by (intro mult_right_mono) auto
  moreover have "\<bar>b64 (?m * ?q) - ?m * ?q\<bar> \<le> \<bar>?m * ?q\<bar> * eps + tiny"
    using b64_err [of "?m * ?q"] by (simp add: eps_def tiny_def)
  ultimately have "\<bar>pct_index n p - ?m * ?q\<bar> \<le> ?m * eps + tiny"
    unfolding pct_index_def m(2) by linarith
  from error_trans [OF this one]
  have "\<bar>pct_index n p - ?m * of_int p / 100\<bar> \<le> ?m * (2 * eps + tiny) + tiny" by (simp add: algebra_simps)
  also have "\<dots> \<le> ?m * (2 * eps + tiny) + ?m * tiny" using m(1) e by simp
  also have "\<dots> = ?m * (2 * eps + 2 * tiny)" by (simp add: algebra_simps)
  also have "\<dots> \<le> ?m * (4 * eps)" using m(1) e by (intro mult_left_mono) auto
  finally show ?thesis by (simp add: eps_def)
qed

lemma percentile_near:
  assumes p: "0 \<le> p" "p \<le> 100" and xs: "xs \<noteq> []" "int (length xs) \<le> 2 ^ 53"
    and ok: "\<forall>a\<in>set xs. exact_num a \<and> \<bar>num_val a\<bar> \<le> B"
    and r: "percentile (sort_key num_val xs) (PInt p) = Inr (Some r)"
  shows "near_percentile xs B (of_int p) (num_val r)"
proof -
  let ?s = "sort_key num_val xs" and ?n = "length xs"
  have nth: "ordered_sample xs ! i = num_val (?s ! i)" if "i < ?n" for i
    using that by (simp flip: ordered_sample_eq)
  have mem: "?s ! i \<in> set xs" if "i < ?n" for i
    using that nth_mem [of i ?s] by simp
  have B: "0 \<le> B" using ok xs(1) by (cases xs) force+
  show ?thesis
  proof (cases "?n = 1")
    case True
    then have "r = ?s ! 0" using r xs(1) unfolding percentile_def length_sort by auto
    then show ?thesis
      using True B eps_tiny nth [of 0] unfolding near_percentile_def
      by (intro exI [of _ 0]) (simp add: interpolate_def)
  next
    case False
    with xs(1) have n: "2 \<le> ?n" by (cases xs rule: list.exhaust) (auto simp: Suc_le_eq)
    define k where "k = pct_index ?n p"
    have k: "0 \<le> k" "k \<le> of_int (int ?n - 1)"
      unfolding k_def using p xs(2) n by (intro pct_index_range; simp)+
    from k(2) have "\<lceil>k\<rceil> \<le> int ?n - 1" by (simp only: ceiling_le_iff)
    with k(1) n have fc: "nat \<lfloor>k\<rfloor> < ?n" "nat \<lceil>k\<rceil> < ?n"
      using floor_le_ceiling [of k] by linarith+
    let ?v = "?s ! nat \<lfloor>k\<rfloor>" and ?w = "?s ! nat \<lceil>k\<rceil>"
    have val: "to_flt ?v = num_val ?v" "to_flt ?w = num_val ?w" "\<bar>num_val ?v\<bar> \<le> B" "\<bar>num_val ?w\<bar> \<le> B"
      using ok mem fc by (auto simp: exact_num_def)
    have rk: "r = (if \<lfloor>k\<rfloor> = \<lceil>k\<rceil> then ?v else num_add (num_mul ?v (PFlt (b64 (of_int \<lceil>k\<rceil> - k))))
        (num_mul ?w (PFlt (b64 (k - of_int \<lfloor>k\<rfloor>)))))"
      using percentile_eq [of p ?s] p n xs(2) r by (simp add: k_def)
    have "\<bar>num_val r - interpolate (ordered_sample xs) k\<bar> \<le> B / 2 ^ 50 + 4 * tiny"
    proof (cases "\<lfloor>k\<rfloor> = \<lceil>k\<rceil>")
      case True
      then have "interpolate (ordered_sample xs) k = num_val r" using rk fc by (simp add: interpolate_def nth)
      then show ?thesis using B eps_tiny by simp
    next
      case False
      let ?a = "of_int \<lceil>k\<rceil> - k" and ?b = "k - of_int \<lfloor>k\<rfloor>"
      have c: "\<lceil>k\<rceil> = \<lfloor>k\<rfloor> + 1" using False by (simp add: ceiling_altdef split: if_splits)
      then have ab: "?a + ?b = 1" "0 \<le> ?a" "0 \<le> ?b" by simp_all linarith
      have "num_val r = b64 (b64 (num_val ?v * b64 ?a) + b64 (num_val ?w * b64 ?b))"
        using rk False val by simp
      moreover have "interpolate (ordered_sample xs) k = num_val ?v * ?a + num_val ?w * ?b"
        using fc c by (simp add: interpolate_def nth algebra_simps)
      ultimately show ?thesis using interpolation_error [OF val(3,4) ab(2,3,1)] by simp
    qed
    moreover have "\<bar>k - of_nat (?n - 1) * of_int p / 100\<bar> \<le> of_nat (?n - 1) / 2 ^ 51"
      unfolding k_def by (rule pct_index_error [OF p n xs(2)])
    moreover have "k \<le> of_nat (?n - 1)" using k(2) n by (simp add: of_nat_diff)
    ultimately show ?thesis unfolding near_percentile_def using k(1) by blast
  qed
qed

text \<open>The largest magnitude in the sample, to which the error bounds are relative.\<close>

definition stats_scale :: "stats \<Rightarrow> rat" where
  "stats_scale st = max \<bar>num_val (st_min st)\<bar> \<bar>num_val (st_max st)\<bar>"

lemma compute_stats_parts:
  assumes "xs \<noteq> []" "compute_stats xs = Inr (Some st)"
  shows "stat_mean xs = Inr (st_mean st)" "stat_median xs = Inr (st_median st)"
    "(if 1 < length xs then stat_stdev xs else Inr (PFlt 0)) = Inr (st_stdev st)"
    "percentile (sort_key num_val xs) (PInt 25) = Inr (st_p25 st)"
    "percentile (sort_key num_val xs) (PInt 50) = Inr (st_p50 st)"
    "percentile (sort_key num_val xs) (PInt 95) = Inr (st_p95 st)"
  using assms unfolding compute_stats_def Let_def by (auto simp: res_bind_eq_Inr)

lemma compute_stats_accurate:
  assumes xs: "xs \<noteq> []" and n: "int (length xs) \<le> 2 ^ 53" and ok: "\<forall>a\<in>set xs. exact_num a"
    and st: "compute_stats xs = Inr (Some st)" "stats_sound xs st"
  shows "\<bar>num_val (st_mean st) - exact_mean xs\<bar> \<le> \<bar>exact_mean xs\<bar> / 2 ^ 53 + tiny"
    "\<bar>num_val (st_median st) - exact_median xs\<bar> \<le> stats_scale st / 2 ^ 51 + 4 * tiny"
    "faithful_root (exact_variance xs) (num_val (st_stdev st))"
    "st_p25 st = Some p25 \<Longrightarrow> near_percentile xs (stats_scale st) 25 (num_val p25)"
    "st_p50 st = Some p50 \<Longrightarrow> near_percentile xs (stats_scale st) 50 (num_val p50)"
    "st_p95 st = Some p95 \<Longrightarrow> near_percentile xs (stats_scale st) 95 (num_val p95)"
proof -
  note parts = compute_stats_parts [OF xs st(1)]
  have ok': "\<forall>a\<in>set xs. exact_num a \<and> \<bar>num_val a\<bar> \<le> stats_scale st"
    using ok st(2) by (fastforce simp: stats_sound_def stats_scale_def list_all_iff)
  show "\<bar>num_val (st_mean st) - exact_mean xs\<bar> \<le> \<bar>exact_mean xs\<bar> / 2 ^ 53 + tiny"
    by (rule mean_accurate [OF parts(1)])
  show "\<bar>num_val (st_median st) - exact_median xs\<bar> \<le> stats_scale st / 2 ^ 51 + 4 * tiny"
    by (rule median_accurate [OF ok' parts(2)])
  show "faithful_root (exact_variance xs) (num_val (st_stdev st))"
    by (rule stdev_faithful [OF xs parts(3)])
  show "st_p25 st = Some p25 \<Longrightarrow> near_percentile xs (stats_scale st) 25 (num_val p25)"
    using percentile_near [OF _ _ xs n ok', of 25] parts(4) by simp
  show "st_p50 st = Some p50 \<Longrightarrow> near_percentile xs (stats_scale st) 50 (num_val p50)"
    using percentile_near [OF _ _ xs n ok', of 50] parts(5) by simp
  show "st_p95 st = Some p95 \<Longrightarrow> near_percentile xs (stats_scale st) 95 (num_val p95)"
    using percentile_near [OF _ _ xs n ok', of 95] parts(6) by simp
qed

text \<open>The three percentiles of a campaign cell: 25 repetitions (\<open>MACRO_REPETITIONS\<close>).\<close>

lemma pct_index_campaign:
  "pct_index 25 25 = 6" "pct_index 25 50 = 12"
  "pct_index 25 95 = 1604407367250739 / 70368744177664"
  by code_simp+

lemma num_sum_replicate: "num_sum (replicate n a) = of_nat n * num_val a"
  by (induction n) (simp_all add: num_sum_def algebra_simps)

lemma stat_ss_replicate: "stat_ss (replicate n a) = 0"
proof -
  have "sum_list (map (\<lambda>a. num_val a * num_val a) (replicate n a)) = of_nat n * (num_val a * num_val a)"
    by (induction n) (simp_all add: algebra_simps)
  then show ?thesis by (simp add: stat_ss_def num_sum_replicate Let_def)
qed

text \<open>The whole summary of 25 equal runs.\<close>

definition p95_constant :: "rat \<Rightarrow> rat" where
  "p95_constant x =
     (let k = 1604407367250739 / 70368744177664
      in b64 (b64 (x * b64 (23 - k)) + b64 (x * b64 (k - 22))))"

lemma replicate_25: "replicate 25 a = a # replicate 24 a"
  by (simp flip: replicate_Suc)

lemma extremes_replicate:
  "min_by num_val a (replicate n a) = a" "max_by num_val a (replicate n a) = a"
  by (induction n) simp_all

lemma pct_index_95_bounds:
  "\<lfloor>1604407367250739 / 70368744177664 :: rat\<rfloor> = 22"
  "\<lceil>1604407367250739 / 70368744177664 :: rat\<rceil> = 23"
  by code_simp+

lemma percentile_replicate:
  "percentile (replicate 25 (PFlt x)) (PInt 25) = Inr (Some (PFlt x))"
  "percentile (replicate 25 (PFlt x)) (PInt 50) = Inr (Some (PFlt x))"
  "percentile (replicate 25 (PFlt x)) (PInt 95) = Inr (Some (PFlt (p95_constant x)))"
proof -
  let ?xs = "replicate 25 (PFlt x)"
  have n: "length ?xs = 25" and nths: "?xs ! 6 = PFlt x" "?xs ! 12 = PFlt x" "?xs ! 22 = PFlt x" "?xs ! 23 = PFlt x"
    by (simp_all only: length_replicate nth_replicate)
  note eq = percentile_eq [of _ ?xs, unfolded n]
  show "percentile ?xs (PInt 25) = Inr (Some (PFlt x))"
    by (subst eq) (simp_all add: pct_index_campaign nths)
  show "percentile ?xs (PInt 50) = Inr (Some (PFlt x))"
    by (subst eq) (simp_all add: pct_index_campaign nths)
  show "percentile ?xs (PInt 95) = Inr (Some (PFlt (p95_constant x)))"
    by (subst eq) (simp_all add: pct_index_campaign pct_index_95_bounds nths p95_constant_def Let_def)
qed

lemma compute_stats_replicate:
  assumes "rep64 x"
  shows "compute_stats (replicate 25 (PFlt x)) = Inr (Some \<lparr>st_count = 25, st_mean = PFlt x,
    st_median = PFlt x, st_stdev = PFlt 0, st_min = PFlt x, st_max = PFlt x,
    st_p25 = Some (PFlt x), st_p50 = Some (PFlt x), st_p95 = Some (PFlt (p95_constant x))\<rparr>)"
proof -
  let ?xs = "replicate 25 (PFlt x)"
  have sorted: "sort_key num_val ?xs = ?xs" by (rule sort_key_id_if_sorted) simp
  have ne: "?xs \<noteq> []" and n: "length ?xs = 25" and nth: "?xs ! 12 = PFlt x"
    by (simp_all only: length_replicate nth_replicate replicate_25) simp_all
  have "stat_median ?xs = Inr (PFlt x)"
    by (simp only: stat_median_def sorted Let_def n) (simp add: nth)
  moreover have "\<not> all_int ?xs" by (simp add: all_int_def replicate_25)
  then have "stat_mean ?xs = Inr (PFlt x)"
    using assms ne by (simp only: stat_mean_def num_sum_replicate n Let_def) (simp add: b64_rep)
  moreover have "py_min num_val ?xs = Inr (PFlt x)" "py_max num_val ?xs = Inr (PFlt x)"
    by (simp_all only: py_min_def py_max_def replicate_25 list.case extremes_replicate)
  moreover have "stat_stdev ?xs = Inr (PFlt 0)"
    by (simp only: stat_stdev_def stat_ss_replicate n) simp
  ultimately show ?thesis
    by (simp only: compute_stats_def Let_def sorted percentile_replicate n ne) simp
qed

section \<open>Properties\<close>

text \<open>
  Claim C1. For every non-empty sample whose values arithmetic reads exactly,
  \<open>compute_stats\<close> raises nothing and returns a summary whose fields have their meaning in
  spite of rounding: the count is the sample size; the minimum and the maximum are elements
  that bound the sample; the mean is within one rounding of the exact mean, the median
  within two of the exact median, and both lie between the extrema; no float lies strictly
  between the deviation and the root of the exact sample variance; each of \<open>p25\<close>, \<open>p50\<close> and
  \<open>p95\<close> is present and is, up to a relative \<open>2 ^ - 50\<close> of the largest magnitude, the linear
  interpolation of the sorted sample at 25, 50 and 95 percent of its index range (the
  position itself being exact up to a relative \<open>2 ^ - 51\<close> of that range).
\<close>

theorem compute_stats_correct:
  assumes "values \<noteq> []" "int (length values) \<le> 2 ^ 53" "\<forall>a\<in>set values. exact_num a"
  shows "\<exists>st p25 p50 p95. compute_stats values = Inr (Some st)
    \<and> st_count st = int (length values)
    \<and> st_min st \<in> set values \<and> st_max st \<in> set values
    \<and> (\<forall>a\<in>set values. num_val (st_min st) \<le> num_val a \<and> num_val a \<le> num_val (st_max st))
    \<and> num_val (st_min st) \<le> num_val (st_mean st) \<and> num_val (st_mean st) \<le> num_val (st_max st)
    \<and> \<bar>num_val (st_mean st) - exact_mean values\<bar> \<le> \<bar>exact_mean values\<bar> / 2 ^ 53 + tiny
    \<and> num_val (st_min st) \<le> num_val (st_median st) \<and> num_val (st_median st) \<le> num_val (st_max st)
    \<and> \<bar>num_val (st_median st) - exact_median values\<bar> \<le> stats_scale st / 2 ^ 51 + 4 * tiny
    \<and> 0 \<le> num_val (st_stdev st) \<and> faithful_root (exact_variance values) (num_val (st_stdev st))
    \<and> st_p25 st = Some p25 \<and> near_percentile values (stats_scale st) 25 (num_val p25)
    \<and> st_p50 st = Some p50 \<and> near_percentile values (stats_scale st) 50 (num_val p50)
    \<and> st_p95 st = Some p95 \<and> near_percentile values (stats_scale st) 95 (num_val p95)"
proof -
  obtain st where st: "compute_stats values = Inr (Some st)" "stats_sound values st"
    using compute_stats_sound [OF assms] by blast
  obtain p25 p50 p95 where p: "st_p25 st = Some p25" "st_p50 st = Some p50" "st_p95 st = Some p95"
    using st(2) by (auto simp: stats_sound_def)
  note acc = compute_stats_accurate [OF assms st]
  show ?thesis
    using st acc(1-3) acc(4) [OF p(1)] acc(5) [OF p(2)] acc(6) [OF p(3)] p
    by (intro exI [of _ st] exI [of _ p25] exI [of _ p50] exI [of _ p95])
      (auto simp: stats_sound_def list_all_iff)
qed

theorem compute_stats_correct_witness:
  "\<exists>st p95. compute_stats [PInt 3, PFlt (1 / 2), PInt 8] = Inr (Some st)
    \<and> st_count st = 3 \<and> num_val (st_mean st) \<le> num_val (st_max st)
    \<and> \<bar>num_val (st_mean st) - 23 / 6\<bar> \<le> 23 / 6 / 2 ^ 53 + tiny
    \<and> \<bar>num_val (st_median st) - 3\<bar> \<le> stats_scale st / 2 ^ 51 + 4 * tiny
    \<and> faithful_root (175 / 12) (num_val (st_stdev st))
    \<and> st_p95 st = Some p95 \<and> near_percentile [PInt 3, PFlt (1 / 2), PInt 8] (stats_scale st) 95 (num_val p95)"
proof -
  let ?xs = "[PInt 3, PFlt (1 / 2), PInt 8]"
  have "exact_num (PFlt (1 / 2))"
    using rep64I [of 1 "- 1"] by (intro exact_flt) (simp add: power_int_def inverse_eq_divide)
  then have ok: "\<forall>a\<in>set ?xs. exact_num a"
    by (simp add: exact_int)
  have exact: "exact_mean ?xs = 23 / 6" "exact_median ?xs = 3" "exact_variance ?xs = 175 / 12" "int (length ?xs) = 3"
    by code_simp+
  have ne: "?xs \<noteq> []" "int (length ?xs) \<le> 2 ^ 53" by simp_all
  obtain st p95 where st: "compute_stats ?xs = Inr (Some st)" "st_count st = 3"
    "num_val (st_mean st) \<le> num_val (st_max st)" "\<bar>num_val (st_mean st) - 23 / 6\<bar> \<le> \<bar>23 / 6\<bar> / 2 ^ 53 + tiny"
    "\<bar>num_val (st_median st) - 3\<bar> \<le> stats_scale st / 2 ^ 51 + 4 * tiny"
    "faithful_root (175 / 12) (num_val (st_stdev st))"
    "st_p95 st = Some p95" "near_percentile ?xs (stats_scale st) 95 (num_val p95)"
    using compute_stats_correct [OF ne ok] unfolding exact by blast
  then show ?thesis by (intro exI [of _ st] exI [of _ p95]) simp
qed

text \<open>
  Claim C19. With the 25 repetitions of a campaign cell the quartile and the median are order
  statistics: \<open>p25\<close> is the 7th smallest value, \<open>p50\<close> the 13th and equal to
  \<open>statistics.median\<close>, with no rounding; \<open>p95\<close> combines the 23rd and the 24th.
\<close>

theorem percentile_campaign:
  assumes "length values = 25"
  shows "percentile (sort_key num_val values) (PInt 25) = Inr (Some (sort_key num_val values ! 6))
    \<and> percentile (sort_key num_val values) (PInt 50) = Inr (Some (sort_key num_val values ! 12))
    \<and> stat_median values = Inr (sort_key num_val values ! 12)
    \<and> (\<exists>a b. percentile (sort_key num_val values) (PInt 95) =
         Inr (Some (num_add (num_mul (sort_key num_val values ! 22) (PFlt a))
                            (num_mul (sort_key num_val values ! 23) (PFlt b)))))"
proof -
  let ?s = "sort_key num_val values"
  have n: "length ?s = 25" using assms by simp
  have "percentile ?s (PInt 25) = Inr (Some (?s ! 6))"
    using percentile_eq [of 25 ?s] n by (simp add: pct_index_campaign)
  moreover have "percentile ?s (PInt 50) = Inr (Some (?s ! 12))"
    using percentile_eq [of 50 ?s] n by (simp add: pct_index_campaign)
  moreover have "stat_median values = Inr (?s ! 12)"
    using n assms by (auto simp: stat_median_def Let_def)
  moreover have "\<exists>a b. percentile ?s (PInt 95) =
      Inr (Some (num_add (num_mul (?s ! 22) (PFlt a)) (num_mul (?s ! 23) (PFlt b))))"
    using percentile_eq [of 95 ?s] n by (simp add: pct_index_campaign pct_index_95_bounds) blast
  ultimately show ?thesis by blast
qed

theorem percentile_campaign_witness:
  "length (map PInt [1..25]) = 25
   \<and> percentile (sort_key num_val (map PInt [1..25])) (PInt 25) = Inr (Some (PInt 7))"
proof -
  have n: "length (map PInt [1..25]) = 25" by simp
  have "sort_key num_val (map PInt [1..25]) ! 6 = PInt 7" by code_simp
  with percentile_campaign [OF n] n show ?thesis by simp
qed

text \<open>
  Claim C18. \<open>percentile\<close> never raises for a percentage between 0 and 100: the computed
  indices stay inside the list, and the result lies between the smallest and the largest
  value up to a relative error of \<open>2 ^ - 51\<close> and the subnormal spacing.
\<close>

theorem percentile_accuracy:
  assumes "0 \<le> p" "p \<le> 100" "xs \<noteq> []" "int (length xs) \<le> 2 ^ 53" "0 \<le> lo"
    and "\<forall>a\<in>set xs. exact_num a \<and> lo \<le> num_val a \<and> num_val a \<le> hi"
  shows "\<exists>r. percentile xs (PInt p) = Inr (Some r)
    \<and> lo * (1 - 1 / 2 ^ 51) - 4 * tiny \<le> num_val r
    \<and> num_val r \<le> hi * (1 + 1 / 2 ^ 51) + 4 * tiny"
  using percentile_bounds [OF assms(1-4,6,5)] by blast

theorem percentile_accuracy_witness:
  "\<exists>r. percentile [PInt 10, PInt 20] (PInt 95) = Inr (Some r)
    \<and> 10 * (1 - 1 / 2 ^ 51) - 4 * tiny \<le> num_val r
    \<and> num_val r \<le> 20 * (1 + 1 / 2 ^ 51) + 4 * tiny"
  by (rule percentile_accuracy) (simp_all add: exact_int)

text \<open>
  The slack of the previous property is needed: for 25 equal runs of 161.9 ms the
  reported 95th percentile is larger than the reported maximum (the two rounded products
  add up to the next float).
\<close>

lemma percentile_exceeds_max:
  "\<exists>st p95. compute_stats (replicate 25 (PFlt (b64 (1619 / 10)))) = Inr (Some st)
     \<and> st_p95 st = Some p95 \<and> num_val (st_max st) < num_val p95"
proof -
  have "b64 (1619 / 10) < p95_constant (b64 (1619 / 10))" by code_simp
  then show ?thesis by (simp only: compute_stats_replicate [OF rep64_b64]) simp
qed

text \<open>
  A constant sample is summarised by its value: mean, median, minimum, maximum,
  quartile and median percentile are that value and the deviation is zero (25 runs).
\<close>

theorem compute_stats_constant:
  assumes "rep64 x"
  shows "\<exists>st. compute_stats (replicate 25 (PFlt x)) = Inr (Some st)
    \<and> st_mean st = PFlt x \<and> st_median st = PFlt x \<and> st_stdev st = PFlt 0
    \<and> st_min st = PFlt x \<and> st_max st = PFlt x
    \<and> st_p25 st = Some (PFlt x) \<and> st_p50 st = Some (PFlt x)"
  by (simp only: compute_stats_replicate [OF assms]) simp

theorem compute_stats_constant_witness:
  "rep64 1 \<and> (\<exists>st. compute_stats (replicate 25 (PFlt 1)) = Inr (Some st) \<and> st_stdev st = PFlt 0)"
proof -
  have "rep64 1" using rep64_int [of 1] by simp
  with compute_stats_constant [OF this] show ?thesis by blast
qed

end
