(* ===== verification/Py_Text.thy ===== *)
theory Py_Text
  imports Py_Value "HOL-Library.List_Lexorder" "HOL-Library.Char_ord"
begin

text \<open>
  Python strings as character lists (the texts of the scripts are ASCII): decimal
  printing and parsing, fixed-point formatting of floats, and the string methods the
  scripts call.
\<close>

section \<open>Decimal integers\<close>

definition digit_char :: "int \<Rightarrow> char" where
  "digit_char d = ''0123456789'' ! nat d"

definition char_digit :: "char \<Rightarrow> int option" where
  "char_digit c = (let n = of_char c :: int in if 48 \<le> n \<and> n \<le> 57 then Some (n - 48) else None)"

lemma digits_cases: "0 \<le> d \<Longrightarrow> d < 10 \<Longrightarrow> d \<in> set [0, 1, 2, 3, 4, 5, 6, 7, 8, 9 :: int]"
  by (simp; presburger)

lemma char_digit_char: "0 \<le> d \<Longrightarrow> d < 10 \<Longrightarrow> char_digit (digit_char d) = Some d"
proof -
  assume "0 \<le> d" "d < 10"
  then have "d \<in> set [0, 1, 2, 3, 4, 5, 6, 7, 8, 9]" by (rule digits_cases)
  moreover have "\<forall>d\<in>set [0, 1, 2, 3, 4, 5, 6, 7, 8, 9]. char_digit (digit_char d) = Some d"
    by code_simp
  ultimately show ?thesis by blast
qed

function show_pos :: "int \<Rightarrow> string" where
  "show_pos n = (if n < 10 then [digit_char n] else show_pos (n div 10) @ [digit_char (n mod 10)])"
  by pat_completeness auto
termination
  by (relation "measure nat") auto

declare show_pos.simps [simp del]

definition show_int :: "int \<Rightarrow> string" where
  "show_int i = (if i < 0 then ''-'' @ show_pos (- i) else show_pos i)"

definition show_nat :: "nat \<Rightarrow> string" where
  "show_nat n = show_pos (int n)"

fun read_digits :: "int \<Rightarrow> string \<Rightarrow> int option" where
  "read_digits acc [] = Some acc"
| "read_digits acc (c # cs) =
     (case char_digit c of None \<Rightarrow> None | Some d \<Rightarrow> read_digits (10 * acc + d) cs)"

lemma read_digits_append:
  "read_digits acc (xs @ ys) = (case read_digits acc xs of None \<Rightarrow> None | Some a \<Rightarrow> read_digits a ys)"
  by (induction xs arbitrary: acc) (auto split: option.splits)

lemma show_pos_nonempty: "show_pos n \<noteq> []"
  by (subst show_pos.simps) simp

lemma read_show_pos: "0 \<le> n \<Longrightarrow> read_digits 0 (show_pos n) = Some n"
proof (induction n rule: show_pos.induct)
  case (1 n)
  show ?case
  proof (cases "n < 10")
    case True
    with 1 show ?thesis by (simp add: show_pos.simps [of n] char_digit_char)
  next
    case False
    then have "read_digits 0 (show_pos (n div 10)) = Some (n div 10)" by (intro 1) auto
    then have "read_digits 0 (show_pos n) = Some (10 * (n div 10) + n mod 10)"
      using False by (subst show_pos.simps) (simp add: read_digits_append char_digit_char)
    then show ?thesis by simp
  qed
qed

lemma show_pos_inj: "0 \<le> m \<Longrightarrow> 0 \<le> n \<Longrightarrow> show_pos m = show_pos n \<Longrightarrow> m = n"
  by (metis option.inject read_show_pos)

lemma show_pos_digits: "0 \<le> n \<Longrightarrow> c \<in> set (show_pos n) \<Longrightarrow> char_digit c \<noteq> None"
proof (induction n rule: show_pos.induct)
  case (1 n)
  then show ?case
    by (cases "n < 10") (auto simp: show_pos.simps [of n] char_digit_char)
qed

lemma show_int_chars: "c \<in> set (show_int i) \<Longrightarrow> c = CHR ''-'' \<or> char_digit c \<noteq> None"
  using show_pos_digits [of i c] show_pos_digits [of "- i" c] by (auto simp: show_int_def split: if_splits)

lemma show_int_no_sep: "CHR ''_'' \<notin> set (show_int i)" "CHR ''.'' \<notin> set (show_int i)"
  "CHR ''/'' \<notin> set (show_int i)"
proof -
  have "char_digit (CHR ''_'') = None" "char_digit (CHR ''.'') = None" "char_digit (CHR ''/'') = None"
    by code_simp+
  then show "CHR ''_'' \<notin> set (show_int i)" "CHR ''.'' \<notin> set (show_int i)" "CHR ''/'' \<notin> set (show_int i)"
    using show_int_chars by fastforce+
qed

lemma show_pos_no_minus: "0 \<le> n \<Longrightarrow> show_pos n \<noteq> CHR ''-'' # cs"
proof
  assume "0 \<le> n" "show_pos n = CHR ''-'' # cs"
  then have "char_digit (CHR ''-'') \<noteq> None" using show_pos_digits [of n "CHR ''-''"] by simp
  moreover have "char_digit (CHR ''-'') = None" by code_simp
  ultimately show False by simp
qed

lemma show_int_inj: "show_int i = show_int j \<longleftrightarrow> i = j"
proof
  assume eq: "show_int i = show_int j"
  show "i = j"
  proof (cases "i < 0"; cases "j < 0")
    assume "i < 0" "j < 0"
    with eq show ?thesis using show_pos_inj [of "- i" "- j"] by (simp add: show_int_def)
  next
    assume "i < 0" "\<not> j < 0"
    with eq show ?thesis using show_pos_no_minus [of j "show_pos (- i)"] by (simp add: show_int_def)
  next
    assume "\<not> i < 0" "j < 0"
    with eq show ?thesis using show_pos_no_minus [of i "show_pos (- j)"] by (simp add: show_int_def)
  next
    assume "\<not> i < 0" "\<not> j < 0"
    with eq show ?thesis using show_pos_inj [of i j] by (simp add: show_int_def)
  qed
qed simp

text \<open>Splitting at the first separator.\<close>

lemma split_field:
  "c \<notin> set xs \<Longrightarrow> c \<notin> set xs' \<Longrightarrow> xs @ c # ys = xs' @ c # ys' \<longleftrightarrow> xs = xs' \<and> ys = ys'"
proof (induction xs arbitrary: xs')
  case Nil
  then show ?case by (cases xs') auto
next
  case (Cons x xs)
  then show ?case by (cases xs') auto
qed

section \<open>String methods\<close>

definition is_space :: "char \<Rightarrow> bool" where
  "is_space c = (let n = of_char c :: nat in (9 \<le> n \<and> n \<le> 13) \<or> (28 \<le> n \<and> n \<le> 32))"

definition py_strip :: "string \<Rightarrow> string" where
  "py_strip s = rev (dropWhile is_space (rev (dropWhile is_space s)))"

text \<open>\<open>int(s)\<close>: surrounding space, an optional sign, digits with single underscores between.\<close>

fun drop_underscores :: "string \<Rightarrow> string option" where
  "drop_underscores [] = None"
| "drop_underscores [c] = (if c = CHR ''_'' then None else Some [c])"
| "drop_underscores (c # d # cs) =
     (if c = CHR ''_'' then None
      else map_option ((#) c) (drop_underscores (if d = CHR ''_'' then cs else d # cs)))"

definition read_nat :: "string \<Rightarrow> int option" where
  "read_nat s = Option.bind (drop_underscores s) (read_digits 0)"

definition py_int_str :: "string \<Rightarrow> int py" where
  "py_int_str s =
     (let t = py_strip s;
          r = (case t of
                 [] \<Rightarrow> None
               | c # cs \<Rightarrow>
                   (if c = CHR ''-'' then map_option uminus (read_nat cs)
                    else if c = CHR ''+'' then read_nat cs
                    else read_nat t))
      in case r of None \<Rightarrow> Inl ValueError | Some i \<Rightarrow> Inr i)"

definition upper_char :: "char \<Rightarrow> char" where
  "upper_char c = (let n = of_char c :: nat in if 97 \<le> n \<and> n \<le> 122 then char_of (n - 32) else c)"

definition lower_char :: "char \<Rightarrow> char" where
  "lower_char c = (let n = of_char c :: nat in if 65 \<le> n \<and> n \<le> 90 then char_of (n + 32) else c)"

definition py_upper :: "string \<Rightarrow> string" where "py_upper s = map upper_char s"
definition py_lower :: "string \<Rightarrow> string" where "py_lower s = map lower_char s"

definition endswith :: "string \<Rightarrow> string \<Rightarrow> bool" where
  "endswith s t = (length t \<le> length s \<and> drop (length s - length t) s = t)"

lemma endswith_append [simp]: "endswith (s @ t) t"
  by (simp add: endswith_def)

lemma endswith_iff: "endswith s t \<longleftrightarrow> (\<exists>u. s = u @ t)"
  unfolding endswith_def
  by (metis append_eq_conv_conj append_take_drop_id diff_add_inverse2 le_add2 length_append)

fun join_str :: "string \<Rightarrow> string list \<Rightarrow> string" where
  "join_str sep [] = []"
| "join_str sep [x] = x"
| "join_str sep (x # y # ys) = x @ sep @ join_str sep (y # ys)"

text \<open>\<open>s.splitlines()\<close>: line feed, carriage return (and the pair), the other ASCII breaks.\<close>

definition is_break :: "char \<Rightarrow> bool" where
  "is_break c = (let n = of_char c :: nat in (10 \<le> n \<and> n \<le> 13) \<or> (28 \<le> n \<and> n \<le> 30))"

fun splitlines_from :: "string \<Rightarrow> string \<Rightarrow> string list" where
  "splitlines_from cur [] = (if cur = [] then [] else [rev cur])"
| "splitlines_from cur (c # cs) =
     (if is_break c then
        (if of_char c = (13 :: nat) \<and> cs \<noteq> [] \<and> of_char (hd cs) = (10 :: nat)
         then rev cur # splitlines_from [] (tl cs)
         else rev cur # splitlines_from [] cs)
      else splitlines_from (c # cur) cs)"

definition splitlines :: "string \<Rightarrow> string list" where
  "splitlines s = splitlines_from [] s"

text \<open>\<open>s.replace(old, new)\<close> for a non-empty pattern, leftmost matches first.\<close>

function py_replace :: "string \<Rightarrow> string \<Rightarrow> string \<Rightarrow> string" where
  "py_replace old new s =
     (if s = [] \<or> old = [] then s
      else if take (length old) s = old then new @ py_replace old new (drop (length old) s)
      else hd s # py_replace old new (tl s))"
  by pat_completeness auto
termination
  by (relation "measure (\<lambda>(old, new, s). length s)") auto

declare py_replace.simps [simp del]

text \<open>\<open>os.path.join(a, b)\<close>, \<open>os.path.basename\<close>, \<open>os.path.dirname\<close> on POSIX paths.\<close>

definition path_join :: "string \<Rightarrow> string \<Rightarrow> string" where
  "path_join a b =
     (if take 1 b = ''/'' then b
      else if a = [] \<or> last a = CHR ''/'' then a @ b else a @ ''/'' @ b)"

definition basename :: "string \<Rightarrow> string" where
  "basename p = rev (takeWhile (\<lambda>c. c \<noteq> CHR ''/'') (rev p))"

lemma basename_join:
  "CHR ''/'' \<notin> set b \<Longrightarrow> basename (path_join a b) = b"
proof -
  assume b: "CHR ''/'' \<notin> set b"
  have tw: "takeWhile (\<lambda>c. c \<noteq> CHR ''/'') (rev b) = rev b"
    using b by (auto simp: takeWhile_eq_all_conv)
  have slash: "basename (u @ ''/'' @ b) = b" for u
    using tw by (simp add: basename_def takeWhile_append)
  have "take 1 b \<noteq> ''/''" using b by (cases b) auto
  then consider "path_join a b = b" | u where "path_join a b = u @ ''/'' @ b"
  proof (cases "a = [] \<or> last a \<noteq> CHR ''/''")
    case True
    with \<open>take 1 b \<noteq> ''/''\<close> have "path_join a b = b \<or> path_join a b = a @ ''/'' @ b"
      by (auto simp: path_join_def)
    with that show ?thesis by blast
  next
    case False
    then have "a = butlast a @ ''/''" by (metis append_butlast_last_id)
    with False \<open>take 1 b \<noteq> ''/''\<close> have "path_join a b = butlast a @ ''/'' @ b"
      by (simp add: path_join_def)
    then show ?thesis by (rule that(2))
  qed
  then show ?thesis
  proof cases
    case 1
    then show ?thesis by (simp only: basename_def tw rev_rev_ident)
  next
    case 2
    then show ?thesis by (simp only: slash)
  qed
qed

lemma path_join_inj:
  "CHR ''/'' \<notin> set b \<Longrightarrow> CHR ''/'' \<notin> set b' \<Longrightarrow> path_join a b = path_join a b' \<longleftrightarrow> b = b'"
  by (metis basename_join)

section \<open>Fixed-point formatting\<close>

text \<open>\<open>f"{v:.{d}f}"\<close> for \<open>d > 0\<close>: the exact binary value, rounded half to even.\<close>

definition pad_left :: "nat \<Rightarrow> string \<Rightarrow> string" where
  "pad_left w s = replicate (w - length s) CHR ''0'' @ s"

definition fmt_fixed :: "nat \<Rightarrow> rat \<Rightarrow> string" where
  "fmt_fixed d v =
     (let n = round_half_even (\<bar>v\<bar> * 10 ^ d)
      in (if v < 0 then ''-'' else []) @ show_pos (n div 10 ^ d)
         @ (if d = 0 then [] else ''.'' @ pad_left d (show_pos (n mod 10 ^ d))))"

definition fmt_num :: "nat \<Rightarrow> pynum \<Rightarrow> string" where
  "fmt_num d a = fmt_fixed d (to_flt a)"

section \<open>Reading floats\<close>

text \<open>
  \<open>float(s)\<close> on a decimal literal: sign, digits, fraction, exponent.  The spellings of
  infinity and NaN are not represented and count as malformed.
\<close>

definition split_at :: "(char \<Rightarrow> bool) \<Rightarrow> string \<Rightarrow> string \<times> string option" where
  "split_at p s =
     (takeWhile (\<lambda>c. \<not> p c) s,
      case dropWhile (\<lambda>c. \<not> p c) s of [] \<Rightarrow> None | _ # r \<Rightarrow> Some r)"

definition read_digits_opt :: "string \<Rightarrow> (int \<times> nat) option" where
  "read_digits_opt s =
     (if s = [] then Some (0, 0)
      else Option.bind (drop_underscores s) (\<lambda>t. map_option (\<lambda>n. (n, length t)) (read_digits 0 t)))"

definition read_exponent :: "string option \<Rightarrow> int option" where
  "read_exponent r =
     (case r of None \<Rightarrow> Some 0
      | Some [] \<Rightarrow> None
      | Some (c # cs) \<Rightarrow>
          (if c = CHR ''-'' then map_option uminus (read_nat cs)
           else if c = CHR ''+'' then read_nat cs
           else read_nat (c # cs)))"

definition read_unsigned :: "string \<Rightarrow> rat option" where
  "read_unsigned s =
     (let (mant, ex) = split_at (\<lambda>c. c = CHR ''e'' \<or> c = CHR ''E'') s;
          (ip, fp) = split_at (\<lambda>c. c = CHR ''.'') mant
      in Option.bind (read_exponent ex) (\<lambda>e.
         Option.bind (read_digits_opt ip) (\<lambda>(i, ni).
         Option.bind (read_digits_opt (case fp of None \<Rightarrow> [] | Some f \<Rightarrow> f)) (\<lambda>(f, nf).
           if ni + nf = 0 then None
           else Some ((of_int i + of_int f / 10 ^ nf) * 10 powi e)))))"

definition py_float_str :: "string \<Rightarrow> rat py" where
  "py_float_str s =
     (let t = py_strip s;
          r = (case t of
                 [] \<Rightarrow> None
               | c # cs \<Rightarrow>
                   (if c = CHR ''-'' then map_option uminus (read_unsigned cs)
                    else if c = CHR ''+'' then read_unsigned cs
                    else read_unsigned t))
      in case r of None \<Rightarrow> Inl ValueError | Some x \<Rightarrow> Inr (b64 x))"

text \<open>\<open>float(v)\<close> and \<open>int(v)\<close> on a dynamically typed value.\<close>

fun val_float :: "pyval \<Rightarrow> rat py" where
  "val_float (VStr s) = py_float_str s"
| "val_float v = (case as_num v of Some a \<Rightarrow> Inr (to_flt a) | None \<Rightarrow> Inl TypeError)"

fun val_int :: "pyval \<Rightarrow> int py" where
  "val_int (VStr s) = py_int_str s"
| "val_int v = (case as_num v of Some a \<Rightarrow> Inr (num_int a) | None \<Rightarrow> Inl TypeError)"

end
