(* ===== verification/Drawing.thy ===== *)
theory Drawing
  imports Py_Text
begin

text \<open>
  What the scripts hand to \<open>matplotlib\<close>: the drawing commands of a plot and the pages of a
  PDF report.  The library itself is not modelled; a plot is the list of its commands and a
  report the list of its pages, with the coordinates, sizes and styles the code passes.
  \<open>add_text_page\<close> is the one layout algorithm of the scripts: it breaks a list of lines into
  pages by a running vertical coordinate.
\<close>

section \<open>Plots\<close>

datatype draw =
    Figure rat rat
  | Scatter "pyval list" "pyval list" string rat rat \<comment> \<open>x, y, label, alpha, size\<close>
  | Line "pyval list" "pyval list" string rat "string option" \<comment> \<open>x, y, label, line width, colour\<close>
  | Xlabel string | Ylabel string | Title string
  | Xticks "pyval list" "string list option"
  | Grid rat | Legend | Tight_layout | Savefig string | Close_figure

section \<open>Pages\<close>

datatype text_style = Bold | Monospace

text \<open>Position, text, font size and style of one \<open>figtext\<close>.\<close>

type_synonym text_item = "rat \<times> rat \<times> string \<times> rat \<times> text_style"

record cell_style =
  cs_bold :: bool
  cs_fontsize :: "rat option"
  cs_ha :: "string option"
  cs_va :: "string option"
  cs_height_factor :: rat
  cs_linewidth :: rat
  cs_wrap :: bool

record table =
  tb_figsize :: "rat \<times> rat"
  tb_title :: string
  tb_title_size :: rat
  tb_columns :: "string list"
  tb_rows :: "string list list"
  tb_fontsize :: rat
  tb_scale_y :: rat
  tb_col_widths :: "rat list"
  tb_header_style :: cell_style
  tb_body_style :: cell_style

datatype page = Text_page "text_item list" | Table_page table | Image_page string string

section \<open>add_text_page\<close>

definition top_y :: rat where "top_y = b64 (97 / 100)"
definition bottom_y :: rat where "bottom_y = b64 (5 / 100)"
definition line_step :: rat where "line_step = b64 (25 / 1000)"
definition left_x :: rat where "left_x = b64 (5 / 100)"

lemma top_y_value [code]: "top_y = 4368491638549381 / 4503599627370496"
  by code_simp

lemma bottom_y_value [code]: "bottom_y = 3602879701896397 / 72057594037927936"
  by code_simp

lemma line_step_value [code]: "line_step = 3602879701896397 / 144115188075855872"
  by code_simp

text \<open>The loop: the vertical coordinate, the items of the open page and the lines to come.\<close>

fun place_lines :: "rat \<Rightarrow> rat \<Rightarrow> text_item list \<Rightarrow> string list \<Rightarrow> page list" where
  "place_lines fontsize y items [] = [Text_page items]"
| "place_lines fontsize y items (line # lines) =
     (let items = items @ [(left_x, y, line, fontsize, Monospace)]; y = b64 (y - line_step)
      in if y < bottom_y then Text_page items # place_lines fontsize top_y [] lines
         else place_lines fontsize y items lines)"

definition add_text_page :: "string \<Rightarrow> string list \<Rightarrow> rat \<Rightarrow> page list" where
  "add_text_page title lines fontsize =
     place_lines fontsize (b64 (top_y - b64 (4 / 100))) [(left_x, top_y, title, 16, Bold)] lines"

fun page_items :: "page \<Rightarrow> text_item list" where
  "page_items (Text_page items) = items"
| "page_items _ = []"

definition item_text :: "text_item \<Rightarrow> string" where
  "item_text i = (case i of (_, _, t, _) \<Rightarrow> t)"

definition item_y :: "text_item \<Rightarrow> rat" where
  "item_y i = (case i of (_, y, _) \<Rightarrow> y)"

lemma place_lines_texts:
  "map item_text (concat (map page_items (place_lines fs y items lines))) = map item_text items @ lines"
  by (induction fs y items lines rule: place_lines.induct) (simp_all add: Let_def item_text_def)

lemma place_lines_inside:
  "bottom_y \<le> y \<Longrightarrow> \<forall>i\<in>set items. bottom_y \<le> item_y i \<Longrightarrow>
   p \<in> set (place_lines fs y items lines) \<Longrightarrow> i \<in> set (page_items p) \<Longrightarrow> bottom_y \<le> item_y i"
proof (induction fs y items lines rule: place_lines.induct)
  case (2 fs y items line lines)
  have top: "bottom_y \<le> top_y" by code_simp
  let ?items = "items @ [(left_x, y, line, fs, Monospace)]" and ?y = "b64 (y - line_step)"
  have items: "\<forall>i\<in>set ?items. bottom_y \<le> item_y i" using 2(3,4) by (auto simp: item_y_def)
  show ?case
  proof (cases "?y < bottom_y")
    case True
    with 2(5,6) items show ?thesis
      using 2(1) [OF refl refl True top] by (auto simp: Let_def)
  next
    case False
    with 2(5) have "p \<in> set (place_lines fs ?y ?items lines)" by (simp add: Let_def)
    from 2(2) [OF refl refl False _ items this 2(6)] False show ?thesis by simp
  qed
qed auto

text \<open>The first page takes 36 lines below the title, every other page 37.\<close>

fun lower :: "nat \<Rightarrow> rat \<Rightarrow> rat" where
  "lower 0 y = y"
| "lower (Suc n) y = lower n (b64 (y - line_step))"

lemma place_lines_fits:
  "\<forall>k\<in>{1..length lines}. bottom_y \<le> lower k y \<Longrightarrow> \<exists>is. place_lines fs y items lines = [Text_page is]"
proof (induction lines arbitrary: y items)
  case (Cons l ls)
  have "bottom_y \<le> lower (Suc k) y" if "k \<le> length ls" for k
    using Cons.prems that by (simp del: lower.simps)
  from this [of 0] this show ?case using Cons.IH by (simp add: Let_def)
qed simp

lemma place_lines_break:
  "length lines = Suc n \<Longrightarrow> \<forall>k\<in>{1..n}. bottom_y \<le> lower k y \<Longrightarrow> lower (Suc n) y < bottom_y \<Longrightarrow>
   \<exists>is. place_lines fs y items (lines @ rest) = Text_page is # place_lines fs top_y [] rest"
proof (induction lines arbitrary: y items n)
  case (Cons l ls)
  show ?case
  proof (cases n)
    case 0
    with Cons.prems show ?thesis by (simp add: Let_def)
  next
    case (Suc m)
    have inside: "bottom_y \<le> lower (Suc k) y" if "k \<le> m" for k
      using Cons.prems(2) that Suc by (simp del: lower.simps)
    from inside [of 0] inside show ?thesis
      using Cons.IH [of m] Cons.prems Suc by (simp add: Let_def)
  qed
qed simp

definition fits :: "nat \<Rightarrow> rat \<Rightarrow> bool" where
  "fits n y \<longleftrightarrow> (\<forall>k\<in>set [1..<n]. bottom_y \<le> lower k y) \<and> lower n y < bottom_y"

text \<open>
  The running coordinate stays within a rounding error per line of the exact one, which is
  far from the margin where the page breaks.
\<close>

lemma b64_unit_err: "0 \<le> x \<Longrightarrow> x \<le> 1 \<Longrightarrow> \<bar>b64 x - x\<bar> \<le> 1 / 2 ^ 52"
proof -
  assume x: "0 \<le> x" "x \<le> 1"
  have "(2 :: rat) powi (- 1075) \<le> 2 powi (- 53)" by (rule powi_mono) simp
  also have "\<dots> = 1 / 2 ^ 53" by (simp add: power_int_def field_simps)
  finally have "\<bar>b64 x - x\<bar> \<le> \<bar>x\<bar> / 2 ^ 53 + 1 / 2 ^ 53"
    using b64_err [of x] by linarith
  also have "\<dots> \<le> 1 / 2 ^ 53 + 1 / 2 ^ 53" using x by (intro add_mono divide_right_mono) auto
  finally show ?thesis by simp
qed

lemma lower_approx:
  "0 \<le> y - of_nat n * (line_step + 1 / 2 ^ 52) \<Longrightarrow> y \<le> 1 \<Longrightarrow>
   \<bar>lower n y - (y - of_nat n * line_step)\<bar> \<le> of_nat n / 2 ^ 52"
proof (induction n arbitrary: y)
  case (Suc n)
  let ?b = "b64 (y - line_step)" and ?e = "1 / 2 ^ 52 :: rat"
  have step: "0 < line_step" "line_step \<le> 1" by (simp_all add: line_step_value)
  have split: "of_nat (Suc n) * (line_step + ?e) = line_step + ?e + of_nat n * (line_step + ?e)"
    by (simp add: algebra_simps)
  have "0 \<le> of_nat n * (line_step + ?e)" using step by simp
  then have "line_step + ?e \<le> y" using Suc.prems(1) unfolding split by linarith
  then have x: "0 \<le> y - line_step" "y - line_step \<le> 1"
    using Suc.prems(2) step by simp_all
  have err: "\<bar>?b - (y - line_step)\<bar> \<le> ?e" by (rule b64_unit_err [OF x])
  have "?b \<le> 1" using dbl.rnd_le [of 1 "y - line_step"] x(2) rep64_int [of 1] by simp
  moreover have "0 \<le> ?b - of_nat n * (line_step + ?e)"
    using err Suc.prems(1) unfolding abs_le_iff split by linarith
  ultimately have "\<bar>lower n ?b - (?b - of_nat n * line_step)\<bar> \<le> of_nat n / 2 ^ 52"
    by (rule Suc.IH [rotated])
  with err have "\<bar>lower n ?b - (y - line_step - of_nat n * line_step)\<bar> \<le> of_nat n / 2 ^ 52 + ?e"
    unfolding abs_le_iff by (simp add: algebra_simps)
  then show ?case by (simp add: algebra_simps add_divide_distrib)
qed simp

lemma fitsI:
  assumes "0 \<le> y - of_nat n * (line_step + 1 / 2 ^ 52)" "y \<le> 1" "0 < n"
    and "bottom_y + of_nat n / 2 ^ 52 \<le> y - of_nat (n - 1) * line_step"
    and "y - of_nat n * line_step + of_nat n / 2 ^ 52 < bottom_y"
  shows "fits n y"
proof -
  have step: "0 < line_step" by (simp add: line_step_value)
  have near: "\<bar>lower k y - (y - of_nat k * line_step)\<bar> \<le> of_nat k / 2 ^ 52" if "k \<le> n" for k
  proof (rule lower_approx [OF _ assms(2)])
    have "of_nat k * (line_step + 1 / 2 ^ 52) \<le> of_nat n * (line_step + 1 / 2 ^ 52)"
      using that step by (intro mult_right_mono) auto
    with assms(1) show "0 \<le> y - of_nat k * (line_step + 1 / 2 ^ 52)" by linarith
  qed
  have "bottom_y \<le> lower k y" if "k < n" for k
  proof -
    have "of_nat k * line_step \<le> of_nat (n - 1) * line_step"
      using that step by (intro mult_right_mono) auto
    moreover have "(of_nat k :: rat) / 2 ^ 52 \<le> of_nat n / 2 ^ 52"
      using that by (intro divide_right_mono) auto
    ultimately show ?thesis using near [of k] that assms(4) unfolding abs_le_iff by linarith
  qed
  moreover have "lower n y < bottom_y"
    using near [of n] assms(5) unfolding abs_le_iff by linarith
  ultimately show ?thesis by (simp add: fits_def)
qed

lemma first_y_value: "b64 (top_y - b64 (4 / 100)) = 8376695306909122 / 2 ^ 53"
  by code_simp

lemma first_page_lines: "fits 36 (b64 (top_y - b64 (4 / 100)))"
  unfolding first_y_value by (rule fitsI) (simp_all add: line_step_value bottom_y_value)

lemma other_page_lines: "fits 37 top_y"
  by (rule fitsI) (simp_all add: line_step_value bottom_y_value top_y_value)

lemma fits_pages:
  assumes "fits (Suc n) y"
  shows "length (place_lines fs y items lines) =
    (if length lines \<le> n then 1 else Suc (length (place_lines fs top_y [] (drop (Suc n) lines))))"
proof (cases "length lines \<le> n")
  case True
  with assms have "\<forall>k\<in>{1..length lines}. bottom_y \<le> lower k y" by (auto simp: fits_def)
  from place_lines_fits [OF this, of fs items] True show ?thesis by auto
next
  case False
  have "\<forall>k\<in>{1..n}. bottom_y \<le> lower k y" "lower (Suc n) y < bottom_y"
    using assms by (auto simp: fits_def simp del: lower.simps)
  from place_lines_break [OF _ this, of "take (Suc n) lines" fs items "drop (Suc n) lines"] False
  show ?thesis by auto
qed

lemma later_pages: "length (place_lines fs top_y [] lines) = Suc (length lines div 37)"
proof (induction "length lines" arbitrary: lines rule: less_induct)
  case less
  have fit: "fits (Suc 36) top_y" using other_page_lines by simp
  show ?case
  proof (cases "length lines \<le> 36")
    case True
    with fits_pages [OF fit, of fs "[]" lines] show ?thesis by simp
  next
    case False
    then have "length (place_lines fs top_y [] (drop (Suc 36) lines)) = Suc (length (drop (Suc 36) lines) div 37)"
      by (intro less) simp
    with fits_pages [OF fit, of fs "[]" lines] False show ?thesis
      by (simp add: le_div_geq not_le)
  qed
qed

lemma add_text_page_count:
  "length (add_text_page title lines fs) =
     (if length lines < 36 then 1 else 2 + (length lines - 36) div 37)"
proof -
  have fit: "fits (Suc 35) (b64 (top_y - b64 (4 / 100)))" using first_page_lines by simp
  show ?thesis
    unfolding add_text_page_def using fits_pages [OF fit, of fs _ lines] later_pages by auto
qed

text \<open>
  Claim C30. A text page call loses no line and repeats none: read page by page its texts are the title
  and the lines in order, every one of them lies above the lower margin, and the first page
  takes 36 lines and each other one 37.
\<close>

theorem add_text_page_correct:
  "map item_text (concat (map page_items (add_text_page title lines fontsize))) = title # lines
   \<and> (\<forall>p\<in>set (add_text_page title lines fontsize). \<forall>i\<in>set (page_items p). bottom_y \<le> item_y i)
   \<and> length (add_text_page title lines fontsize) =
       (if length lines < 36 then 1 else 2 + (length lines - 36) div 37)"
proof (intro conjI ballI)
  show "map item_text (concat (map page_items (add_text_page title lines fontsize))) = title # lines"
    by (simp add: add_text_page_def place_lines_texts item_text_def)
  have "bottom_y \<le> b64 (top_y - b64 (4 / 100))" "bottom_y \<le> top_y" by code_simp+
  then show "bottom_y \<le> item_y i" if "p \<in> set (add_text_page title lines fontsize)" "i \<in> set (page_items p)" for p i
    by (intro place_lines_inside [OF _ _ that(1) [unfolded add_text_page_def] that(2)]) (auto simp: item_y_def)
qed (rule add_text_page_count)

theorem add_text_page_correct_witness:
  "length (add_text_page ''gcc'' (replicate 80 ''x'') 9) = 3"
  using add_text_page_correct [of "''gcc''" "replicate 80 ''x''" 9] by simp

text \<open>
  Claim C31. When the lines end exactly at the page break (36 lines) the page that was opened for the
  next line is saved anyway: the report gets a blank page.
\<close>

theorem text_page_trailing_blank:
  assumes "length lines = 36"
  shows "\<exists>is. add_text_page title lines fontsize = [Text_page is, Text_page []]"
proof -
  have "\<forall>k\<in>{1..35}. bottom_y \<le> lower k (b64 (top_y - b64 (4 / 100)))"
    "lower (Suc 35) (b64 (top_y - b64 (4 / 100))) < bottom_y"
    using first_page_lines by (auto simp: fits_def simp del: lower.simps)
  from place_lines_break [OF _ this, of lines fontsize _ "[]"] assms show ?thesis
    by (simp add: add_text_page_def)
qed

theorem text_page_trailing_blank_witness:
  "\<exists>is. add_text_page ''gcc'' (replicate 36 ''x'') 9 = [Text_page is, Text_page []]"
  by (rule text_page_trailing_blank) simp

end
