(* ===== verification/Py_IO.thy ===== *)
theory Py_IO
  imports Drawing
begin

text \<open>
  Effects.  A script action takes the world and returns a value or an exception with the new
  world.  The operating system is a parameter: a record of functions that answer the calls
  the scripts make, from an environment state of any type, with a result or an exception
  (\<open>KeyboardInterrupt\<close> included, so an interrupt can arrive at every call that may raise).
  The world logs the calls in order, which is what ordering properties are stated on.
\<close>

section \<open>Calls, world, actions\<close>

datatype sig = SIGTERM | SIGKILL

datatype call =
    Read_text string | Load_json string | Path_exists string | Get_size string
  | Mkdir string | Chmod string | Unlink string | Access_w string
  | Write_text string string | Dump_json string pyval | Write_csv string "string list" "pydict list"
  | Clock | Sleep rat
  | Socket_new | Reuse_addr | Bind string int | Socket_close | Connect string int rat
  | Run "string list" | Run_env "(string \<times> string) list" "string list"
  | Open_w string nat | Close nat
  | Popen "string list" | Poll int | Wait int "rat option"
  | Getpgid int | Killpg int sig | Terminate int | Kill int
  | Log string | Warn string
  | Now | Draw "draw list" | Read_image string | Render page | Save_pdf string "page list"
  | Is_dir string | Walk string | Read_pages string | Write_pages string "string list"

text \<open>
  The answers of the operating system; \<open>Poll\<close> answers whether the process has ended, and
  \<open>os_executable\<close> is the interpreter that runs the script (\<open>sys.executable\<close>).
  \<open>os_walk\<close> answers \<open>os.walk\<close> with the directories below the top, each as the components of
  its path from the top, and their files; \<open>os_pages\<close> answers a PDF reader with the pages (as
  opaque contents) it delivers and the exception that ends the reading, if any.
\<close>

record 'e os =
  os_unit :: "call \<Rightarrow> 'e \<Rightarrow> unit py \<times> 'e"
  os_bool :: "call \<Rightarrow> 'e \<Rightarrow> bool \<times> 'e"
  os_int :: "call \<Rightarrow> 'e \<Rightarrow> int py \<times> 'e"
  os_str :: "call \<Rightarrow> 'e \<Rightarrow> string py \<times> 'e"
  os_json :: "call \<Rightarrow> 'e \<Rightarrow> pyval py \<times> 'e"
  os_clock :: "'e \<Rightarrow> rat \<times> 'e"
  os_executable :: string
  os_walk :: "string \<Rightarrow> 'e \<Rightarrow> (string list \<times> string list) list \<times> 'e"
  os_pages :: "string \<Rightarrow> 'e \<Rightarrow> (string list \<times> exn option) \<times> 'e"

text \<open>
  The script's own state: the mutable global \<open>PORTS\<close>, the open log files (by handle), and
  the calls made so far.
\<close>

record 'e world =
  w_env :: 'e
  w_ports :: "(string, int) dict"
  w_fd :: nat
  w_open :: "nat list"
  w_trace :: "call list"

type_synonym ('e, 'a) io = "'e world \<Rightarrow> 'a py \<times> 'e world"

definition io_return :: "'a \<Rightarrow> ('e, 'a) io" where
  "io_return x w = (Inr x, w)"

definition io_raise :: "exn \<Rightarrow> ('e, 'a) io" where
  "io_raise e w = (Inl e, w)"

definition io_of :: "'a py \<Rightarrow> ('e, 'a) io" where
  "io_of r w = (r, w)"

definition io_bind :: "('e, 'a) io \<Rightarrow> ('a \<Rightarrow> ('e, 'b) io) \<Rightarrow> ('e, 'b) io" where
  "io_bind m f w = (case m w of (Inl e, w') \<Rightarrow> (Inl e, w') | (Inr x, w') \<Rightarrow> f x w')"

definition io_then :: "('e, 'a) io \<Rightarrow> ('e, 'b) io \<Rightarrow> ('e, 'b) io" where
  "io_then m n = io_bind m (\<lambda>_. n)"

text \<open>\<open>try: m except ...: h\<close>; the handler re-raises what it does not name.\<close>

definition io_try :: "('e, 'a) io \<Rightarrow> (exn \<Rightarrow> ('e, 'a) io) \<Rightarrow> ('e, 'a) io" where
  "io_try m h w = (case m w of (Inl e, w') \<Rightarrow> h e w' | (Inr x, w') \<Rightarrow> (Inr x, w'))"

definition except_Exception :: "('e, 'a) io \<Rightarrow> ('e, 'a) io \<Rightarrow> ('e, 'a) io" where
  "except_Exception m h = io_try m (\<lambda>e. if is_Exception e then h else io_raise e)"

text \<open>\<open>try: m finally: f\<close>; an exception of \<open>f\<close> replaces the outcome of \<open>m\<close>.\<close>

definition io_finally :: "('e, 'a) io \<Rightarrow> ('e, unit) io \<Rightarrow> ('e, 'a) io" where
  "io_finally m f w =
     (case m w of (r, w') \<Rightarrow> (case f w' of (Inl e, w'') \<Rightarrow> (Inl e, w'') | (Inr _, w'') \<Rightarrow> (r, w'')))"

fun io_for :: "'a list \<Rightarrow> ('a \<Rightarrow> ('e, unit) io) \<Rightarrow> ('e, unit) io" where
  "io_for [] body = io_return ()"
| "io_for (x # xs) body = io_then (body x) (io_for xs body)"

fun io_map :: "('a \<Rightarrow> ('e, 'b) io) \<Rightarrow> 'a list \<Rightarrow> ('e, 'b list) io" where
  "io_map f [] = io_return []"
| "io_map f (x # xs) = io_bind (f x) (\<lambda>y. io_bind (io_map f xs) (\<lambda>ys. io_return (y # ys)))"

definition io_when :: "bool \<Rightarrow> ('e, unit) io \<Rightarrow> ('e, unit) io" where
  "io_when b m = (if b then m else io_return ())"

lemmas io_defs = io_return_def io_raise_def io_of_def io_bind_def io_then_def io_try_def
  except_Exception_def io_finally_def io_when_def

section \<open>System calls\<close>

definition logged :: "call \<Rightarrow> 'e \<Rightarrow> 'e world \<Rightarrow> 'e world" where
  "logged c e w = w\<lparr>w_env := e, w_trace := w_trace w @ [c]\<rparr>"

definition sys_unit :: "'e os \<Rightarrow> call \<Rightarrow> ('e, unit) io" where
  "sys_unit os c w = (case os_unit os c (w_env w) of (r, e) \<Rightarrow> (r, logged c e w))"

definition sys_bool :: "'e os \<Rightarrow> call \<Rightarrow> ('e, bool) io" where
  "sys_bool os c w = (case os_bool os c (w_env w) of (b, e) \<Rightarrow> (Inr b, logged c e w))"

definition sys_int :: "'e os \<Rightarrow> call \<Rightarrow> ('e, int) io" where
  "sys_int os c w = (case os_int os c (w_env w) of (r, e) \<Rightarrow> (r, logged c e w))"

definition sys_str :: "'e os \<Rightarrow> call \<Rightarrow> ('e, string) io" where
  "sys_str os c w = (case os_str os c (w_env w) of (r, e) \<Rightarrow> (r, logged c e w))"

definition sys_json :: "'e os \<Rightarrow> call \<Rightarrow> ('e, pyval) io" where
  "sys_json os c w = (case os_json os c (w_env w) of (r, e) \<Rightarrow> (r, logged c e w))"

definition sys_clock :: "'e os \<Rightarrow> ('e, pynum) io" where
  "sys_clock os w = (case os_clock os (w_env w) of (t, e) \<Rightarrow> (Inr (PFlt (b64 t)), logged Clock e w))"

definition sys_walk :: "'e os \<Rightarrow> string \<Rightarrow> ('e, (string list \<times> string list) list) io" where
  "sys_walk os dir w = (case os_walk os dir (w_env w) of (ds, e) \<Rightarrow> (Inr ds, logged (Walk dir) e w))"

definition sys_pages :: "'e os \<Rightarrow> string \<Rightarrow> ('e, string list \<times> exn option) io" where
  "sys_pages os path w = (case os_pages os path (w_env w) of (r, e) \<Rightarrow> (Inr r, logged (Read_pages path) e w))"

text \<open>
  \<open>open(path, "w")\<close> hands out a fresh handle.  The scripts never write to these files
  themselves (the child process does), so closing one flushes nothing and cannot fail.
\<close>

definition sys_open :: "'e os \<Rightarrow> string \<Rightarrow> ('e, nat) io" where
  "sys_open os path w =
     (let fd = w_fd w
      in case os_unit os (Open_w path fd) (w_env w) of
           (Inl x, e) \<Rightarrow> (Inl x, logged (Open_w path fd) e w)
         | (Inr _, e) \<Rightarrow> (Inr fd, (logged (Open_w path fd) e w)\<lparr>w_fd := Suc fd, w_open := fd # w_open w\<rparr>))"

definition sys_close :: "nat \<Rightarrow> ('e, unit) io" where
  "sys_close fd w = (Inr (), (logged (Close fd) (w_env w) w)\<lparr>w_open := removeAll fd (w_open w)\<rparr>)"

definition is_closed :: "nat \<Rightarrow> 'e world \<Rightarrow> bool" where
  "is_closed fd w \<longleftrightarrow> fd \<notin> set (w_open w)"

text \<open>Printing, to the standard output and to the error output.\<close>

definition sys_log :: "string \<Rightarrow> ('e, unit) io" where
  "sys_log msg w = (Inr (), logged (Log msg) (w_env w) w)"

definition sys_warn :: "string \<Rightarrow> ('e, unit) io" where
  "sys_warn msg w = (Inr (), logged (Warn msg) (w_env w) w)"

lemma logged_simps [simp]:
  "w_env (logged c e w) = e" "w_ports (logged c e w) = w_ports w" "w_fd (logged c e w) = w_fd w"
  "w_open (logged c e w) = w_open w" "w_trace (logged c e w) = w_trace w @ [c]"
  by (simp_all add: logged_def)

lemma sys_clock_cases: "\<exists>t w1. sys_clock os w = (Inr (PFlt (b64 t)), w1)"
  by (auto simp: sys_clock_def split: prod.splits)

lemma sys_bool_cases: "\<exists>b w1. sys_bool os c w = (Inr b, w1)"
  by (auto simp: sys_bool_def split: prod.splits)

text \<open>An action that never ends with a given exception.\<close>

definition never :: "exn \<Rightarrow> ('e, 'a) io \<Rightarrow> bool" where
  "never x m \<longleftrightarrow> (\<forall>w. fst (m w) \<noteq> Inl x)"

lemma neverD: "never x m \<Longrightarrow> m w = (Inl e, w') \<Longrightarrow> e \<noteq> x"
  by (auto simp: never_def dest: spec [of _ w])

lemma never_return: "never x (io_return a)"
  by (simp add: never_def io_return_def)

lemma never_raise: "e \<noteq> x \<Longrightarrow> never x (io_raise e)"
  by (simp add: never_def io_raise_def)

lemma never_bind: "never x m \<Longrightarrow> (\<And>a. never x (f a)) \<Longrightarrow> never x (io_bind m f)"
  unfolding never_def io_bind_def by (auto split: prod.splits sum.splits) (metis fst_conv)+

lemma never_then: "never x m \<Longrightarrow> never x n \<Longrightarrow> never x (io_then m n)"
  unfolding io_then_def by (rule never_bind)

lemma never_try: "(\<And>e w w'. m w = (Inl e, w') \<Longrightarrow> never x (h e)) \<Longrightarrow> never x (io_try m h)"
  unfolding never_def io_try_def by (auto split: prod.splits sum.splits)

lemma never_except: "never x m \<Longrightarrow> never x h \<Longrightarrow> never x (except_Exception m h)"
  unfolding except_Exception_def
  by (rule never_try) (auto intro: never_raise dest: neverD)

lemmas never_rules = never_return never_raise never_bind never_then never_except

section \<open>Frame reasoning\<close>

text \<open>
  A property of how an action may change the world (extends the log, leaves \<open>PORTS\<close>
  alone, keeps closed files closed) is a reflexive and transitive relation; the combinators
  keep it.  The locale proves this once for every such relation.
\<close>

definition keeps :: "('e world \<Rightarrow> 'e world \<Rightarrow> bool) \<Rightarrow> ('e, 'a) io \<Rightarrow> bool" where
  "keeps R m \<longleftrightarrow> (\<forall>w. R w (snd (m w)))"

lemma keepsD: "keeps R m \<Longrightarrow> m w = (r, w') \<Longrightarrow> R w w'"
  by (auto simp: keeps_def dest: spec [of _ w])

named_theorems keeps_intros \<open>actions that keep a frame relation\<close>

locale frame =
  fixes R :: "'e world \<Rightarrow> 'e world \<Rightarrow> bool"
  assumes frame_refl: "R w w"
    and frame_trans: "R u v \<Longrightarrow> R v w \<Longrightarrow> R u w"
begin

lemma keeps_return: "keeps R (io_return x)"
  by (simp add: keeps_def io_defs frame_refl)

lemma keeps_raise: "keeps R (io_raise e)"
  by (simp add: keeps_def io_defs frame_refl)

lemma keeps_of: "keeps R (io_of r)"
  by (simp add: keeps_def io_defs frame_refl)

lemma keeps_bind: "keeps R m \<Longrightarrow> (\<And>x. keeps R (f x)) \<Longrightarrow> keeps R (io_bind m f)"
  unfolding keeps_def io_bind_def
  by (auto split: prod.splits sum.splits) (metis frame_trans snd_conv)+

lemma keeps_then: "keeps R m \<Longrightarrow> keeps R n \<Longrightarrow> keeps R (io_then m n)"
  unfolding io_then_def by (rule keeps_bind)

lemma keeps_try: "keeps R m \<Longrightarrow> (\<And>e. keeps R (h e)) \<Longrightarrow> keeps R (io_try m h)"
  unfolding keeps_def io_try_def
  by (auto split: prod.splits sum.splits) (metis frame_trans snd_conv)+

lemma keeps_except: "keeps R m \<Longrightarrow> keeps R h \<Longrightarrow> keeps R (except_Exception m h)"
  unfolding except_Exception_def by (rule keeps_try) (auto intro: keeps_raise)

lemma keeps_finally: "keeps R m \<Longrightarrow> keeps R f \<Longrightarrow> keeps R (io_finally m f)"
  unfolding keeps_def io_finally_def
  by (auto split: prod.splits sum.splits) (metis frame_trans snd_conv)+

lemma keeps_when: "keeps R m \<Longrightarrow> keeps R (io_when b m)"
  by (simp add: io_when_def keeps_return)

lemma keeps_for: "(\<And>x. x \<in> set xs \<Longrightarrow> keeps R (body x)) \<Longrightarrow> keeps R (io_for xs body)"
  by (induction xs) (auto intro: keeps_return keeps_then)

lemma keeps_map: "(\<And>x. x \<in> set xs \<Longrightarrow> keeps R (f x)) \<Longrightarrow> keeps R (io_map f xs)"
  by (induction xs) (auto intro!: keeps_return keeps_bind)

lemmas keeps_rules = keeps_return keeps_raise keeps_of keeps_bind keeps_then keeps_try
  keeps_except keeps_finally keeps_when keeps_for keeps_map

end

text \<open>The relations of the scripts.\<close>

definition extends :: "'e world \<Rightarrow> 'e world \<Rightarrow> bool" where
  "extends w w' \<longleftrightarrow> (\<exists>t. w_trace w' = w_trace w @ t)"

definition same_ports :: "'e world \<Rightarrow> 'e world \<Rightarrow> bool" where
  "same_ports w w' \<longleftrightarrow> w_ports w' = w_ports w"

text \<open>No file is opened: handles that are closed stay closed.\<close>

definition no_open :: "'e world \<Rightarrow> 'e world \<Rightarrow> bool" where
  "no_open w w' \<longleftrightarrow> set (w_open w') \<subseteq> set (w_open w) \<and> w_fd w' = w_fd w"

interpretation tr: frame extends
  by unfold_locales (auto simp: extends_def)

interpretation pt: frame same_ports
  by unfold_locales (auto simp: same_ports_def)

interpretation op: frame no_open
  by unfold_locales (auto simp: no_open_def)

lemma sys_keeps:
  "keeps extends (sys_unit os c)" "keeps extends (sys_bool os c)" "keeps extends (sys_int os c)"
  "keeps extends (sys_str os c)" "keeps extends (sys_json os c)" "keeps extends (sys_clock os)"
  "keeps extends (sys_close fd)" "keeps extends (sys_log m)" "keeps extends (sys_open os p)"
  "keeps same_ports (sys_unit os c)" "keeps same_ports (sys_bool os c)" "keeps same_ports (sys_int os c)"
  "keeps same_ports (sys_str os c)" "keeps same_ports (sys_json os c)" "keeps same_ports (sys_clock os)"
  "keeps same_ports (sys_close fd)" "keeps same_ports (sys_log m)" "keeps same_ports (sys_open os p)"
  "keeps no_open (sys_unit os c)" "keeps no_open (sys_bool os c)" "keeps no_open (sys_int os c)"
  "keeps no_open (sys_str os c)" "keeps no_open (sys_json os c)" "keeps no_open (sys_clock os)"
  "keeps no_open (sys_close fd)" "keeps no_open (sys_log m)"
  by (auto simp: keeps_def extends_def same_ports_def no_open_def sys_unit_def sys_bool_def
      sys_int_def sys_str_def sys_json_def sys_clock_def sys_close_def sys_log_def sys_open_def Let_def
      split: prod.splits sum.splits)

section \<open>Total correctness\<close>

text \<open>
  From every world that satisfies \<open>P\<close> the action returns (it raises nothing) with a value
  in \<open>Q\<close>, and \<open>P\<close> still holds.
\<close>

definition returns :: "('e world \<Rightarrow> bool) \<Rightarrow> ('e, 'a) io \<Rightarrow> ('a \<Rightarrow> bool) \<Rightarrow> bool" where
  "returns P m Q \<longleftrightarrow> (\<forall>w. P w \<longrightarrow> (\<exists>x w'. m w = (Inr x, w') \<and> Q x \<and> P w'))"

lemma returnsD: "returns P m Q \<Longrightarrow> P w \<Longrightarrow> \<exists>x w'. m w = (Inr x, w') \<and> Q x \<and> P w'"
  by (simp add: returns_def)

lemma returns_weaken: "returns P m Q \<Longrightarrow> (\<And>x. Q x \<Longrightarrow> R x) \<Longrightarrow> returns P m R"
  by (fastforce simp: returns_def)

lemma returns_return: "Q x \<Longrightarrow> returns P (io_return x) Q"
  by (simp add: returns_def io_return_def)

lemma returns_of: "r = Inr x \<Longrightarrow> Q x \<Longrightarrow> returns P (io_of r) Q"
  by (simp add: returns_def io_of_def)

lemma returns_bind: "returns P m Q \<Longrightarrow> (\<And>x. Q x \<Longrightarrow> returns P (f x) R) \<Longrightarrow> returns P (io_bind m f) R"
  unfolding returns_def io_bind_def by fastforce

lemma returns_then: "returns P m (\<lambda>_. True) \<Longrightarrow> returns P n R \<Longrightarrow> returns P (io_then m n) R"
  unfolding io_then_def by (rule returns_bind)

lemma returns_try: "returns P m Q \<Longrightarrow> returns P (io_try m h) Q"
  unfolding returns_def io_try_def by fastforce

lemma returns_except: "returns P m Q \<Longrightarrow> returns P (except_Exception m h) Q"
  unfolding except_Exception_def by (rule returns_try)

lemma returns_finally: "returns P m Q \<Longrightarrow> returns P f (\<lambda>_. True) \<Longrightarrow> returns P (io_finally m f) Q"
  unfolding returns_def io_finally_def by fastforce

lemma returns_when: "returns P m (\<lambda>_. True) \<Longrightarrow> returns P (io_when b m) (\<lambda>_. True)"
  by (simp add: io_when_def returns_return)

lemma returns_for: "(\<And>x. x \<in> set xs \<Longrightarrow> returns P (body x) (\<lambda>_. True)) \<Longrightarrow> returns P (io_for xs body) (\<lambda>_. True)"
  by (induction xs) (auto intro: returns_return returns_then)

lemma returns_map:
  "(\<And>x. x \<in> set xs \<Longrightarrow> returns P (f x) (\<lambda>_. True)) \<Longrightarrow> returns P (io_map f xs) (\<lambda>_. True)"
  by (induction xs) (auto intro!: returns_return returns_bind)

lemmas returns_rules = returns_return returns_bind returns_then returns_except returns_when
  returns_for returns_map returns_finally returns_try

end
