(* ===== verification/Sim_OS.thy ===== *)
theory Sim_OS
  imports Py_IO
begin

text \<open>
  A small concrete operating system, on which the closed instances of the theorems run: a
  table of text files and of JSON files, a clock of whole seconds that sleeping
  advances (a sleep past its range is interrupted), ports that are
  taken and ports that accept connections, and processes that end when waited for (after a
  second).
\<close>

record sim =
  s_now :: int
  s_text :: "(string, string) dict"
  s_json :: "(string, pyval) dict"
  s_busy :: "int list"
  s_listening :: "int list"
  s_dead :: "int list"
  s_pid :: int

fun sim_unit :: "call \<Rightarrow> sim \<Rightarrow> unit py \<times> sim" where
  "sim_unit (Sleep d) s =
     (if d < 0 then (Inl ValueError, s)
      else if 0 \<le> s_now s \<and> s_now s + \<lceil>d\<rceil> \<le> 2 ^ 53 then (Inr (), s\<lparr>s_now := s_now s + \<lceil>d\<rceil>\<rparr>)
      else (Inl KeyboardInterrupt, s))"
| "sim_unit (Bind h p) s = (if p \<in> set (s_busy s) then Inl (OSError []) else Inr (), s)"
| "sim_unit (Connect h p t) s = (if p \<in> set (s_listening s) then Inr () else Inl (OSError []), s)"
| "sim_unit (Wait pid t) s = (Inr (), s\<lparr>s_dead := pid # s_dead s, s_now := s_now s + 1\<rparr>)"
| "sim_unit c s = (Inr (), s)"

fun sim_bool :: "call \<Rightarrow> sim \<Rightarrow> bool \<times> sim" where
  "sim_bool (Path_exists p) s = (dict_get (s_text s) p \<noteq> None \<or> dict_get (s_json s) p \<noteq> None, s)"
| "sim_bool (Poll pid) s = (pid \<in> set (s_dead s), s)"
| "sim_bool c s = (True, s)"

fun sim_int :: "call \<Rightarrow> sim \<Rightarrow> int py \<times> sim" where
  "sim_int (Popen cmd) s = (Inr (s_pid s), s\<lparr>s_pid := s_pid s + 1\<rparr>)"
| "sim_int (Getpgid pid) s = (Inr pid, s)"
| "sim_int (Get_size p) s = (Inr 104857600, s)"
| "sim_int c s = (Inr 0, s)"

fun sim_str :: "call \<Rightarrow> sim \<Rightarrow> string py \<times> sim" where
  "sim_str (Read_text p) s =
     (case dict_get (s_text s) p of None \<Rightarrow> Inl (FileNotFoundError p) | Some t \<Rightarrow> Inr t, s)"
| "sim_str c s = (Inr [], s)"

fun sim_js :: "call \<Rightarrow> sim \<Rightarrow> pyval py \<times> sim" where
  "sim_js (Load_json p) s =
     (case dict_get (s_json s) p of None \<Rightarrow> Inl (FileNotFoundError p) | Some v \<Rightarrow> Inr v, s)"
| "sim_js c s = (Inl ValueError, s)"

definition sim_clock :: "sim \<Rightarrow> rat" where
  "sim_clock s = of_int (max 0 (min (2 ^ 53) (s_now s)))"

definition sim_os :: "sim os" where
  "sim_os = \<lparr>os_unit = sim_unit, os_bool = sim_bool, os_int = sim_int, os_str = sim_str,
     os_json = sim_js, os_clock = (\<lambda>s. (sim_clock s, s)), os_executable = ''python3'',
     os_walk = (\<lambda>dir s. ([], s)), os_pages = (\<lambda>path s. (([], Some (FileNotFoundError path)), s))\<rparr>"

definition sim_start :: sim where
  "sim_start = \<lparr>s_now = 0, s_text = [], s_json = [], s_busy = [], s_listening = [], s_dead = [], s_pid = 100\<rparr>"

definition sim_world :: "sim \<Rightarrow> (string, int) dict \<Rightarrow> sim world" where
  "sim_world s ports = \<lparr>w_env = s, w_ports = ports, w_fd = 0, w_open = [], w_trace = []\<rparr>"

lemma sim_os_simps [simp]:
  "os_unit sim_os = sim_unit" "os_bool sim_os = sim_bool" "os_int sim_os = sim_int"
  "os_str sim_os = sim_str" "os_json sim_os = sim_js" "os_clock sim_os = (\<lambda>s. (sim_clock s, s))"
  by (simp_all add: sim_os_def)

lemma sim_world_simps [simp]:
  "w_env (sim_world s p) = s" "w_ports (sim_world s p) = p" "w_open (sim_world s p) = []"
  "w_trace (sim_world s p) = []" "w_fd (sim_world s p) = 0"
  by (simp_all add: sim_world_def)

end
