(* ===== verification/Bench_Config.thy ===== *)
theory Bench_Config
  imports Sim_OS
begin

text \<open>
  The module constants of the six \<open>scripts/run_bench.py\<close> and the path helpers built on
  them.  The constants are equal in the six copies; the scripts differ in the directory
  they stand in, which \<open>Path(__file__)\<close> supplies and is the argument here.  Paths are
  written as \<open>pathlib\<close> normalises them (\<open>Path("./results")\<close> is \<open>results\<close>).
\<close>

record bench_config =
  project_dir :: string
  idle_baseline_json :: string
  use_idle_baseline :: bool
  default_idle_power_w :: pynum
  quiet :: bool
  print_final_summary :: bool
  generate_plots_on :: bool
  generate_pdf_on :: bool
  generate_comparison_pdf_on :: bool
  build_dirs :: "(string, string) dict"
  initial_ports :: "(string, int) dict"
  compilers :: "string list"
  file_to_serve :: string
  host :: string
  energy_path :: string
  max_energy_path :: string
  results_dir :: string
  raw_dir :: string
  plots_dir :: string
  reports_dir :: string
  logs_dir :: string
  macro_bench_cases :: "int list"
  server_thread_counts :: "int list"
  macro_repetitions :: int
  bench_args :: "string list"
  final_results :: string
  summary_results :: string
  csv_results :: string
  main_pdf_with_raw :: string
  main_pdf_no_raw :: string
  comparison_pdf_with_raw :: string
  comparison_pdf_no_raw :: string
  case_cache_trash_enabled :: bool
  case_cache_trash_size_mb :: int
  case_drop_caches :: bool
  case_cooldown_seconds :: int
  server_wait_timeout_seconds :: rat
  server_stop_timeout_seconds :: rat
  port_retry_span :: int
  table_wrap_main :: nat
  table_wrap_comparison :: nat
  table_wrap_raw :: nat
  table_font_size :: nat
  table_header_font_size :: nat
  table_vertical_scale :: rat
  table_comparison_vertical_scale :: rat
  table_raw_vertical_scale :: rat

definition run_bench_config :: "string \<Rightarrow> string \<Rightarrow> bench_config" where
  "run_bench_config root_dir project = \<lparr>
     project_dir = path_join root_dir project,
     idle_baseline_json = path_join root_dir ''idle_baseline.json'',
     use_idle_baseline = True,
     default_idle_power_w = PFlt 0,
     quiet = False,
     print_final_summary = False,
     generate_plots_on = True,
     generate_pdf_on = True,
     generate_comparison_pdf_on = True,
     build_dirs = [(''gcc'', ''./build-gcc''), (''clang'', ''./build-clang'')],
     initial_ports = [(''gcc'', 8120), (''clang'', 8121)],
     compilers = [''gcc'', ''clang''],
     file_to_serve = ''../files/100MB.bin'',
     host = ''127.0.0.1'',
     energy_path = ''/sys/class/powercap/intel-rapl:0/energy_uj'',
     max_energy_path = ''/sys/class/powercap/intel-rapl:0/max_energy_range_uj'',
     results_dir = ''results'',
     raw_dir = ''results/raw'',
     plots_dir = ''results/plots'',
     reports_dir = ''results/reports'',
     logs_dir = ''results/logs'',
     macro_bench_cases = [1, 2, 4, 8, 16],
     server_thread_counts = [1, 2, 4, 8],
     macro_repetitions = 25,
     bench_args = [''--benchmark_out_format=json''],
     final_results = ''results/raw/macro_bench_results.json'',
     summary_results = ''results/raw/macro_bench_summary.json'',
     csv_results = ''results/raw/macro_bench_results.csv'',
     main_pdf_with_raw = ''results/reports/macro_bench_report_with_raw.pdf'',
     main_pdf_no_raw = ''results/reports/macro_bench_report_no_raw.pdf'',
     comparison_pdf_with_raw = ''results/reports/macro_bench_comparison_report_with_raw.pdf'',
     comparison_pdf_no_raw = ''results/reports/macro_bench_comparison_report_no_raw.pdf'',
     case_cache_trash_enabled = True,
     case_cache_trash_size_mb = 1024,
     case_drop_caches = True,
     case_cooldown_seconds = 20,
     server_wait_timeout_seconds = 60,
     server_stop_timeout_seconds = 5,
     port_retry_span = 200,
     table_wrap_main = 20,
     table_wrap_comparison = 18,
     table_wrap_raw = 14,
     table_font_size = 8,
     table_header_font_size = 9,
     table_vertical_scale = 3,
     table_comparison_vertical_scale = b64 (33 / 10),
     table_raw_vertical_scale = b64 (19 / 10)\<rparr>"

text \<open>One configuration per copy of the script.\<close>

definition asio_config :: "string \<Rightarrow> bench_config" where
  "asio_config root_dir = run_bench_config root_dir ''asio''"

definition bsd_sockets_config :: "string \<Rightarrow> bench_config" where
  "bsd_sockets_config root_dir = run_bench_config root_dir ''bsd-sockets''"

definition bsd_sockets_v_config :: "string \<Rightarrow> bench_config" where
  "bsd_sockets_v_config root_dir = run_bench_config root_dir ''bsd-sockets-v''"

definition capy_corosio_config :: "string \<Rightarrow> bench_config" where
  "capy_corosio_config root_dir = run_bench_config root_dir ''capy-corosio''"

definition taps_asio_config :: "string \<Rightarrow> bench_config" where
  "taps_asio_config root_dir = run_bench_config root_dir ''taps-asio''"

definition async_berkeley_config :: "string \<Rightarrow> bench_config" where
  "async_berkeley_config root_dir = run_bench_config root_dir ''async-berkeley''"

lemma asio_config_simps [simp]:
  "host (asio_config r) = ''127.0.0.1''" "server_wait_timeout_seconds (asio_config r) = 60"
  "port_retry_span (asio_config r) = 200" "use_idle_baseline (asio_config r) = True"
  "macro_repetitions (asio_config r) = 25" "macro_bench_cases (asio_config r) = [1, 2, 4, 8, 16]"
  "compilers (asio_config r) = [''gcc'', ''clang'']" "server_thread_counts (asio_config r) = [1, 2, 4, 8]"
  "raw_dir (asio_config r) = ''results/raw''" "logs_dir (asio_config r) = ''results/logs''"
  by (simp_all add: asio_config_def run_bench_config_def)

section \<open>Basic utilities\<close>

definition log_msg :: "bench_config \<Rightarrow> string \<Rightarrow> ('e, unit) io" where
  "log_msg cfg msg = io_when (\<not> quiet cfg) (sys_log msg)"

definition ensure_results_dir :: "'e os \<Rightarrow> bench_config \<Rightarrow> ('e, unit) io" where
  "ensure_results_dir os cfg =
     io_for [results_dir cfg, raw_dir cfg, plots_dir cfg, reports_dir cfg, logs_dir cfg]
       (\<lambda>directory. io_then (sys_unit os (Mkdir directory)) (sys_unit os (Chmod directory)))"

section \<open>Path helpers\<close>

definition get_file_size :: "'e os \<Rightarrow> bench_config \<Rightarrow> ('e, int) io" where
  "get_file_size os cfg = sys_int os (Get_size (file_to_serve cfg))"

definition get_build_dir :: "bench_config \<Rightarrow> string \<Rightarrow> string py" where
  "get_build_dir cfg compiler =
     (case dict_get (build_dirs cfg) compiler of None \<Rightarrow> Inl KeyError | Some d \<Rightarrow> Inr d)"

definition get_server_bin :: "bench_config \<Rightarrow> string \<Rightarrow> string py" where
  "get_server_bin cfg compiler =
     res_bind (get_build_dir cfg compiler) (\<lambda>d.
       Inr (path_join (path_join d ''tcpserver'') ''tcpserver''))"

definition get_bench_bin :: "bench_config \<Rightarrow> string \<Rightarrow> string py" where
  "get_bench_bin cfg compiler =
     res_bind (get_build_dir cfg compiler) (\<lambda>d.
       Inr (path_join (path_join d ''benchmarks'') ''bench_tcp''))"

definition get_server_log_paths :: "bench_config \<Rightarrow> string \<Rightarrow> int \<Rightarrow> string \<times> string" where
  "get_server_log_paths cfg compiler server_threads =
     (let stem = ''server_'' @ compiler @ ''_threads_'' @ show_int server_threads
      in (path_join (logs_dir cfg) (stem @ ''_stdout.log''),
          path_join (logs_dir cfg) (stem @ ''_stderr.log'')))"

definition run_stem :: "string \<Rightarrow> int \<Rightarrow> int \<Rightarrow> int \<Rightarrow> int \<Rightarrow> string" where
  "run_stem compiler server_threads case_clients repetition index =
     compiler @ ''_threads_'' @ show_int server_threads @ ''_'' @ show_int case_clients
     @ ''_'' @ show_int repetition @ ''_'' @ show_int index"

definition get_bench_stderr_log_path ::
    "bench_config \<Rightarrow> string \<Rightarrow> int \<Rightarrow> int \<Rightarrow> int \<Rightarrow> int \<Rightarrow> string" where
  "get_bench_stderr_log_path cfg compiler server_threads case_clients repetition index =
     path_join (logs_dir cfg)
       (''bench_'' @ run_stem compiler server_threads case_clients repetition index @ ''.stderr.log'')"

definition get_micro_json_path ::
    "bench_config \<Rightarrow> string \<Rightarrow> int \<Rightarrow> int \<Rightarrow> int \<Rightarrow> int \<Rightarrow> string" where
  "get_micro_json_path cfg compiler server_threads case_clients repetition index =
     path_join (raw_dir cfg)
       (''micro_'' @ run_stem compiler server_threads case_clients repetition index @ ''.json'')"

text \<open>\<open>PORTS\<close> is a module global that \<open>set_port\<close> updates.\<close>

definition get_port :: "string \<Rightarrow> ('e, int) io" where
  "get_port compiler w =
     (case dict_get (w_ports w) compiler of None \<Rightarrow> (Inl KeyError, w) | Some p \<Rightarrow> (Inr p, w))"

definition set_port :: "string \<Rightarrow> int \<Rightarrow> ('e, unit) io" where
  "set_port compiler port w = (Inr (), w\<lparr>w_ports := dict_set compiler port (w_ports w)\<rparr>)"

definition read_text_file :: "'e os \<Rightarrow> string \<Rightarrow> ('e, string) io" where
  "read_text_file os path = except_Exception (sys_str os (Read_text path)) (io_return [])"

end
