(* ===== verification/Energy.thy ===== *)
theory Energy
  imports Bench_Config Stats
begin

text \<open>
  RAPL energy readings: \<open>read_energy\<close>, \<open>read_max_energy\<close> and \<open>energy_delta_j\<close> (the same
  code in \<open>scripts/run_bench.py\<close> and in \<open>measure_idle_energy.py\<close>), the idle measurement
  of \<open>measure_idle_energy.py\<close> and \<open>load_idle_power_w\<close>, which reads its output.
\<close>

section \<open>The counter\<close>

definition read_int_file :: "'e os \<Rightarrow> string \<Rightarrow> ('e, int) io" where
  "read_int_file os path =
     io_bind (sys_str os (Read_text path)) (\<lambda>s. io_of (py_int_str (py_strip s)))"

definition read_energy :: "'e os \<Rightarrow> bench_config \<Rightarrow> ('e, int) io" where
  "read_energy os cfg = read_int_file os (energy_path cfg)"

definition read_max_energy :: "'e os \<Rightarrow> bench_config \<Rightarrow> ('e, int) io" where
  "read_max_energy os cfg = read_int_file os (max_energy_path cfg)"

definition energy_delta_j :: "'e os \<Rightarrow> bench_config \<Rightarrow> int \<Rightarrow> int \<Rightarrow> ('e, pynum) io" where
  "energy_delta_j os cfg e1 e2 =
     io_bind
       (if e1 \<le> e2 then io_return (e2 - e1)
        else io_bind (read_max_energy os cfg) (\<lambda>max_range. io_return ((max_range - e1) + e2)))
       (\<lambda>delta_uj. io_of (num_div (PInt delta_uj) (PFlt 1000000)))"

text \<open>
  Microjoules to joules.  The reading of the counter is exact below \<open>2 ^ 53\<close>, so the
  conversion is one rounding of the quotient.
\<close>

lemma million: "b64 1000000 = 1000000"
  using b64_int [of 1000000] by simp

lemma uj_to_j:
  "\<bar>d\<bar> \<le> 2 ^ 53 \<Longrightarrow> num_div (PInt d) (PFlt 1000000) = Inr (PFlt (b64 (of_int d / 1000000)))"
  by (simp add: b64_int)

lemma energy_delta_up:
  "e1 \<le> e2 \<Longrightarrow> energy_delta_j os cfg e1 e2 w = (num_div (PInt (e2 - e1)) (PFlt 1000000), w)"
  by (simp add: energy_delta_j_def io_defs)

lemma energy_delta_wrap:
  "e2 < e1 \<Longrightarrow> read_max_energy os cfg w = (Inr r, w') \<Longrightarrow>
   energy_delta_j os cfg e1 e2 w = (num_div (PInt (r - e1 + e2)) (PFlt 1000000), w')"
  by (simp add: energy_delta_j_def io_defs)

text \<open>
  Claim C11. Wrap-around: for a counter that counts modulo its range \<open>r\<close> and advances by
  \<open>d < r\<close> microjoules between the readings, \<open>energy_delta_j\<close> returns the joules of \<open>d\<close>,
  whether or not the counter wrapped.
\<close>

theorem energy_delta_modular:
  assumes "0 \<le> e1" "e1 < r" "0 \<le> d" "d < r" "r \<le> 2 ^ 53"
    and "read_max_energy os cfg w = (Inr r, w')"
  shows "fst (energy_delta_j os cfg e1 ((e1 + d) mod r) w) = Inr (PFlt (b64 (of_int d / 1000000)))"
proof (cases "e1 + d < r")
  case True
  then have "(e1 + d) mod r = e1 + d" using assms by simp
  then show ?thesis
    using assms by (simp add: energy_delta_up uj_to_j del: num_div.simps)
next
  case False
  then have "(e1 + d) mod r = e1 + d - r"
    using assms mod_pos_pos_trivial [of "e1 + d - r" r] minus_mod_self2 [of "e1 + d" r] by linarith
  then have wrap: "(e1 + d) mod r < e1" "r - e1 + (e1 + d) mod r = d" using assms by auto
  show ?thesis
    using energy_delta_wrap [OF wrap(1) assms(6)] assms by (simp add: wrap(2) uj_to_j del: num_div.simps)
qed

text \<open>A simulated RAPL node: the range file holds 262143328850.\<close>

definition rapl_world :: "sim world" where
  "rapl_world = sim_world (sim_start\<lparr>s_text :=
     [(''/sys/class/powercap/intel-rapl:0/max_energy_range_uj'', ''262143328850'')]\<rparr>) []"

lemma rapl_range:
  "\<exists>w'. read_max_energy sim_os (asio_config ''/r'') rapl_world = (Inr 262143328850, w')"
proof -
  have "fst (read_max_energy sim_os (asio_config ''/r'') rapl_world) = Inr 262143328850"
    by code_simp
  then show ?thesis by (metis prod.collapse)
qed

theorem energy_delta_modular_witness:
  "fst (energy_delta_j sim_os (asio_config ''/r'') 262143328000 1000 rapl_world)
    = Inr (PFlt (b64 (1850 / 1000000)))"
proof -
  obtain w' where w': "read_max_energy sim_os (asio_config ''/r'') rapl_world = (Inr 262143328850, w')"
    using rapl_range by blast
  have "((262143328000::int) + 1850) mod 262143328850 = 1000" by simp
  with energy_delta_modular [of 262143328000 262143328850 1850, OF _ _ _ _ _ w'] show ?thesis by simp
qed

section \<open>Idle baseline\<close>

definition exn_text :: "exn \<Rightarrow> string" where
  "exn_text e = (case e of OSError s \<Rightarrow> s | FileNotFoundError s \<Rightarrow> s | RuntimeError s \<Rightarrow> s
     | OtherException s \<Rightarrow> s | _ \<Rightarrow> [])"

text \<open>\<open>str(DEFAULT_IDLE_POWER_W)\<close> in the messages: the constant is \<open>0.0\<close>.\<close>

definition load_idle_power_w :: "'e os \<Rightarrow> bench_config \<Rightarrow> ('e, pynum) io" where
  "load_idle_power_w os cfg =
     (if \<not> use_idle_baseline cfg then io_return (default_idle_power_w cfg)
      else io_bind (sys_bool os (Path_exists (idle_baseline_json cfg))) (\<lambda>exists.
        if \<not> exists then
          io_then (log_msg cfg (''WARNING: '' @ idle_baseline_json cfg
              @ '' does not exist, using DEFAULT_IDLE_POWER_W=0.0''))
            (io_return (default_idle_power_w cfg))
        else io_try
          (io_bind (sys_json os (Load_json (idle_baseline_json cfg))) (\<lambda>data.
           io_bind (io_of (res_bind (val_get data ''watts_mean'' (VNum (default_idle_power_w cfg)))
                                    val_float)) (\<lambda>watts.
           io_then (log_msg cfg (''Using idle baseline from '' @ idle_baseline_json cfg @ '': ''
                                 @ fmt_fixed 6 watts @ '' W''))
             (io_return (PFlt watts)))))
          (\<lambda>e. if is_Exception e then
             io_then (log_msg cfg (''WARNING: error reading '' @ idle_baseline_json cfg @ '': '' @ exn_text e))
               (io_then (log_msg cfg ''Using DEFAULT_IDLE_POWER_W=0.0'')
                 (io_return (default_idle_power_w cfg)))
           else io_raise e)))"

section \<open>measure_idle_energy.py\<close>

definition sample_seconds :: int where "sample_seconds = 60"
definition repetitions :: nat where "repetitions = 5"

text \<open>One repetition: joules over the sample and the average power.\<close>

definition measure_once :: "'e os \<Rightarrow> bench_config \<Rightarrow> nat \<Rightarrow> ('e, pynum \<times> pynum) io" where
  "measure_once os cfg i =
     io_then (sys_log (''Repetition '' @ show_nat (i + 1) @ ''/'' @ show_nat repetitions @ ''...''))
     (io_bind (read_energy os cfg) (\<lambda>e1.
      io_then (sys_unit os (Sleep (of_int sample_seconds)))
      (io_bind (read_energy os cfg) (\<lambda>e2.
       io_bind (energy_delta_j os cfg e1 e2) (\<lambda>j.
       io_bind (io_of (num_div j (PInt sample_seconds))) (\<lambda>w.
       io_then (sys_log (''  Joules: '' @ fmt_num 6 j @ '' J''))
       (io_then (sys_log (''  Watts: '' @ fmt_num 6 w @ '' W\<newline>''))
         (io_return (j, w)))))))))"

record idle_summary =
  joules_mean :: pynum
  joules_median :: pynum
  watts_mean :: pynum
  watts_median :: pynum
  joules_samples :: "pynum list"
  watts_samples :: "pynum list"

definition idle_result :: "(pynum \<times> pynum) list \<Rightarrow> idle_summary py" where
  "idle_result samples =
     (let joules = map fst samples; watts = map snd samples in
      res_bind (stat_mean joules) (\<lambda>jm.
      res_bind (stat_median joules) (\<lambda>jd.
      res_bind (stat_mean watts) (\<lambda>wm.
      res_bind (stat_median watts) (\<lambda>wd.
        Inr \<lparr>joules_mean = jm, joules_median = jd, watts_mean = wm, watts_median = wd,
          joules_samples = joules, watts_samples = watts\<rparr>)))))"

definition idle_json :: "idle_summary \<Rightarrow> pyval" where
  "idle_json r =
     VDict [(''sample_seconds'', VNum (PInt sample_seconds)),
       (''repetitions'', VNum (PInt (int repetitions))),
       (''joules_mean'', VNum (joules_mean r)), (''joules_median'', VNum (joules_median r)),
       (''watts_mean'', VNum (watts_mean r)), (''watts_median'', VNum (watts_median r)),
       (''joules_samples'', VList (map VNum (joules_samples r))),
       (''watts_samples'', VList (map VNum (watts_samples r)))]"

definition measure_idle_main :: "'e os \<Rightarrow> bench_config \<Rightarrow> ('e, unit) io" where
  "measure_idle_main os cfg =
     io_then (sys_log (''Measuring idle power consumption: '' @ show_nat repetitions
                       @ '' repetitions of '' @ show_int sample_seconds @ '' s''))
     (io_then (sys_log ''Leave the system idle, with no benchmarks or extra workload.\<newline>'')
      (io_bind (io_map (measure_once os cfg) [0..<repetitions]) (\<lambda>samples.
       io_bind (io_of (idle_result samples)) (\<lambda>result.
       io_then (sys_unit os (Dump_json (idle_baseline_json cfg) (idle_json result)))
       (io_for [''==== SUMMARY ===='',
           ''Mean joules over '' @ show_int sample_seconds @ '' s: '' @ fmt_num 6 (joules_mean result) @ '' J'',
           ''Median joules over '' @ show_int sample_seconds @ '' s: '' @ fmt_num 6 (joules_median result) @ '' J'',
           ''Mean idle power: '' @ fmt_num 6 (watts_mean result) @ '' W'',
           ''Median idle power: '' @ fmt_num 6 (watts_median result) @ '' W'',
           ''\<newline>Saved to: '' @ idle_baseline_json cfg]
         sys_log)))))"

text \<open>A dictionary whose \<open>watts_mean\<close> is a float is read back as that float.\<close>

lemma load_idle_of_json:
  assumes "use_idle_baseline cfg"
    and "os_bool os (Path_exists (idle_baseline_json cfg)) (w_env w) = (True, e1)"
    and "os_json os (Load_json (idle_baseline_json cfg)) e1 = (Inr v, e2)"
    and "val_get v ''watts_mean'' (VNum (default_idle_power_w cfg)) = Inr (VNum a)"
  shows "fst (load_idle_power_w os cfg w) = Inr (PFlt (to_flt a))"
  using assms
  by (simp add: load_idle_power_w_def io_defs sys_bool_def sys_json_def log_msg_def sys_log_def)

text \<open>
  Claim C17. Round trip between the two programs: what \<open>measure_idle_energy.py\<close> stores from
  five non-negative samples is what \<open>load_idle_power_w\<close> of every benchmark script reads
  back as the idle power, namely the rounded mean of the measured watts, which lies between
  the smallest and the largest measured power.
\<close>

theorem idle_baseline_roundtrip:
  assumes "samples \<noteq> []" "\<forall>s\<in>set samples. snd s = PFlt (b64 (num_val (snd s))) \<and>
      lo \<le> num_val (snd s) \<and> num_val (snd s) \<le> hi" "rep64 lo" "rep64 hi"
    and "idle_result samples = Inr r" and "use_idle_baseline cfg"
    and "os_bool os (Path_exists (idle_baseline_json cfg)) (w_env w) = (True, e1)"
    and "os_json os (Load_json (idle_baseline_json cfg)) e1 = (Inr (idle_json r), e2)"
  shows "\<exists>p. fst (load_idle_power_w os cfg w) = Inr (PFlt p)
    \<and> stat_mean (map snd samples) = Inr (PFlt p) \<and> lo \<le> p \<and> p \<le> hi"
proof -
  let ?ws = "map snd samples"
  obtain m where m: "stat_mean ?ws = Inr m" "lo \<le> num_val m" "num_val m \<le> hi"
    using stat_mean_between [of ?ws lo hi] assms(1-4) by auto
  have "\<not> all_int ?ws"
    using assms(1,2) by (cases samples) (auto simp: all_int_def split: pynum.splits)
  then obtain p where p: "m = PFlt p" using m(1) assms(1) by (auto simp: stat_mean_def Let_def)
  have "val_get (idle_json r) ''watts_mean'' (VNum (default_idle_power_w cfg)) = Inr (VNum m)"
    using assms(5) m(1) by (auto simp: idle_result_def idle_json_def Let_def res_bind_eq_Inr)
  from load_idle_of_json [OF assms(6-8) this] p m show ?thesis by auto
qed

definition idle_samples :: "(pynum \<times> pynum) list" where
  "idle_samples = [(PFlt 690, PFlt (23 / 2)), (PFlt 696, PFlt (47 / 4)), (PFlt 690, PFlt (23 / 2)),
     (PFlt 690, PFlt (23 / 2)), (PFlt 690, PFlt (23 / 2))]"

definition idle_world :: "idle_summary \<Rightarrow> sim world" where
  "idle_world r = sim_world (sim_start\<lparr>s_json := [(''/r/idle_baseline.json'', idle_json r)]\<rparr>) []"

lemma idle_samples_floats:
  "rep64 (23 / 2)" "rep64 (47 / 4)" "b64 (23 / 2) = 23 / 2" "b64 (47 / 4) = 47 / 4"
proof -
  show "b64 (23 / 2) = 23 / 2" "b64 (47 / 4) = 47 / 4" by code_simp+
  then show "rep64 (23 / 2)" "rep64 (47 / 4)" by (metis rep64_b64)+
qed

theorem idle_baseline_roundtrip_witness:
  "\<exists>r p. idle_result idle_samples = Inr r
    \<and> fst (load_idle_power_w sim_os (asio_config ''/r'') (idle_world r)) = Inr (PFlt p)
    \<and> 23 / 2 \<le> p \<and> p \<le> 47 / 4"
proof -
  let ?cfg = "asio_config ''/r''"
  obtain r where r: "idle_result idle_samples = Inr r"
    by (auto simp: idle_result_def idle_samples_def stat_mean_def stat_median_def Let_def
        all_int_def num_sum_def)
  have path: "idle_baseline_json ?cfg = ''/r/idle_baseline.json''" "use_idle_baseline ?cfg"
    by (simp_all add: asio_config_def run_bench_config_def path_join_def)
  have "\<exists>p. fst (load_idle_power_w sim_os ?cfg (idle_world r)) = Inr (PFlt p)
    \<and> stat_mean (map snd idle_samples) = Inr (PFlt p) \<and> 23 / 2 \<le> p \<and> p \<le> 47 / 4"
    using r path
    by (intro idle_baseline_roundtrip [of idle_samples])
       (auto simp: idle_samples_def idle_samples_floats idle_world_def)
  with r show ?thesis by blast
qed

end
