(* ===== verification/Ports.thy ===== *)
theory Ports
  imports Bench_Config
begin

text \<open>
  Port management of \<open>scripts/run_bench.py\<close>: probing a port, clearing it of processes with
  rising force, and choosing the port a server will listen on.
\<close>

section \<open>Probing\<close>

definition is_port_open :: "'e os \<Rightarrow> string \<Rightarrow> int \<Rightarrow> ('e, bool) io" where
  "is_port_open os h port =
     io_try (io_then (sys_unit os (Connect h port (1 / 2)))
              (io_then (sys_unit os Socket_close) (io_return True)))
       (\<lambda>e. if is_OSError e then io_return False else io_raise e)"

definition can_bind_port :: "'e os \<Rightarrow> string \<Rightarrow> int \<Rightarrow> ('e, bool) io" where
  "can_bind_port os h port =
     io_then (sys_unit os Socket_new)
       (io_finally
         (io_try (io_then (sys_unit os Reuse_addr) (io_then (sys_unit os (Bind h port)) (io_return True)))
           (\<lambda>e. if is_OSError e then io_return False else io_raise e))
         (sys_unit os Socket_close))"

fun first_bindable :: "'e os \<Rightarrow> string \<Rightarrow> exn \<Rightarrow> int list \<Rightarrow> ('e, int) io" where
  "first_bindable os h err [] = io_raise err"
| "first_bindable os h err (port # ports) =
     io_bind (can_bind_port os h port) (\<lambda>ok.
       if ok then io_return port else first_bindable os h err ports)"

definition find_free_port :: "'e os \<Rightarrow> int \<Rightarrow> string \<Rightarrow> int \<Rightarrow> ('e, int) io" where
  "find_free_port os start_port h port_span =
     first_bindable os h
       (RuntimeError (''Could not find a free port in range ['' @ show_int start_port @ '', ''
          @ show_int (start_port + port_span - 1) @ '']''))
       [start_port..start_port + port_span - 1]"

section \<open>Clearing a port\<close>

definition run_optional_command :: "'e os \<Rightarrow> string list \<Rightarrow> ('e, unit) io" where
  "run_optional_command os cmd =
     except_Exception (io_then (sys_str os (Run cmd)) (io_return ())) (io_return ())"

definition pids_of :: "string \<Rightarrow> string list" where
  "pids_of out = filter (\<lambda>x. x \<noteq> []) (map py_strip (splitlines out))"

text \<open>The last resort: ask \<open>lsof\<close> for the processes and signal each of them.\<close>

definition kill_by_pid :: "'e os \<Rightarrow> bench_config \<Rightarrow> int \<Rightarrow> ('e, unit) io" where
  "kill_by_pid os cfg port =
     except_Exception
       (io_bind (sys_str os (Run [''lsof'', ''-ti'', ''tcp:'' @ show_int port])) (\<lambda>out.
        let pids = pids_of out in
        io_then (io_for pids (\<lambda>pid. run_optional_command os [''kill'', ''-TERM'', pid]))
        (io_then (io_when (pids \<noteq> []) (sys_unit os (Sleep (1 / 2))))
        (io_bind (can_bind_port os (host cfg) port) (\<lambda>ok.
         io_when (\<not> ok)
           (io_then (io_for pids (\<lambda>pid. run_optional_command os [''kill'', ''-KILL'', pid]))
              (io_when (pids \<noteq> []) (sys_unit os (Sleep (1 / 2))))))))))
       (io_return ())"

definition kill_processes_on_port :: "'e os \<Rightarrow> bench_config \<Rightarrow> int \<Rightarrow> ('e, unit) io" where
  "kill_processes_on_port os cfg port =
     io_then (run_optional_command os [''fuser'', ''-k'', ''-TERM'', show_int port @ ''/tcp''])
     (io_then (sys_unit os (Sleep (1 / 2)))
     (io_bind (can_bind_port os (host cfg) port) (\<lambda>ok.
        if ok then io_return ()
        else io_then (run_optional_command os [''fuser'', ''-k'', ''-KILL'', show_int port @ ''/tcp''])
             (io_then (sys_unit os (Sleep (1 / 2)))
             (io_bind (can_bind_port os (host cfg) port) (\<lambda>ok.
                if ok then io_return () else kill_by_pid os cfg port))))))"

section \<open>Choosing the server's port\<close>

definition prepare_server_port :: "'e os \<Rightarrow> bench_config \<Rightarrow> string \<Rightarrow> ('e, int) io" where
  "prepare_server_port os cfg compiler =
     io_bind (get_port compiler) (\<lambda>preferred.
     io_then (kill_processes_on_port os cfg preferred)
     (io_bind (can_bind_port os (host cfg) preferred) (\<lambda>ok.
        if ok then io_return preferred
        else io_bind (find_free_port os (preferred + 1) (host cfg) (port_retry_span cfg)) (\<lambda>new_port.
             io_then (log_msg cfg (''Port '' @ show_int preferred @ '' is still busy, switching ''
                        @ compiler @ '' to port '' @ show_int new_port))
             (io_then (set_port compiler new_port) (io_return new_port))))))"

section \<open>Frames\<close>

lemma ports_frames:
  "keeps same_ports (can_bind_port os h p)" "keeps same_ports (is_port_open os h p)"
  "keeps same_ports (kill_processes_on_port os cfg p)"
  "keeps no_open (can_bind_port os h p)" "keeps no_open (is_port_open os h p)"
  "keeps no_open (kill_processes_on_port os cfg p)"
  "keeps extends (can_bind_port os h p)" "keeps extends (is_port_open os h p)"
  "keeps extends (kill_processes_on_port os cfg p)"
  by (auto simp: can_bind_port_def is_port_open_def kill_processes_on_port_def kill_by_pid_def
      run_optional_command_def Let_def
      intro!: pt.keeps_rules op.keeps_rules tr.keeps_rules sys_keeps)

lemma first_bindable_frames:
  "keeps same_ports (first_bindable os h err ps)" "keeps no_open (first_bindable os h err ps)"
  by (induction ps) (auto intro!: pt.keeps_rules op.keeps_rules ports_frames)

section \<open>Properties\<close>

text \<open>Before the result, every probed port answered busy; the last probe answered free.\<close>

lemma first_bindable_sound:
  "first_bindable os h err ps w = (Inr p, w') \<Longrightarrow>
   p \<in> set ps \<and> (\<exists>w1. extends w w1 \<and> can_bind_port os h p w1 = (Inr True, w'))"
proof (induction ps arbitrary: w)
  case Nil
  then show ?case by (simp add: io_defs)
next
  case (Cons q ps)
  obtain r w2 where q: "can_bind_port os h q w = (r, w2)" by fastforce
  show ?case
  proof (cases r)
    case (Inl e)
    with Cons.prems q show ?thesis by (simp add: io_defs)
  next
    case (Inr b)
    have "extends w w2" using keepsD [OF ports_frames(7) q] .
    show ?thesis
    proof (cases b)
      case True
      with Inr Cons.prems q tr.frame_refl show ?thesis by (auto simp: io_defs)
    next
      case False
      with Inr Cons.prems q have "first_bindable os h err ps w2 = (Inr p, w')"
        by (simp add: io_defs)
      from Cons.IH [OF this] \<open>extends w w2\<close> show ?thesis
        by (auto intro: tr.frame_trans)
    qed
  qed
qed

text \<open>
  The kernel's answer to a probe when nothing else changes: opening, configuring and closing
  a socket succeeds, and binding succeeds exactly on the free ports.
\<close>

definition port_oracle :: "'e os \<Rightarrow> (int \<Rightarrow> bool) \<Rightarrow> 'e \<Rightarrow> bool" where
  "port_oracle os free e \<longleftrightarrow>
     os_unit os Socket_new e = (Inr (), e) \<and> os_unit os Reuse_addr e = (Inr (), e)
   \<and> os_unit os Socket_close e = (Inr (), e)
   \<and> (\<forall>h p. if free p then os_unit os (Bind h p) e = (Inr (), e)
            else \<exists>m. os_unit os (Bind h p) e = (Inl (OSError m), e))"

lemma can_bind_oracle:
  assumes "port_oracle os free (w_env w)"
  shows "\<exists>t. can_bind_port os h p w = (Inr (free p), w\<lparr>w_trace := t\<rparr>)"
proof (cases "free p")
  case True
  with assms show ?thesis
    by (auto simp: can_bind_port_def io_defs sys_unit_def port_oracle_def logged_def
        dest!: spec [of _ h] spec [of _ p])
next
  case False
  with assms obtain m where "os_unit os (Bind h p) (w_env w) = (Inl (OSError m), w_env w)"
    unfolding port_oracle_def by metis
  with assms False show ?thesis
    by (auto simp: can_bind_port_def io_defs sys_unit_def port_oracle_def logged_def is_OSError_def)
qed

lemma first_bindable_oracle:
  "port_oracle os free (w_env w) \<Longrightarrow>
   fst (first_bindable os h err ps w) = (case filter free ps of [] \<Rightarrow> Inl err | p # _ \<Rightarrow> Inr p)"
proof (induction ps arbitrary: w)
  case Nil
  then show ?case by (simp add: io_defs)
next
  case (Cons p ps)
  obtain t where t: "can_bind_port os h p w = (Inr (free p), w\<lparr>w_trace := t\<rparr>)"
    using can_bind_oracle [OF Cons.prems] by blast
  from Cons.IH [of "w\<lparr>w_trace := t\<rparr>"] Cons.prems t show ?case by (simp add: io_defs)
qed

text \<open>
  Claim C16. \<open>find_free_port\<close> returns the smallest free port of
  \<open>[start_port, start_port + port_span)\<close>, and raises \<open>RuntimeError\<close> exactly when the range has
  no free port.
\<close>

theorem find_free_port_least:
  assumes "port_oracle os free (w_env w)"
  shows "(\<forall>p. fst (find_free_port os start_port h port_span w) = Inr p \<longleftrightarrow>
            start_port \<le> p \<and> p < start_port + port_span \<and> free p
          \<and> (\<forall>q. start_port \<le> q \<and> q < p \<longrightarrow> \<not> free q))
    \<and> ((\<exists>m. fst (find_free_port os start_port h port_span w) = Inl (RuntimeError m)) \<longleftrightarrow>
         (\<forall>p. start_port \<le> p \<and> p < start_port + port_span \<longrightarrow> \<not> free p))"
proof -
  let ?ps = "[start_port..start_port + port_span - 1]"
  have fst: "\<exists>m. fst (find_free_port os start_port h port_span w) =
      (case filter free ?ps of [] \<Rightarrow> Inl (RuntimeError m) | p # _ \<Rightarrow> Inr p)"
    using first_bindable_oracle [OF assms] unfolding find_free_port_def by blast
  show ?thesis
  proof (cases "filter free ?ps")
    case Nil
    then have none: "\<forall>p. start_port \<le> p \<and> p < start_port + port_span \<longrightarrow> \<not> free p"
      by (auto simp: filter_empty_conv)
    with fst Nil show ?thesis by auto
  next
    case (Cons p rest)
    then have "p \<in> set (filter free ?ps)" by simp
    then have mem: "start_port \<le> p" "p < start_port + port_span" "free p" by auto
    have "sorted_wrt (<) (filter free ?ps)"
      by (rule sorted_wrt_filter) (simp add: sorted_wrt_upto)
    then have rest: "\<forall>q\<in>set rest. p < q" using Cons by simp
    have least: "\<not> free q" if "start_port \<le> q" "q < p" for q
    proof
      assume "free q"
      with that mem have "q \<in> set (filter free ?ps)" by auto
      with rest that(2) show False unfolding Cons by auto
    qed
    from fst Cons have r: "fst (find_free_port os start_port h port_span w) = Inr p" by auto
    show ?thesis
      unfolding r using mem least by (auto) (metis linorder_less_linear)+
  qed
qed

theorem find_free_port_least_witness:
  "fst (find_free_port sim_os 8121 ''127.0.0.1'' 200 (sim_world (sim_start\<lparr>s_busy := [8121, 8122]\<rparr>) []))
    = Inr 8123"
proof -
  have "port_oracle sim_os (\<lambda>p. p \<notin> {8121, 8122})
      (w_env (sim_world (sim_start\<lparr>s_busy := [8121, 8122]\<rparr>) []))"
    by (auto simp: port_oracle_def)
  note least = conjunct1 [OF find_free_port_least [OF this, of 8121 "''127.0.0.1''" 200], THEN spec, of 8123]
  have "\<forall>q. 8121 \<le> q \<and> q < (8123 :: int) \<longrightarrow> \<not> q \<notin> {8121, 8122}" by auto
  with least show ?thesis by simp
qed

text \<open>
  Claim C12. Whatever the system answers, when \<open>prepare_server_port\<close> returns a port the last
  thing it did about that port was a successful trial bind; \<open>PORTS\<close> then records this port
  for the compiler and is unchanged for every other one, and the port is the preferred one
  or among the 200 above it.
\<close>

theorem prepare_server_port_recorded:
  assumes "prepare_server_port os cfg compiler w = (Inr p, w')"
  shows "dict_get (w_ports w') compiler = Some p
    \<and> (\<forall>c. c \<noteq> compiler \<longrightarrow> dict_get (w_ports w') c = dict_get (w_ports w) c)
    \<and> (\<exists>w1 w2. extends w w1 \<and> can_bind_port os (host cfg) p w1 = (Inr True, w2) \<and> w_env w2 = w_env w')
    \<and> (\<exists>preferred. dict_get (w_ports w) compiler = Some preferred
         \<and> (p = preferred \<or> preferred < p \<and> p \<le> preferred + port_retry_span cfg))"
proof -
  obtain preferred where pref: "dict_get (w_ports w) compiler = Some preferred"
    using assms by (auto simp: prepare_server_port_def io_defs get_port_def split: option.splits)
  obtain w1 where k: "kill_processes_on_port os cfg preferred w = (Inr (), w1)"
    using assms pref by (auto simp: prepare_server_port_def io_defs get_port_def split: prod.splits sum.splits)
  obtain ok w2 where b: "can_bind_port os (host cfg) preferred w1 = (Inr ok, w2)"
    using assms pref k by (auto simp: prepare_server_port_def io_defs get_port_def split: prod.splits sum.splits)
  have ext: "extends w w1" "extends w1 w2"
    using keepsD [OF ports_frames(9) k] keepsD [OF ports_frames(7) b] .
  have same: "w_ports w2 = w_ports w"
    using keepsD [OF ports_frames(3) k] keepsD [OF ports_frames(1) b] by (simp add: same_ports_def)
  show ?thesis
  proof (cases ok)
    case True
    with assms pref k b have "p = preferred" "w' = w2"
      by (simp_all add: prepare_server_port_def io_defs get_port_def)
    with True b same pref ext show ?thesis by simp blast
  next
    case False
    obtain q w3 where f: "find_free_port os (preferred + 1) (host cfg) (port_retry_span cfg) w2 = (Inr q, w3)"
      using assms pref k b False
      by (auto simp: prepare_server_port_def io_defs get_port_def split: prod.splits sum.splits)
    then have q: "q \<in> set [preferred + 1..preferred + 1 + port_retry_span cfg - 1]"
      "\<exists>w1. extends w2 w1 \<and> can_bind_port os (host cfg) q w1 = (Inr True, w3)"
      unfolding find_free_port_def by (auto dest!: first_bindable_sound)
    from q(2) ext have "\<exists>w1. extends w w1 \<and> can_bind_port os (host cfg) q w1 = (Inr True, w3)"
      by (meson tr.frame_trans)
    have "w_ports w3 = w_ports w2"
      using keepsD [OF first_bindable_frames(1) f [unfolded find_free_port_def]] by (simp add: same_ports_def)
    moreover have "p = q" "w_ports w' = dict_set compiler q (w_ports w3)" "w_env w' = w_env w3"
      using assms pref k b f False
      by (auto simp: prepare_server_port_def io_defs get_port_def set_port_def log_msg_def sys_log_def
          split: if_splits)
    ultimately show ?thesis
      using q(1) same pref \<open>\<exists>w1. extends w w1 \<and> _ w1\<close> by (auto simp: dict.get_put)
  qed
qed

text \<open>
  \<open>kill_processes_on_port\<close> escalates only as far as needed: when the port is free
  after the first signal it has run the one \<open>fuser -TERM\<close> command, slept half a second and
  probed the port once, and no \<open>KILL\<close> is ever sent.
\<close>

theorem kill_stops_when_free:
  assumes "os_str os (Run [''fuser'', ''-k'', ''-TERM'', show_int port @ ''/tcp'']) (w_env w) = (Inr out, e1)"
    and "os_unit os (Sleep (1 / 2)) e1 = (Inr (), e2)"
    and "port_oracle os free e2" and "free port"
  shows "kill_processes_on_port os cfg port w =
    (Inr (), w\<lparr>w_env := e2, w_trace := w_trace w @
       [Run [''fuser'', ''-k'', ''-TERM'', show_int port @ ''/tcp''], Sleep (1 / 2),
        Socket_new, Reuse_addr, Bind (host cfg) port, Socket_close]\<rparr>)"
  using assms
  by (auto simp: kill_processes_on_port_def run_optional_command_def can_bind_port_def io_defs
      sys_str_def sys_unit_def port_oracle_def logged_def)

theorem kill_stops_when_free_witness:
  "w_trace (snd (kill_processes_on_port sim_os (asio_config ''/r'') 8120 (sim_world sim_start []))) =
     [Run [''fuser'', ''-k'', ''-TERM'', ''8120/tcp''], Sleep (1 / 2),
      Socket_new, Reuse_addr, Bind ''127.0.0.1'' 8120, Socket_close]"
proof -
  have s: "show_int 8120 = ''8120''"
    by code_simp
  have "port_oracle sim_os (\<lambda>_. True) (sim_start\<lparr>s_now := 1\<rparr>)"
    by (simp add: port_oracle_def sim_start_def)
  moreover have "sim_unit (Sleep (1 / 2)) sim_start = (Inr (), sim_start\<lparr>s_now := 1\<rparr>)"
    by code_simp
  ultimately show ?thesis
    using kill_stops_when_free [of sim_os 8120 "sim_world sim_start []" _ sim_start "sim_start\<lparr>s_now := 1\<rparr>"
        "\<lambda>_. True" "asio_config ''/r''"] s by simp
qed

theorem prepare_server_port_recorded_witness:
  "\<exists>w'. prepare_server_port sim_os (asio_config ''/r'') ''gcc''
      (sim_world (sim_start\<lparr>s_busy := [8120, 8121]\<rparr>) [(''gcc'', 8120), (''clang'', 8121)]) = (Inr 8122, w')
    \<and> dict_get (w_ports w') ''gcc'' = Some 8122 \<and> dict_get (w_ports w') ''clang'' = Some 8121"
proof -
  let ?w = "sim_world (sim_start\<lparr>s_busy := [8120, 8121]\<rparr>) [(''gcc'', 8120), (''clang'', 8121)]"
  have "fst (prepare_server_port sim_os (asio_config ''/r'') ''gcc'' ?w) = Inr 8122"
    by code_simp
  then obtain w' where w': "prepare_server_port sim_os (asio_config ''/r'') ''gcc'' ?w = (Inr 8122, w')"
    by (metis prod.collapse)
  with prepare_server_port_recorded [OF w'] show ?thesis by simp
qed

end
