(* ===== verification/Server.thy ===== *)
theory Server
  imports Ports
begin

text \<open>
  The life of a benchmarked server process in \<open>scripts/run_bench.py\<close>: starting it on a
  cleared port with its log files, waiting until it accepts connections, and stopping it
  with rising force.
\<close>

section \<open>start_server\<close>

definition start_server ::
    "'e os \<Rightarrow> bench_config \<Rightarrow> string \<Rightarrow> int \<Rightarrow> ('e, int \<times> nat \<times> nat \<times> int) io" where
  "start_server os cfg compiler server_threads =
     io_bind (io_of (get_server_bin cfg compiler)) (\<lambda>server_bin.
     io_bind (prepare_server_port os cfg compiler) (\<lambda>port.
     io_bind (sys_bool os (Path_exists server_bin)) (\<lambda>exists.
       if \<not> exists then
         io_raise (FileNotFoundError (''Server binary not found for '' @ compiler @ '': '' @ server_bin))
       else case get_server_log_paths cfg compiler server_threads of (stdout_path, stderr_path) \<Rightarrow>
         io_bind (sys_open os stdout_path) (\<lambda>stdout_file.
         io_bind (sys_open os stderr_path) (\<lambda>stderr_file.
         io_bind (sys_int os (Popen [server_bin, file_to_serve cfg, show_int port, show_int server_threads]))
           (\<lambda>proc. io_return (proc, stdout_file, stderr_file, port)))))))"

section \<open>stop_server\<close>

text \<open>Signal the process group; when that fails, the process itself; never raise an \<open>Exception\<close>.\<close>

definition signal_group :: "'e os \<Rightarrow> int \<Rightarrow> sig \<Rightarrow> call \<Rightarrow> ('e, unit) io" where
  "signal_group os pid s fallback =
     except_Exception
       (io_bind (sys_int os (Getpgid pid)) (\<lambda>pgid. sys_unit os (Killpg pgid s)))
       (except_Exception (sys_unit os fallback) (io_return ()))"

definition stop_process :: "'e os \<Rightarrow> rat \<Rightarrow> int \<Rightarrow> ('e, unit) io" where
  "stop_process os timeout pid =
     io_bind (sys_bool os (Poll pid)) (\<lambda>ended.
       if ended then io_return ()
       else io_then (signal_group os pid SIGTERM (Terminate pid))
         (io_try (sys_unit os (Wait pid (Some timeout)))
           (\<lambda>e. if e = TimeoutExpired then
              io_then (signal_group os pid SIGKILL (Kill pid))
                (except_Exception (sys_unit os (Wait pid (Some timeout))) (io_return ()))
            else io_raise e)))"

definition close_if_open :: "nat option \<Rightarrow> ('e, unit) io" where
  "close_if_open fd w =
     (case fd of None \<Rightarrow> (Inr (), w)
      | Some n \<Rightarrow> if is_closed n w then (Inr (), w) else sys_close n w)"

definition stop_server ::
    "'e os \<Rightarrow> bench_config \<Rightarrow> int option \<Rightarrow> nat option \<Rightarrow> nat option \<Rightarrow> int option \<Rightarrow> ('e, unit) io" where
  "stop_server os cfg proc stdout_file stderr_file port =
     io_finally
       (case proc of None \<Rightarrow> io_return ()
        | Some pid \<Rightarrow> stop_process os (server_stop_timeout_seconds cfg) pid)
       (io_then (close_if_open stdout_file)
       (io_then (close_if_open stderr_file)
       (io_then (case port of None \<Rightarrow> io_return () | Some p \<Rightarrow> kill_processes_on_port os cfg p)
         (sys_unit os (Sleep 1)))))"

section \<open>wait_for_server\<close>

definition server_failure ::
    "'e os \<Rightarrow> bench_config \<Rightarrow> string \<Rightarrow> int \<Rightarrow> int \<Rightarrow> string \<Rightarrow> ('e, 'a) io" where
  "server_failure os cfg compiler server_threads port what =
     (case get_server_log_paths cfg compiler server_threads of (stdout_path, stderr_path) \<Rightarrow>
       io_bind (read_text_file os stdout_path) (\<lambda>stdout_text.
       io_bind (read_text_file os stderr_path) (\<lambda>stderr_text.
       io_raise (RuntimeError (''The server for '' @ compiler @ '' with '' @ show_int server_threads
         @ '' threads '' @ what @ ''\<newline>Port: '' @ show_int port
         @ ''\<newline>stdout log: '' @ stdout_path @ ''\<newline>stderr log: '' @ stderr_path
         @ ''\<newline>--- STDOUT ---\<newline>'' @ stdout_text
         @ ''\<newline>--- STDERR ---\<newline>'' @ stderr_text)))))"

text \<open>The polling loop, with a bound on the number of rounds.\<close>

fun wait_loop ::
    "nat \<Rightarrow> 'e os \<Rightarrow> bench_config \<Rightarrow> int \<Rightarrow> string \<Rightarrow> int \<Rightarrow> string \<Rightarrow> int \<Rightarrow> rat \<Rightarrow> pynum \<Rightarrow> ('e, bool) io" where
  "wait_loop 0 os cfg proc h port compiler server_threads timeout start = io_raise OutOfFuel"
| "wait_loop (Suc n) os cfg proc h port compiler server_threads timeout start =
     io_bind (sys_clock os) (\<lambda>now.
       if num_lt (num_sub now start) (PFlt timeout) then
         io_bind (sys_bool os (Poll proc)) (\<lambda>ended.
           if ended then
             server_failure os cfg compiler server_threads port ''exited before becoming ready.''
           else io_bind (is_port_open os h port) (\<lambda>ready.
             if ready then io_return True
             else io_then (sys_unit os (Sleep (b64 (1 / 5))))
                    (wait_loop n os cfg proc h port compiler server_threads timeout start)))
       else server_failure os cfg compiler server_threads port ''did not become ready in time.'')"

definition wait_for_server ::
    "nat \<Rightarrow> 'e os \<Rightarrow> bench_config \<Rightarrow> int \<Rightarrow> string \<Rightarrow> int \<Rightarrow> string \<Rightarrow> int \<Rightarrow> ('e, bool) io" where
  "wait_for_server fuel os cfg proc h port compiler server_threads =
     io_bind (sys_clock os) (\<lambda>start.
       wait_loop fuel os cfg proc h port compiler server_threads (server_wait_timeout_seconds cfg) start)"

section \<open>Frames\<close>

lemma signal_group_frames:
  "keeps no_open (signal_group os pid s c)" "keeps extends (signal_group os pid s c)"
  "keeps same_ports (signal_group os pid s c)"
  by (auto simp: signal_group_def intro!: pt.keeps_rules op.keeps_rules tr.keeps_rules sys_keeps)

lemma stop_process_frames:
  "keeps no_open (stop_process os t pid)" "keeps extends (stop_process os t pid)"
  "keeps same_ports (stop_process os t pid)"
  by (auto simp: stop_process_def
      intro!: pt.keeps_rules op.keeps_rules tr.keeps_rules sys_keeps signal_group_frames)

lemma close_frames:
  "keeps no_open (close_if_open fd)" "keeps extends (close_if_open fd)" "keeps same_ports (close_if_open fd)"
  by (auto simp: keeps_def close_if_open_def sys_close_def no_open_def extends_def same_ports_def split: option.splits)

lemma close_closes:
  "fst (close_if_open fd w) = Inr ()" "is_closed n (snd (close_if_open (Some n) w))"
  by (auto simp: close_if_open_def is_closed_def sys_close_def split: option.splits)

lemma closed_stays: "no_open w w' \<Longrightarrow> is_closed n w \<Longrightarrow> is_closed n w'"
  by (auto simp: no_open_def is_closed_def)

lemma server_failure_frames:
  "keeps no_open (server_failure os cfg c t p m)" "keeps extends (server_failure os cfg c t p m)"
  "keeps same_ports (server_failure os cfg c t p m)"
  by (auto simp: server_failure_def read_text_file_def split: prod.splits
      intro!: pt.keeps_rules op.keeps_rules tr.keeps_rules sys_keeps)

lemma wait_loop_frames:
  "keeps no_open (wait_loop n os cfg proc h p c t tm st)"
  "keeps extends (wait_loop n os cfg proc h p c t tm st)"
  "keeps same_ports (wait_loop n os cfg proc h p c t tm st)"
  by (induction n)
    (auto intro!: pt.keeps_rules op.keeps_rules tr.keeps_rules sys_keeps server_failure_frames ports_frames)

section \<open>Stopping leaves nothing behind\<close>

lemma run_optional_trace:
  "\<exists>r t. run_optional_command os cmd w = (r, t) \<and> w_trace t = w_trace w @ [Run cmd]"
  by (auto simp: run_optional_command_def io_defs sys_str_def split: prod.splits sum.splits)

lemma kill_trace:
  "\<exists>t. w_trace (snd (kill_processes_on_port os cfg p w)) =
     w_trace w @ Run [''fuser'', ''-k'', ''-TERM'', show_int p @ ''/tcp''] # t"
proof -
  let ?c = "[''fuser'', ''-k'', ''-TERM'', show_int p @ ''/tcp'']"
  obtain r w1 where r: "run_optional_command os ?c w = (r, w1)" "w_trace w1 = w_trace w @ [Run ?c]"
    using run_optional_trace by blast
  have "\<exists>m. kill_processes_on_port os cfg p = io_then (run_optional_command os ?c) m \<and> keeps extends m"
    unfolding kill_processes_on_port_def
    by (rule exI, rule conjI, rule refl)
      (auto simp: can_bind_port_def kill_by_pid_def run_optional_command_def Let_def
        intro!: tr.keeps_rules sys_keeps)
  then obtain m where m: "kill_processes_on_port os cfg p = io_then (run_optional_command os ?c) m"
    "keeps extends m" by blast
  have "extends w1 (snd (m w1))" using m(2) by (simp add: keeps_def)
  then show ?thesis
    using r by (cases r) (auto simp: m(1) io_defs extends_def)
qed

lemma stop_server_closes:
  "is_closed so (snd (stop_server os cfg proc (Some so) (Some se) (Some port) w))
   \<and> is_closed se (snd (stop_server os cfg proc (Some so) (Some se) (Some port) w))
   \<and> (\<exists>t1 t2. w_trace (snd (stop_server os cfg proc (Some so) (Some se) (Some port) w)) =
        w_trace w @ t1 @ Run [''fuser'', ''-k'', ''-TERM'', show_int port @ ''/tcp''] # t2)"
proof -
  let ?m = "case proc of None \<Rightarrow> io_return ()
    | Some pid \<Rightarrow> stop_process os (server_stop_timeout_seconds cfg) pid"
  let ?k = "io_then (kill_processes_on_port os cfg port) (sys_unit os (Sleep 1))"
  obtain r w1 where m: "?m w = (r, w1)" by fastforce
  obtain w2 where w2: "close_if_open (Some so) w1 = (Inr (), w2)"
    by (metis close_closes(1) prod.collapse)
  obtain w3 where w3: "close_if_open (Some se) w2 = (Inr (), w3)"
    by (metis close_closes(1) prod.collapse)
  obtain r' w4 where w4: "?k w3 = (r', w4)" by fastforce
  have res: "snd (stop_server os cfg proc (Some so) (Some se) (Some port) w) = w4"
    using m w2 w3 w4 by (cases r') (simp_all add: stop_server_def io_finally_def io_then_def io_bind_def)
  have k: "keeps no_open ?k" by (intro op.keeps_rules sys_keeps ports_frames)
  have "is_closed so w2" using close_closes(2) [of so w1] w2 by simp
  then have "is_closed so w3"
    using keepsD [OF close_frames(1) w3] by (rule closed_stays [rotated])
  moreover have "is_closed se w3" using close_closes(2) [of se w2] w3 by simp
  ultimately have closed: "is_closed so w4" "is_closed se w4"
    using keepsD [OF k w4] by (auto intro: closed_stays)
  have "keeps extends ?m" by (cases proc) (auto intro!: tr.keeps_rules stop_process_frames)
  from keepsD [OF this m] keepsD [OF close_frames(2) w2] keepsD [OF close_frames(2) w3]
  have "extends w w3" by (meson tr.frame_trans)
  moreover obtain t where "w_trace (snd (kill_processes_on_port os cfg port w3)) =
      w_trace w3 @ Run [''fuser'', ''-k'', ''-TERM'', show_int port @ ''/tcp''] # t"
    using kill_trace by blast
  then have "\<exists>t. w_trace w4 = w_trace w3 @ Run [''fuser'', ''-k'', ''-TERM'', show_int port @ ''/tcp''] # t"
    using w4 by (auto simp: io_then_def io_bind_def sys_unit_def split: prod.splits sum.splits)
  ultimately show ?thesis unfolding res extends_def using closed by fastforce
qed

text \<open>
  Claim C4. Whatever the system does while a server is stopped (signals that fail, waits
  that time out, interrupts), afterwards both log files are closed and the port has been
  cleared: the \<open>fuser\<close> command for it was run after everything else.
\<close>

theorem stop_server_cleans_up:
  "is_closed so (snd (stop_server os cfg proc (Some so) (Some se) (Some port) w))
   \<and> is_closed se (snd (stop_server os cfg proc (Some so) (Some se) (Some port) w))
   \<and> (\<exists>t1 t2. w_trace (snd (stop_server os cfg proc (Some so) (Some se) (Some port) w)) =
        w_trace w @ t1 @ Run [''fuser'', ''-k'', ''-TERM'', show_int port @ ''/tcp''] # t2)"
  by (rule stop_server_closes)

section \<open>Waiting\<close>

lemma server_failure_raises: "\<exists>e. fst (server_failure os cfg c t p m w) = Inl e"
  by (auto simp: server_failure_def io_defs split: prod.splits sum.splits)

lemma wait_loop_ready:
  "wait_loop n os cfg proc h port c t tm st w = (Inr b, w') \<Longrightarrow>
   b \<and> (\<exists>w1. extends w w1 \<and> is_port_open os h port w1 = (Inr True, w'))"
proof (induction n arbitrary: w)
  case 0
  then show ?case by (simp add: io_defs)
next
  case (Suc n)
  obtain now w1 where now: "sys_clock os w = (Inr now, w1)"
    using sys_clock_cases by blast
  have fail: "server_failure os cfg c t port m w0 \<noteq> (Inr b, w')" for m w0
    using server_failure_raises [of os cfg c t port m w0] by (metis fst_conv sum.distinct(1))
  from Suc.prems now fail have lt: "num_lt (num_sub now st) (PFlt tm)"
    by (auto simp: io_defs split: if_splits)
  obtain ended w2 where poll: "sys_bool os (Poll proc) w1 = (Inr ended, w2)"
    using sys_bool_cases by blast
  from Suc.prems now fail lt poll have alive: "\<not> ended" by (auto simp: io_defs)
  obtain ready w3 where po: "is_port_open os h port w2 = (Inr ready, w3)"
    using Suc.prems now lt poll alive by (auto simp: io_defs split: prod.splits sum.splits)
  have ext: "extends w w2" "extends w2 w3"
    using keepsD [OF sys_keeps(6) now] keepsD [OF sys_keeps(2) poll] keepsD [OF ports_frames(8) po]
    by (auto intro: tr.frame_trans)
  show ?case
  proof (cases ready)
    case True
    with Suc.prems now lt poll alive po ext show ?thesis by (auto simp: io_defs)
  next
    case False
    obtain w4 where sl: "sys_unit os (Sleep (b64 (1 / 5))) w3 = (Inr (), w4)"
      "wait_loop n os cfg proc h port c t tm st w4 = (Inr b, w')"
      using Suc.prems now lt poll alive po False
      by (auto simp: io_defs split: prod.splits sum.splits)
    have "extends w w4" using ext keepsD [OF sys_keeps(1) sl(1)] by (meson tr.frame_trans)
    with Suc.IH [OF sl(2)] show ?thesis by (auto intro: tr.frame_trans)
  qed
qed

text \<open>
  Claim C5. \<open>wait_for_server\<close> never returns \<open>False\<close>: when it returns, it returns \<open>True\<close> and
  the last thing it did was a connection to the server's port that succeeded; in every
  other case it raises.
\<close>

theorem wait_for_server_ready:
  assumes "wait_for_server fuel os cfg proc h port compiler server_threads w = (Inr b, w')"
  shows "b \<and> (\<exists>w1. extends w w1 \<and> is_port_open os h port w1 = (Inr True, w'))"
proof -
  obtain now w1 where now: "sys_clock os w = (Inr now, w1)"
    using sys_clock_cases by blast
  with assms have "wait_loop fuel os cfg proc h port compiler server_threads
      (server_wait_timeout_seconds cfg) now w1 = (Inr b, w')"
    by (simp add: wait_for_server_def io_defs)
  from wait_loop_ready [OF this] keepsD [OF sys_keeps(6) now] show ?thesis
    by (auto intro: tr.frame_trans)
qed

text \<open>
  The documented behaviour of the clock and of \<open>sleep\<close>: readings are floats and never go
  back, and sleeping advances the reading by the requested time (half of it is all the
  proof needs, which absorbs the rounding of the readings).
\<close>

definition clock_law :: "'e os \<Rightarrow> ('e \<Rightarrow> rat) \<Rightarrow> bool" where
  "clock_law os now \<longleftrightarrow>
     (\<forall>e. fst (os_clock os e) = now e \<and> rep64 (now e) \<and> now e \<le> now (snd (os_clock os e)))
   \<and> (\<forall>c e. now e \<le> now (snd (os_unit os c e)) \<and> fst (os_unit os c e) \<noteq> Inl OutOfFuel)
   \<and> (\<forall>c e. now e \<le> now (snd (os_bool os c e)) \<and> now e \<le> now (snd (os_int os c e)))
   \<and> (\<forall>c e. now e \<le> now (snd (os_str os c e)) \<and> fst (os_str os c e) \<noteq> Inl OutOfFuel)
   \<and> (\<forall>d e. fst (os_unit os (Sleep d) e) = Inr () \<longrightarrow> now e + d / 2 \<le> now (snd (os_unit os (Sleep d) e)))"

definition later :: "('e \<Rightarrow> rat) \<Rightarrow> 'e world \<Rightarrow> 'e world \<Rightarrow> bool" where
  "later now w w' \<longleftrightarrow> now (w_env w) \<le> now (w_env w')"

interpretation ck: frame "later now" for now :: "'e \<Rightarrow> rat"
  by unfold_locales (auto simp: later_def)

lemma clock_keeps:
  assumes "clock_law os now"
  shows "keeps (later now) (sys_unit os c)" "keeps (later now) (sys_bool os c)"
    "keeps (later now) (sys_clock os)" "keeps (later now) (sys_str os c)" "keeps (later now) (sys_int os c)"
  using assms
  by (auto simp: clock_law_def keeps_def later_def sys_unit_def sys_bool_def sys_clock_def sys_str_def sys_int_def
      split: prod.splits) (metis snd_conv)+

lemma clock_never:
  assumes "clock_law os now"
  shows "never OutOfFuel (sys_unit os c)" "never OutOfFuel (sys_str os c)"
  using assms by (auto simp: clock_law_def never_def sys_unit_def sys_str_def split: prod.splits) (metis fst_conv)+

lemma never_server_failure:
  "clock_law os now \<Longrightarrow> never OutOfFuel (server_failure os cfg c t p m)"
  by (auto simp: server_failure_def read_text_file_def split: prod.splits
      intro!: never_rules clock_never)

lemma never_is_port_open:
  assumes "clock_law os now"
  shows "never OutOfFuel (is_port_open os h port)"
  unfolding is_port_open_def
proof (rule never_try)
  fix e and w w'
  assume eq: "io_then (sys_unit os (Connect h port (1 / 2)))
      (io_then (sys_unit os Socket_close) (io_return True)) w = (Inl e, w')"
  have "never OutOfFuel (io_then (sys_unit os (Connect h port (1 / 2)))
      (io_then (sys_unit os Socket_close) (io_return True)))"
    by (intro never_rules clock_never [OF assms])
  from neverD [OF this eq] show "never OutOfFuel (if is_OSError e then io_return False else io_raise e)"
    by (simp add: never_return never_raise)
qed

lemma clock_law_reading:
  assumes "clock_law os now"
  shows "\<exists>w1. sys_clock os w = (Inr (PFlt (now (w_env w))), w1) \<and> now (w_env w) \<le> now (w_env w1)"
proof -
  obtain t e where te: "os_clock os (w_env w) = (t, e)" by fastforce
  then have "t = now (w_env w)" "rep64 t" "now (w_env w) \<le> now e"
    using assms by (auto simp: clock_law_def dest: spec [of _ "w_env w"])
  with te show ?thesis by (simp add: sys_clock_def b64_rep)
qed

lemma later_is_port_open: "clock_law os now \<Longrightarrow> keeps (later now) (is_port_open os h port)"
  unfolding is_port_open_def by (auto intro!: ck.keeps_rules clock_keeps)

lemma sleep_advances:
  "clock_law os now \<Longrightarrow> sys_unit os (Sleep d) w = (Inr (), w') \<Longrightarrow> now (w_env w) + d / 2 \<le> now (w_env w')"
  by (auto simp: clock_law_def sys_unit_def split: prod.splits) (metis fst_conv snd_conv)

definition round_step :: rat where "round_step = b64 (1 / 5) / 2"

lemma wait_loop_round:
  assumes law: "clock_law os now"
    and run: "fst (wait_loop (Suc n) os cfg proc h port c t tm (PFlt s) w) = Inl OutOfFuel"
  shows "b64 (now (w_env w) - s) < tm
    \<and> (\<exists>w4. now (w_env w) + round_step \<le> now (w_env w4)
         \<and> fst (wait_loop n os cfg proc h port c t tm (PFlt s) w4) = Inl OutOfFuel)"
proof -
  obtain w1 where w1: "sys_clock os w = (Inr (PFlt (now (w_env w))), w1)" "now (w_env w) \<le> now (w_env w1)"
    using clock_law_reading [OF law] by blast
  have fail: "fst (server_failure os cfg c t port m w0 :: bool py \<times> _) \<noteq> Inl OutOfFuel" for m w0
    by (rule never_server_failure [OF law, unfolded never_def, rule_format])
  have lt: "b64 (now (w_env w) - s) < tm"
    using run w1 fail by (auto simp: io_defs num_lt_def split: if_splits)
  obtain ended w2 where w2: "sys_bool os (Poll proc) w1 = (Inr ended, w2)"
    using sys_bool_cases by blast
  have alive: "\<not> ended" using run w1 lt w2 fail by (auto simp: io_defs num_lt_def)
  obtain r w3 where w3: "is_port_open os h port w2 = (r, w3)" by fastforce
  have r: "r = Inr False"
    using run w1 lt w2 alive w3 neverD [OF never_is_port_open [OF law] , of h port w2]
    by (cases r) (auto simp: io_defs num_lt_def split: if_splits)
  obtain r' w4 where w4: "sys_unit os (Sleep (b64 (1 / 5))) w3 = (r', w4)" by fastforce
  have r': "r' = Inr ()" "fst (wait_loop n os cfg proc h port c t tm (PFlt s) w4) = Inl OutOfFuel"
    using run w1 lt w2 alive w3 r w4 neverD [OF clock_never(1) [OF law], of "Sleep (b64 (1 / 5))" w3]
    by (cases r'; auto simp: io_defs num_lt_def)+
  have "now (w_env w1) \<le> now (w_env w3)"
    using keepsD [OF clock_keeps(2) [OF law] w2] keepsD [OF later_is_port_open [OF law] w3]
    by (simp add: later_def)
  then have "now (w_env w) + round_step \<le> now (w_env w4)"
    using w1(2) sleep_advances [OF law w4 [unfolded r'(1)]] by (simp add: round_step_def)
  with lt r'(2) show ?thesis by blast
qed

lemma wait_loop_terminates:
  assumes law: "clock_law os now" and tm: "rep64 tm"
  shows "tm \<le> now (w_env w) - s + of_nat n * round_step \<Longrightarrow>
    fst (wait_loop (Suc n) os cfg proc h port c t tm (PFlt s) w) \<noteq> Inl OutOfFuel"
proof (induction n arbitrary: w)
  case 0
  then have "tm \<le> b64 (now (w_env w) - s)" using tm by (intro dbl.rnd_ge) auto
  with wait_loop_round [OF law, of 0 cfg proc h port c t tm s w] show ?case by auto
next
  case (Suc n)
  show ?case
  proof
    assume "fst (wait_loop (Suc (Suc n)) os cfg proc h port c t tm (PFlt s) w) = Inl OutOfFuel"
    from wait_loop_round [OF law this] obtain w4 where w4: "now (w_env w) + round_step \<le> now (w_env w4)"
      "fst (wait_loop (Suc n) os cfg proc h port c t tm (PFlt s) w4) = Inl OutOfFuel" by blast
    from Suc.prems w4(1) have "tm \<le> now (w_env w4) - s + of_nat n * round_step"
      by (simp add: algebra_simps)
    from Suc.IH [OF this] w4(2) show False by simp
  qed
qed

lemma round_step_ge: "1 / 10 \<le> round_step"
  unfolding round_step_def by code_simp

text \<open>
  Claim C15. The polling loop ends: with a clock that does not go back and advances while
  the script sleeps, 601 rounds are enough for the 60 seconds of
  \<open>SERVER_WAIT_TIMEOUT_SECONDS\<close>; the bound of the model is never what stops it.
\<close>

theorem wait_for_server_terminates:
  assumes "clock_law os now" "server_wait_timeout_seconds cfg = 60" "601 \<le> fuel"
  shows "fst (wait_for_server fuel os cfg proc h port compiler server_threads w) \<noteq> Inl OutOfFuel"
proof -
  obtain w1 where t: "sys_clock os w = (Inr (PFlt (now (w_env w))), w1)"
    and t': "now (w_env w) \<le> now (w_env w1)"
    using clock_law_reading [OF assms(1)] by blast
  obtain n where n: "fuel = Suc n" "600 \<le> n" using assms(3) by (cases fuel) auto
  have "(60 :: rat) \<le> of_nat n * (1 / 10)" using n(2) by simp
  also have "\<dots> \<le> of_nat n * round_step" using round_step_ge by (intro mult_left_mono) auto
  finally have "60 \<le> now (w_env w1) - now (w_env w) + of_nat n * round_step" using t' by simp
  moreover have "rep64 60" using rep64_int [of 60] by simp
  ultimately show ?thesis
    using wait_loop_terminates [OF assms(1), of 60 w1 "now (w_env w)" n] t
    by (simp add: wait_for_server_def io_bind_def assms(2) n(1) del: wait_loop.simps)
qed

section \<open>Starting\<close>

lemma start_server_facts:
  assumes "start_server os cfg compiler server_threads w = (Inr (proc, so, se, port), w')"
  shows "\<exists>w1 w2 server_bin. get_server_bin cfg compiler = Inr server_bin
    \<and> prepare_server_port os cfg compiler w = (Inr port, w1)
    \<and> sys_int os (Popen [server_bin, file_to_serve cfg, show_int port, show_int server_threads]) w2 = (Inr proc, w')
    \<and> w_ports w' = w_ports w1 \<and> so \<noteq> se \<and> \<not> is_closed so w' \<and> \<not> is_closed se w'"
proof -
  obtain bin where bin: "get_server_bin cfg compiler = Inr bin"
    using assms by (auto simp: start_server_def io_defs split: sum.splits)
  obtain p w1 where p: "prepare_server_port os cfg compiler w = (Inr p, w1)"
    using assms bin by (auto simp: start_server_def io_defs split: prod.splits sum.splits)
  obtain ex w2 where ex: "sys_bool os (Path_exists bin) w1 = (Inr ex, w2)"
    using sys_bool_cases by blast
  obtain o_path e_path where paths: "get_server_log_paths cfg compiler server_threads = (o_path, e_path)"
    by fastforce
  have "ex" using assms bin p ex by (auto simp: start_server_def io_defs split: if_splits)
  note run = assms bin p ex \<open>ex\<close> paths
  obtain fo w3 where fo: "sys_open os o_path w2 = (Inr fo, w3)"
    using run by (auto simp: start_server_def io_defs split: prod.splits sum.splits)
  obtain fe w4 where fe: "sys_open os e_path w3 = (Inr fe, w4)"
    using run fo by (auto simp: start_server_def io_defs split: prod.splits sum.splits)
  obtain pid w5 where pid: "sys_int os (Popen [bin, file_to_serve cfg, show_int p, show_int server_threads]) w4 = (Inr pid, w5)"
    using run fo fe by (auto simp: start_server_def io_defs split: prod.splits sum.splits)
  have eqs: "proc = pid" "so = fo" "se = fe" "port = p" "w' = w5"
    using run fo fe pid by (auto simp: start_server_def io_defs)
  have "w_ports w5 = w_ports w1"
    using keepsD [OF sys_keeps(11) ex] keepsD [OF sys_keeps(18) fo] keepsD [OF sys_keeps(18) fe]
      keepsD [OF sys_keeps(12) pid] by (simp add: same_ports_def)
  moreover have "fo = w_fd w2" "w_fd w3 = Suc (w_fd w2)" "fe = w_fd w3" "w_open w4 = fe # fo # w_open w2"
    using fo fe by (auto simp: sys_open_def Let_def split: prod.splits sum.splits)
  moreover have "w_open w5 = w_open w4"
    using pid by (auto simp: sys_int_def split: prod.splits)
  ultimately show ?thesis
    using bin p pid eqs by (auto simp: is_closed_def)
qed

text \<open>
  When \<open>start_server\<close> succeeds, the process it returns was started, as its last
  action, with the served file, the port that \<open>prepare_server_port\<close> had just chosen (the one
  recorded in \<open>PORTS\<close>) and the thread count as arguments; the two log handles are distinct
  and open.
\<close>

theorem start_server_port:
  assumes "start_server os cfg compiler server_threads w = (Inr (proc, so, se, port), w')"
  shows "\<exists>w1 w2 server_bin. get_server_bin cfg compiler = Inr server_bin
    \<and> prepare_server_port os cfg compiler w = (Inr port, w1)
    \<and> sys_int os (Popen [server_bin, file_to_serve cfg, show_int port, show_int server_threads]) w2 = (Inr proc, w')
    \<and> w_ports w' = w_ports w1 \<and> so \<noteq> se \<and> \<not> is_closed so w' \<and> \<not> is_closed se w'"
  using assms by (rule start_server_facts)

section \<open>Closed instances\<close>

lemma sim_clock_law: "clock_law sim_os sim_clock"
proof -
  have mono: "sim_clock e \<le> sim_clock (snd (sim_unit c e))" for c e
  proof (cases c)
    case (Sleep d)
    show ?thesis
    proof (cases "d < 0")
      case False
      then have "s_now e \<le> s_now e + \<lceil>d\<rceil>" by simp
      then have "min (2 ^ 53) (s_now e) \<le> s_now e + \<lceil>d\<rceil>" by (simp only: min.coboundedI2)
      with Sleep show ?thesis by (auto simp: sim_clock_def)
    qed (simp add: Sleep)
  qed (auto simp: sim_clock_def)
  have sleep: "sim_clock e + d / 2 \<le> sim_clock (snd (sim_unit (Sleep d) e))"
    if ok: "fst (sim_unit (Sleep d) e) = Inr ()" for d e
  proof -
    have d: "0 \<le> d" "0 \<le> s_now e" "s_now e + \<lceil>d\<rceil> \<le> 2 ^ 53"
      using ok by (auto split: if_splits)
    have "0 \<le> \<lceil>d\<rceil>" using d(1) by simp
    then have "s_now e \<le> 2 ^ 53" "0 \<le> s_now e + \<lceil>d\<rceil>" using d by linarith+
    then have "sim_clock e = of_int (s_now e)" using d(2) by (simp add: sim_clock_def)
    moreover have "sim_clock (snd (sim_unit (Sleep d) e)) = of_int (s_now e + \<lceil>d\<rceil>)"
      using d \<open>0 \<le> s_now e + \<lceil>d\<rceil>\<close> by (simp add: sim_clock_def)
    moreover have "d / 2 \<le> of_int \<lceil>d\<rceil>" using le_of_int_ceiling [of d] d(1) by linarith
    ultimately show ?thesis by (simp only: of_int_add add_left_mono)
  qed
  have rep: "rep64 (sim_clock e)" for e
    unfolding sim_clock_def by (rule rep64_int) auto
  have bool: "snd (sim_bool c e) = e" for c e by (cases c) auto
  have int: "sim_clock (snd (sim_int c e)) = sim_clock e" for c e by (cases c) (auto simp: sim_clock_def)
  have str: "snd (sim_str c e) = e" "fst (sim_str c e) \<noteq> Inl OutOfFuel" for c e
    by (cases c; auto split: option.splits)+
  have unit: "fst (sim_unit c e) \<noteq> Inl OutOfFuel" for c e by (cases c) auto
  show ?thesis
    by (simp add: clock_law_def mono sleep rep bool int str unit del: sim_unit.simps)
qed

definition sim_ports :: "(string, int) dict" where
  "sim_ports = [(''gcc'', 8120), (''clang'', 8121)]"

theorem wait_for_server_terminates_witness:
  "fst (wait_for_server 601 sim_os (asio_config ''/r'') 100 ''127.0.0.1'' 8120 ''gcc'' 1 (sim_world sim_start sim_ports))
     \<noteq> Inl OutOfFuel"
proof -
  have "server_wait_timeout_seconds (asio_config ''/r'') = 60"
    by (simp add: asio_config_def run_bench_config_def)
  from wait_for_server_terminates [OF sim_clock_law this] show ?thesis by simp
qed

theorem wait_for_server_ready_witness:
  "\<exists>w' w1. wait_for_server 3 sim_os (asio_config ''/r'') 100 ''127.0.0.1'' 8120 ''gcc'' 1
       (sim_world (sim_start\<lparr>s_listening := [8120]\<rparr>) sim_ports) = (Inr True, w')
     \<and> is_port_open sim_os ''127.0.0.1'' 8120 w1 = (Inr True, w')"
proof -
  let ?m = "wait_for_server 3 sim_os (asio_config ''/r'') 100 ''127.0.0.1'' 8120 ''gcc'' 1
       (sim_world (sim_start\<lparr>s_listening := [8120]\<rparr>) sim_ports)"
  have "fst ?m = Inr True" by code_simp
  then obtain w' where w': "?m = (Inr True, w')" by (metis prod.collapse)
  from wait_for_server_ready [OF w'] w' show ?thesis by blast
qed

theorem start_server_port_witness:
  "\<exists>proc so se w'. start_server sim_os (asio_config ''/r'') ''gcc'' 2
       (sim_world (sim_start\<lparr>s_text := [(''./build-gcc/tcpserver/tcpserver'', [])]\<rparr>) sim_ports)
       = (Inr (proc, so, se, 8120), w') \<and> so \<noteq> se"
proof -
  let ?m = "start_server sim_os (asio_config ''/r'') ''gcc'' 2
       (sim_world (sim_start\<lparr>s_text := [(''./build-gcc/tcpserver/tcpserver'', [])]\<rparr>) sim_ports)"
  have "fst ?m = Inr (100, 0, 1, 8120)" by code_simp
  then obtain w' where w': "?m = (Inr (100, 0, 1, 8120), w')" by (metis prod.collapse)
  from start_server_port [OF w'] w' show ?thesis by blast
qed

end
