(* ===== verification/Bench.thy ===== *)
theory Bench
  imports Server Energy "HOL-Library.Sublist"
begin

text \<open>
  Running one benchmark case (\<open>scripts/run_bench.py\<close>): starting and stopping the
  \<open>bench_tcp\<close> processes, reading their JSON outputs, and the measurement record of
  \<open>run_macro_bench_case\<close>.  The copy of \<open>async-berkeley\<close> has its own parser and its own
  byte count; the other five copies are equal.
\<close>

section \<open>Benchmark processes\<close>

type_synonym bench_proc = "int \<times> string \<times> nat"

definition start_bench_instance ::
    "'e os \<Rightarrow> bench_config \<Rightarrow> string \<Rightarrow> int \<Rightarrow> int \<Rightarrow> int \<Rightarrow> int \<Rightarrow> int \<Rightarrow> ('e, bench_proc) io" where
  "start_bench_instance os cfg compiler server_threads case_clients repetition index port =
     io_bind (io_of (get_bench_bin cfg compiler)) (\<lambda>bench_bin.
     io_bind (sys_bool os (Path_exists bench_bin)) (\<lambda>exists.
       if \<not> exists then
         io_raise (FileNotFoundError (''Benchmark binary not found for '' @ compiler @ '': '' @ bench_bin))
       else
         let output_json = get_micro_json_path cfg compiler server_threads case_clients repetition index;
             stderr_log = get_bench_stderr_log_path cfg compiler server_threads case_clients repetition index
         in
         io_bind (sys_bool os (Path_exists output_json)) (\<lambda>stale.
         io_then (io_when stale (sys_unit os (Unlink output_json)))
         (io_bind (sys_open os stderr_log) (\<lambda>err_file.
          io_bind (sys_int os (Popen ([bench_bin] @ bench_args cfg
              @ [''--server_port='' @ show_int port] @ [''--benchmark_out='' @ output_json])))
            (\<lambda>proc. io_return (proc, output_json, err_file)))))))"

definition stop_bench_process :: "'e os \<Rightarrow> int \<Rightarrow> ('e, unit) io" where
  "stop_bench_process os proc = except_Exception (stop_process os 3 proc) (io_return ())"

text \<open>
  The start loop.  The list of started processes outlives an exception, because the handler
  of the caller needs it: the loop returns the list with the exception that ended it.
\<close>

fun start_instances ::
    "(int \<Rightarrow> ('e, bench_proc) io) \<Rightarrow> int list \<Rightarrow> bench_proc list \<Rightarrow> ('e, bench_proc list \<times> exn option) io" where
  "start_instances start [] processes w = (Inr (processes, None), w)"
| "start_instances start (i # is) processes w =
     (case start i w of
        (Inl e, w') \<Rightarrow> (Inr (processes, Some e), w')
      | (Inr p, w') \<Rightarrow> start_instances start is (processes @ [p]) w')"

text \<open>The body of the interrupt handler.\<close>

definition stop_and_close :: "'e os \<Rightarrow> bench_proc \<Rightarrow> ('e, unit) io" where
  "stop_and_close os p =
     (case p of (proc, _, err_file) \<Rightarrow>
       io_then (stop_bench_process os proc) (close_if_open (Some err_file)))"

definition run_instances ::
    "'e os \<Rightarrow> (int \<Rightarrow> ('e, bench_proc) io) \<Rightarrow> int \<Rightarrow> ('e, bench_proc list) io" where
  "run_instances os start num_benches =
     io_bind (start_instances start [0..num_benches - 1] []) (\<lambda>(processes, failure).
       io_try
         (case failure of
            Some e \<Rightarrow> io_raise e
          | None \<Rightarrow> io_then
              (io_for processes (\<lambda>(proc, _, err_file).
                 io_then (sys_unit os (Wait proc None)) (close_if_open (Some err_file))))
              (io_return processes))
         (\<lambda>e. if e = KeyboardInterrupt then
            io_then
              (io_for processes (stop_and_close os))
              (io_raise KeyboardInterrupt)
          else io_raise e))"

section \<open>parse_benchmark_json\<close>

fun count_iterations :: "pyval list \<Rightarrow> pynum \<Rightarrow> (bool \<times> pynum) py" where
  "count_iterations [] acc =
     Inr (if num_val acc \<le> 0 then (False, PInt 0) else (True, acc))"
| "count_iterations (entry # entries) acc =
     res_bind (val_get entry ''error_occurred'' (VBool False)) (\<lambda>err.
       if truthy err then Inr (False, PInt 0)
       else res_bind (val_get entry ''run_type'' VNone) (\<lambda>run_type.
         if run_type = VStr ''iteration'' then
           res_bind (val_get entry ''iterations'' (VNum (PInt 0))) (\<lambda>n.
           res_bind (val_add acc n) (\<lambda>sum. count_iterations entries sum))
         else count_iterations entries acc))"

definition parse_data :: "pyval \<Rightarrow> (bool \<times> pynum) py" where
  "parse_data data =
     res_bind (val_get data ''benchmarks'' (VList [])) (\<lambda>bs.
     res_bind (val_iter bs) (\<lambda>entries. count_iterations entries (PInt 0)))"

definition parse_benchmark_json :: "'e os \<Rightarrow> string \<Rightarrow> ('e, bool \<times> pynum) io" where
  "parse_benchmark_json os path =
     except_Exception
       (io_bind (sys_json os (Load_json path)) (\<lambda>data. io_of (parse_data data)))
       (io_return (False, PInt 0))"

section \<open>run_macro_bench_case\<close>

record bench_result =
  br_compiler :: string
  br_port :: int
  br_server_threads :: int
  br_parallel_bench_processes :: int
  br_repetition :: int
  br_success :: int
  br_failed :: int
  br_total_iterations :: pynum
  br_downloads_per_process :: pynum
  br_elapsed_s :: pynum
  br_elapsed_ms :: pynum
  br_idle_power_w :: pynum
  br_energy_j_raw :: pynum
  br_idle_energy_j_estimated :: pynum
  br_energy_j :: pynum
  br_real_transferred_bytes :: pynum
  br_throughput_mib_s :: pynum
  br_benchmark_json_files :: "string list"

text \<open>The tally over the output files: iterations, valid files, successes and failures.\<close>

record tally =
  t_total_iterations :: pynum
  t_valid_json_files :: "string list"
  t_success :: int
  t_failed :: int

definition tally_start :: tally where
  "tally_start = \<lparr>t_total_iterations = PInt 0, t_valid_json_files = [], t_success = 0, t_failed = 0\<rparr>"

fun tally_outputs :: "'e os \<Rightarrow> string list \<Rightarrow> tally \<Rightarrow> ('e, tally) io" where
  "tally_outputs os [] t = io_return t"
| "tally_outputs os (path # paths) t =
     io_bind (sys_bool os (Path_exists path)) (\<lambda>exists.
       if exists then
         io_bind (parse_benchmark_json os path) (\<lambda>(valid, iters).
           if valid then
             tally_outputs os paths (t\<lparr>t_total_iterations := num_add (t_total_iterations t) iters,
               t_valid_json_files := t_valid_json_files t @ [path], t_success := t_success t + 1\<rparr>)
           else tally_outputs os paths (t\<lparr>t_failed := t_failed t + 1\<rparr>))
       else tally_outputs os paths (t\<lparr>t_failed := t_failed t + 1\<rparr>))"

text \<open>\<open>max(0.0, x)\<close>: the first argument unless the second is larger.\<close>

definition clamp_zero :: "pynum \<Rightarrow> pynum" where
  "clamp_zero x = (if num_lt (PFlt 0) x then x else PFlt 0)"

definition throughput :: "pynum \<Rightarrow> pynum \<Rightarrow> pynum py" where
  "throughput real_bytes elapsed_s =
     (if num_lt (PInt 0) elapsed_s then
        res_bind (num_div real_bytes (PInt (1024 * 1024))) (\<lambda>mib. num_div mib elapsed_s)
      else Inr (PFlt 0))"

definition case_result ::
    "pynum \<Rightarrow> string \<Rightarrow> int \<Rightarrow> int \<Rightarrow> int \<Rightarrow> int \<Rightarrow> pynum \<Rightarrow> pynum \<Rightarrow> pynum \<Rightarrow> tally \<Rightarrow> bench_result py" where
  "case_result idle compiler server_threads num_benches repetition port elapsed_s energy_j_raw real_bytes t =
     (let elapsed_ms = num_mul elapsed_s (PFlt 1000);
          idle_energy = num_mul idle elapsed_s;
          energy_net = clamp_zero (num_sub energy_j_raw idle_energy)
      in res_bind (throughput real_bytes elapsed_s) (\<lambda>throughput_mib_s.
         res_bind (if 0 < t_success t then num_div (t_total_iterations t) (PInt (t_success t))
                   else Inr (PFlt 0)) (\<lambda>downloads.
         Inr \<lparr>br_compiler = compiler, br_port = port, br_server_threads = server_threads,
           br_parallel_bench_processes = num_benches, br_repetition = repetition,
           br_success = t_success t, br_failed = t_failed t,
           br_total_iterations = t_total_iterations t, br_downloads_per_process = downloads,
           br_elapsed_s = elapsed_s, br_elapsed_ms = elapsed_ms, br_idle_power_w = idle,
           br_energy_j_raw = energy_j_raw, br_idle_energy_j_estimated = idle_energy,
           br_energy_j = energy_net, br_real_transferred_bytes = real_bytes,
           br_throughput_mib_s = throughput_mib_s,
           br_benchmark_json_files = t_valid_json_files t\<rparr>)))"

text \<open>The measured part, common to all copies: energy, clock, processes, clock, energy.\<close>

definition measured_run ::
    "'e os \<Rightarrow> bench_config \<Rightarrow> string \<Rightarrow> int \<Rightarrow> int \<Rightarrow> int \<Rightarrow> int \<Rightarrow> ('e, string list \<times> pynum \<times> pynum) io" where
  "measured_run os cfg compiler server_threads num_benches repetition port =
     io_bind (read_energy os cfg) (\<lambda>e1.
     io_bind (sys_clock os) (\<lambda>t1.
     io_bind (run_instances os
         (\<lambda>i. start_bench_instance os cfg compiler server_threads num_benches repetition i port)
         num_benches) (\<lambda>processes.
     io_bind (sys_clock os) (\<lambda>t2.
     io_bind (read_energy os cfg) (\<lambda>e2.
     io_bind (energy_delta_j os cfg e1 e2) (\<lambda>energy_j_raw.
     io_return (map (\<lambda>(_, out_json, _). out_json) processes, num_sub t2 t1, energy_j_raw)))))))"

definition run_macro_bench_case ::
    "'e os \<Rightarrow> bench_config \<Rightarrow> pynum \<Rightarrow> string \<Rightarrow> int \<Rightarrow> int \<Rightarrow> int \<Rightarrow> int \<Rightarrow> int \<Rightarrow> ('e, bench_result) io" where
  "run_macro_bench_case os cfg idle compiler server_threads num_benches repetition file_size_bytes port =
     io_bind (measured_run os cfg compiler server_threads num_benches repetition port)
       (\<lambda>(outputs, elapsed_s, energy_j_raw).
     io_bind (tally_outputs os outputs tally_start) (\<lambda>t.
       io_of (case_result idle compiler server_threads num_benches repetition port elapsed_s energy_j_raw
         (num_mul (t_total_iterations t) (PInt file_size_bytes)) t)))"

section \<open>Parsing: what a report counts as\<close>

lemma never_None_cases:
  "except_Exception m h w = (Inr x, w') \<Longrightarrow>
   m w = (Inr x, w') \<or> (\<exists>e w1. m w = (Inl e, w1) \<and> is_Exception e \<and> h w1 = (Inr x, w'))"
  by (auto simp: except_Exception_def io_defs split: prod.splits sum.splits if_splits)

lemma count_iterations_range:
  "count_iterations es acc = Inr (b, n) \<Longrightarrow> if b then 0 < num_val n else n = PInt 0"
  by (induction es arbitrary: acc) (auto simp: res_bind_eq_Inr split: if_splits)

lemma parse_result:
  assumes "parse_benchmark_json os path w = (Inr (b, n), w')"
  shows "if b then 0 < num_val n else n = PInt 0"
  using never_None_cases [OF assms [unfolded parse_benchmark_json_def]] count_iterations_range
  by (auto simp: io_defs parse_data_def res_bind_eq_Inr split: prod.splits sum.splits if_splits)

text \<open>The fields of a report entry, as Google Benchmark writes them.\<close>

definition entry_failed :: "pydict \<Rightarrow> bool" where
  "entry_failed e = (case dict_get e ''error_occurred'' of None \<Rightarrow> False | Some v \<Rightarrow> truthy v)"

definition entry_iterations :: "pydict \<Rightarrow> int" where
  "entry_iterations e =
     (if dict_get e ''run_type'' = Some (VStr ''iteration'')
      then (case dict_get e ''iterations'' of Some (VNum (PInt n)) \<Rightarrow> n | _ \<Rightarrow> 0) else 0)"

definition entry_ok :: "pydict \<Rightarrow> bool" where
  "entry_ok e = (case dict_get e ''iterations'' of None \<Rightarrow> True | Some (VNum (PInt n)) \<Rightarrow> True | _ \<Rightarrow> False)"

lemma count_iterations_entries:
  "\<forall>e\<in>set es. entry_ok e \<Longrightarrow>
   count_iterations (map VDict es) (PInt a) =
     Inr (if (\<exists>e\<in>set es. entry_failed e) \<or> a + sum_list (map entry_iterations es) \<le> 0 then (False, PInt 0)
          else (True, PInt (a + sum_list (map entry_iterations es))))"
proof (induction es arbitrary: a)
  case (Cons e es)
  have IH: "count_iterations (map VDict es) (PInt b) =
     Inr (if (\<exists>e\<in>set es. entry_failed e) \<or> b + sum_list (map entry_iterations es) \<le> 0 then (False, PInt 0)
          else (True, PInt (b + sum_list (map entry_iterations es))))" for b
    using Cons by simp
  have step: "count_iterations (map VDict (e # es)) (PInt a) =
     (if entry_failed e then Inr (False, PInt 0)
      else count_iterations (map VDict es) (PInt (a + entry_iterations e)))"
    using Cons.prems
    by (auto simp: entry_failed_def entry_iterations_def entry_ok_def
        split: option.splits pyval.splits pynum.splits)
  show ?case unfolding step IH by (simp add: add.assoc)
qed simp

text \<open>
  Claim C23. A report whose entries carry integer iteration counts is valid exactly when no
  entry reports an error and the \<open>iteration\<close> entries add up to more than zero; its value is
  then that sum, in which aggregate entries do not count.
\<close>

theorem parse_benchmark_json_correct:
  assumes "os_json os (Load_json path) (w_env w) = (Inr (VDict d), e)"
    and "dict_get d ''benchmarks'' = Some (VList (map VDict entries))"
    and "\<forall>x\<in>set entries. entry_ok x"
  shows "fst (parse_benchmark_json os path w) =
    Inr (if (\<exists>x\<in>set entries. entry_failed x) \<or> sum_list (map entry_iterations entries) \<le> 0
         then (False, PInt 0) else (True, PInt (sum_list (map entry_iterations entries))))"
  using count_iterations_entries [OF assms(3), of 0] assms(1,2)
  by (simp add: parse_benchmark_json_def parse_data_def sys_json_def io_defs)

definition sample_report :: pyval where
  "sample_report = VDict [(''context'', VDict []), (''benchmarks'', VList
     [VDict [(''run_type'', VStr ''iteration''), (''iterations'', VNum (PInt 12))],
      VDict [(''run_type'', VStr ''aggregate''), (''iterations'', VNum (PInt 3))],
      VDict [(''run_type'', VStr ''iteration''), (''iterations'', VNum (PInt 30))]])]"

theorem parse_benchmark_json_correct_witness:
  "fst (parse_benchmark_json sim_os ''out.json''
     (sim_world (sim_start\<lparr>s_json := [(''out.json'', sample_report)]\<rparr>) [])) = Inr (True, PInt 42)"
proof -
  let ?w = "sim_world (sim_start\<lparr>s_json := [(''out.json'', sample_report)]\<rparr>) []"
  let ?es = "[[(''run_type'', VStr ''iteration''), (''iterations'', VNum (PInt 12))],
      [(''run_type'', VStr ''aggregate''), (''iterations'', VNum (PInt 3))],
      [(''run_type'', VStr ''iteration''), (''iterations'', VNum (PInt 30))]]"
  have j: "os_json sim_os (Load_json ''out.json'') (w_env ?w) =
      (Inr (VDict [(''context'', VDict []), (''benchmarks'', VList (map VDict ?es))]), w_env ?w)"
    by (simp add: sample_report_def)
  have "fst (parse_benchmark_json sim_os ''out.json'' ?w) =
    Inr (if (\<exists>x\<in>set ?es. entry_failed x) \<or> sum_list (map entry_iterations ?es) \<le> 0
         then (False, PInt 0) else (True, PInt (sum_list (map entry_iterations ?es))))"
    by (rule parse_benchmark_json_correct [OF j]) (simp_all add: entry_ok_def)
  then show ?thesis by (simp add: entry_failed_def entry_iterations_def)
qed

section \<open>Output files\<close>

text \<open>
  Claim C25. Two benchmark processes of a campaign never share an output file: the path
  determines compiler, thread count, clients, repetition and process index.
\<close>

theorem micro_json_path_injective:
  assumes "set c \<inter> {CHR ''_'', CHR ''/''} = {}" "set c' \<inter> {CHR ''_'', CHR ''/''} = {}"
  shows "get_micro_json_path cfg c t n r i = get_micro_json_path cfg c' t' n' r' i'
    \<longleftrightarrow> c = c' \<and> t = t' \<and> n = n' \<and> r = r' \<and> i = i'"
proof -
  have no: "CHR ''_'' \<notin> set c" "CHR ''_'' \<notin> set c'" "CHR ''/'' \<notin> set c" "CHR ''/'' \<notin> set c'"
    using assms by auto
  have "get_micro_json_path cfg c t n r i = get_micro_json_path cfg c' t' n' r' i'
      \<longleftrightarrow> run_stem c t n r i @ ''.json'' = run_stem c' t' n' r' i' @ ''.json''"
    unfolding get_micro_json_path_def
    by (subst path_join_inj) (auto simp: run_stem_def no show_int_no_sep)
  then show ?thesis
    using no by (auto simp: run_stem_def split_field show_int_no_sep show_int_inj)
qed

theorem micro_json_path_injective_witness:
  "distinct [get_micro_json_path (asio_config ''/r'') ''gcc'' 1 2 1 0,
     get_micro_json_path (asio_config ''/r'') ''gcc'' 1 2 1 1,
     get_micro_json_path (asio_config ''/r'') ''gcc'' 12 1 1 1,
     get_micro_json_path (asio_config ''/r'') ''clang'' 1 2 1 1]"
  by (simp add: micro_json_path_injective)

section \<open>The measurement record\<close>

lemma tally_account:
  "tally_outputs os paths t w = (Inr t', w') \<Longrightarrow>
   t_success t' + t_failed t' = t_success t + t_failed t + int (length paths)
   \<and> (\<exists>ys. t_valid_json_files t' = t_valid_json_files t @ ys \<and> subseq ys paths
        \<and> t_success t' = t_success t + int (length ys)
        \<and> (ys = [] \<longrightarrow> t_total_iterations t' = t_total_iterations t))"
proof (induction paths arbitrary: t w)
  case Nil
  then show ?case by (simp add: io_defs)
next
  case (Cons path paths)
  let ?ok = "\<lambda>iters. t\<lparr>t_total_iterations := num_add (t_total_iterations t) iters,
      t_valid_json_files := t_valid_json_files t @ [path], t_success := t_success t + 1\<rparr>"
  let ?bad = "t\<lparr>t_failed := t_failed t + 1\<rparr>"
  have "\<exists>w1. (\<exists>n. tally_outputs os paths (?ok n) w1 = (Inr t', w')) \<or> tally_outputs os paths ?bad w1 = (Inr t', w')"
    using Cons.prems by (auto simp: io_defs split: prod.splits sum.splits if_splits)
  then consider n w1 where "tally_outputs os paths (?ok n) w1 = (Inr t', w')"
    | w1 where "tally_outputs os paths ?bad w1 = (Inr t', w')"
    by blast
  then show ?case
  proof cases
    case 1
    from Cons.IH [OF this] obtain ys where ys: "t_valid_json_files t' = t_valid_json_files t @ path # ys"
      "subseq ys paths" "t_success t' = t_success t + 1 + int (length ys)"
      "t_success t' + t_failed t' = t_success t + 1 + t_failed t + int (length paths)"
      by auto
    then show ?thesis by (intro conjI exI [of _ "path # ys"]) auto
  next
    case 2
    from Cons.IH [OF this] obtain ys where ys: "t_valid_json_files t' = t_valid_json_files t @ ys"
      "subseq ys paths" "t_success t' = t_success t + int (length ys)"
      "t_success t' + t_failed t' = t_success t + (t_failed t + 1) + int (length paths)"
      "ys = [] \<longrightarrow> t_total_iterations t' = t_total_iterations t"
      by auto
    then show ?thesis by (intro conjI exI [of _ ys]) auto
  qed
qed

text \<open>
  What one output file counts as: the verdict of the parser on it, and no valid report where
  there is no file.  The tally of a run is the account of these verdicts, taken in order.
\<close>

definition output_verdict :: "'e os \<Rightarrow> string \<Rightarrow> ('e, bool \<times> pynum) io" where
  "output_verdict os path =
     io_bind (sys_bool os (Path_exists path)) (\<lambda>found.
       if found then parse_benchmark_json os path else io_return (False, PInt 0))"

definition valid_outputs :: "string list \<Rightarrow> (bool \<times> pynum) list \<Rightarrow> string list" where
  "valid_outputs paths vs = map fst (filter (\<lambda>(_, valid, _). valid) (zip paths vs))"

definition verdict_sum :: "pynum \<Rightarrow> (bool \<times> pynum) list \<Rightarrow> pynum" where
  "verdict_sum acc vs = fold (\<lambda>(_, iters) sum. num_add sum iters) (filter fst vs) acc"

lemma tally_verdicts:
  "tally_outputs os paths t w = (Inr t', w') \<Longrightarrow>
   \<exists>vs. io_map (output_verdict os) paths w = (Inr vs, w')
     \<and> t_valid_json_files t' = t_valid_json_files t @ valid_outputs paths vs
     \<and> t_success t' = t_success t + int (length (filter fst vs))
     \<and> t_failed t' = t_failed t + int (length (filter (\<lambda>v. \<not> fst v) vs))
     \<and> t_total_iterations t' = verdict_sum (t_total_iterations t) vs"
proof (induction paths arbitrary: t w)
  case Nil
  then show ?case by (auto simp: io_defs valid_outputs_def verdict_sum_def)
next
  case (Cons path paths)
  let ?next = "\<lambda>v. if fst v then t\<lparr>t_total_iterations := num_add (t_total_iterations t) (snd v),
      t_valid_json_files := t_valid_json_files t @ [path], t_success := t_success t + 1\<rparr>
    else t\<lparr>t_failed := t_failed t + 1\<rparr>"
  have "\<exists>v w1. output_verdict os path w = (Inr v, w1) \<and> tally_outputs os paths (?next v) w1 = (Inr t', w')"
    using Cons.prems by (auto simp: output_verdict_def io_defs split: prod.splits sum.splits if_splits)
  then obtain v w1 where v: "output_verdict os path w = (Inr v, w1)"
    "tally_outputs os paths (?next v) w1 = (Inr t', w')" by blast
  from Cons.IH [OF v(2)] obtain vs where vs: "io_map (output_verdict os) paths w1 = (Inr vs, w')"
    "t_valid_json_files t' = t_valid_json_files (?next v) @ valid_outputs paths vs"
    "t_success t' = t_success (?next v) + int (length (filter fst vs))"
    "t_failed t' = t_failed (?next v) + int (length (filter (\<lambda>v. \<not> fst v) vs))"
    "t_total_iterations t' = verdict_sum (t_total_iterations (?next v)) vs" by blast
  have "io_map (output_verdict os) (path # paths) w = (Inr (v # vs), w')"
    using v(1) vs(1) by (simp add: io_bind_def io_return_def)
  with vs(2-5) show ?case
    by (intro exI [of _ "v # vs"]) (auto simp: valid_outputs_def verdict_sum_def split: prod.splits if_splits)
qed

lemma start_instances_outputs:
  assumes "\<And>i w p w'. start i w = (Inr p, w') \<Longrightarrow> out p = g i"
  shows "start_instances start is ps w = (Inr (qs, None), w') \<Longrightarrow>
    \<exists>rs. qs = ps @ rs \<and> map out rs = map g is"
proof (induction "is" arbitrary: ps w)
  case (Cons i "is")
  then obtain p w1 where p: "start i w = (Inr p, w1)" "start_instances start is (ps @ [p]) w1 = (Inr (qs, None), w')"
    by (auto split: prod.splits sum.splits)
  with Cons.IH [OF p(2)] assms [OF p(1)] show ?case by auto
qed auto

lemma start_bench_instance_output:
  "start_bench_instance os cfg c t n r i port w = (Inr p, w') \<Longrightarrow>
   fst (snd p) = get_micro_json_path cfg c t n r i"
  by (auto simp: start_bench_instance_def io_defs Let_def split: prod.splits sum.splits if_splits)

lemma run_instances_started:
  "run_instances os start n w = (Inr ps, w') \<Longrightarrow>
   \<exists>w1. start_instances start [0..n - 1] [] w = (Inr (ps, None), w1)"
  by (auto simp: run_instances_def io_defs split: prod.splits sum.splits option.splits if_splits)

lemma measured_run_outputs:
  assumes "measured_run os cfg c t n r port w = (Inr (outputs, elapsed, raw), w')"
  shows "outputs = map (get_micro_json_path cfg c t n r) [0..n - 1]"
proof -
  obtain ps w1 w2 where run: "run_instances os (\<lambda>i. start_bench_instance os cfg c t n r i port) n w1 = (Inr ps, w2)"
    "outputs = map (\<lambda>(_, out_json, _). out_json) ps"
    using assms by (auto simp: measured_run_def io_defs split: prod.splits sum.splits)
  from run_instances_started [OF this(1)] obtain w3 where
    "start_instances (\<lambda>i. start_bench_instance os cfg c t n r i port) [0..n - 1] [] w1 = (Inr (ps, None), w3)"
    by blast
  from start_instances_outputs [where out = "\<lambda>p. fst (snd p)" and g = "get_micro_json_path cfg c t n r", OF _ this]
  have "map (\<lambda>p. fst (snd p)) ps = map (get_micro_json_path cfg c t n r) [0..n - 1]"
    using start_bench_instance_output by fastforce
  then show ?thesis by (simp add: run(2) case_prod_beta')
qed

lemma run_case_parts:
  assumes "run_macro_bench_case os cfg idle c st n rep file_size port w = (Inr r, w')"
  obtains outputs elapsed raw w1 t where
    "measured_run os cfg c st n rep port w = (Inr (outputs, elapsed, raw), w1)"
    "tally_outputs os outputs tally_start w1 = (Inr t, w')"
    "case_result idle c st n rep port elapsed raw (num_mul (t_total_iterations t) (PInt file_size)) t = Inr r"
  using assms by (auto simp: run_macro_bench_case_def io_defs split: prod.splits sum.splits)

lemma case_result_fields:
  "case_result idle c st n rep port elapsed raw bytes t = Inr r \<Longrightarrow>
   br_compiler r = c \<and> br_port r = port \<and> br_server_threads r = st \<and> br_parallel_bench_processes r = n
   \<and> br_repetition r = rep \<and> br_success r = t_success t \<and> br_failed r = t_failed t
   \<and> br_total_iterations r = t_total_iterations t \<and> br_benchmark_json_files r = t_valid_json_files t
   \<and> br_elapsed_s r = elapsed \<and> br_energy_j_raw r = raw \<and> br_real_transferred_bytes r = bytes
   \<and> br_idle_energy_j_estimated r = num_mul idle elapsed \<and> br_idle_power_w r = idle
   \<and> br_energy_j r = clamp_zero (num_sub raw (num_mul idle elapsed))
   \<and> br_elapsed_ms r = num_mul elapsed (PFlt 1000)
   \<and> throughput bytes elapsed = Inr (br_throughput_mib_s r)"
  by (auto simp: case_result_def Let_def res_bind_eq_Inr)

text \<open>
  Claim C14. Accounting of a run: the outputs of all \<open>num_benches\<close> processes are examined in
  process order after the measured part; the listed files are exactly the outputs that exist
  and hold a valid report, the successes and failures count the valid and the other outputs,
  and the iterations (so the transferred bytes and the downloads per process) are those of
  the valid reports; without a success nothing was transferred and the throughput is zero;
  the record carries the parameters of the run.
\<close>

theorem run_case_accounting:
  assumes "run_macro_bench_case os cfg idle c st n rep file_size port w = (Inr r, w')"
  shows "\<exists>elapsed raw w1 verdicts.
      measured_run os cfg c st n rep port w =
        (Inr (map (get_micro_json_path cfg c st n rep) [0..n - 1], elapsed, raw), w1)
    \<and> io_map (output_verdict os) (map (get_micro_json_path cfg c st n rep) [0..n - 1]) w1 = (Inr verdicts, w')
    \<and> br_benchmark_json_files r = valid_outputs (map (get_micro_json_path cfg c st n rep) [0..n - 1]) verdicts
    \<and> br_success r = int (length (filter fst verdicts))
    \<and> br_failed r = int (length (filter (\<lambda>v. \<not> fst v) verdicts))
    \<and> br_success r + br_failed r = max 0 n
    \<and> br_total_iterations r = verdict_sum (PInt 0) verdicts
    \<and> br_real_transferred_bytes r = num_mul (br_total_iterations r) (PInt file_size)
    \<and> (0 < br_success r \<longrightarrow>
        num_div (br_total_iterations r) (PInt (br_success r)) = Inr (br_downloads_per_process r))
    \<and> (br_success r = 0 \<longrightarrow> br_total_iterations r = PInt 0 \<and> br_real_transferred_bytes r = PInt 0
        \<and> br_throughput_mib_s r = PFlt 0 \<and> br_downloads_per_process r = PFlt 0)
    \<and> br_elapsed_s r = elapsed \<and> br_energy_j_raw r = raw
    \<and> br_compiler r = c \<and> br_server_threads r = st \<and> br_parallel_bench_processes r = n
    \<and> br_repetition r = rep \<and> br_port r = port \<and> br_idle_power_w r = idle"
proof -
  let ?paths = "map (get_micro_json_path cfg c st n rep) [0..n - 1]"
  obtain outputs elapsed raw w1 t where parts:
    "measured_run os cfg c st n rep port w = (Inr (outputs, elapsed, raw), w1)"
    "tally_outputs os outputs tally_start w1 = (Inr t, w')"
    "case_result idle c st n rep port elapsed raw (num_mul (t_total_iterations t) (PInt file_size)) t = Inr r"
    by (rule run_case_parts [OF assms])
  note fields = case_result_fields [OF parts(3)]
  have outs: "outputs = ?paths"
    by (rule measured_run_outputs [OF parts(1)])
  obtain vs where vs: "io_map (output_verdict os) ?paths w1 = (Inr vs, w')"
    "t_valid_json_files t = valid_outputs ?paths vs" "t_success t = int (length (filter fst vs))"
    "t_failed t = int (length (filter (\<lambda>v. \<not> fst v) vs))" "t_total_iterations t = verdict_sum (PInt 0) vs"
    using tally_verdicts [OF parts(2)] by (auto simp: tally_start_def outs)
  have total: "t_success t + t_failed t = int (length ?paths)"
    using tally_account [OF parts(2)] by (simp add: tally_start_def outs)
  have zero: "throughput (PInt 0) e = Inr q \<Longrightarrow> q = PFlt 0" for e q
    by (cases e) (auto simp: throughput_def num_lt_def split: if_splits)
  have none: "t_success t = 0 \<Longrightarrow> t_total_iterations t = PInt 0"
    using vs(3,5) by (simp add: verdict_sum_def)
  have downloads: "(if 0 < t_success t then num_div (t_total_iterations t) (PInt (t_success t))
      else Inr (PFlt 0)) = Inr (br_downloads_per_process r)"
    using parts(3) by (auto simp: case_result_def Let_def res_bind_eq_Inr simp del: num_div.simps)
  have "br_success r = 0 \<longrightarrow> br_total_iterations r = PInt 0 \<and> br_real_transferred_bytes r = PInt 0
      \<and> br_throughput_mib_s r = PFlt 0 \<and> br_downloads_per_process r = PFlt 0"
    using fields none zero downloads by auto
  moreover have "0 < br_success r \<longrightarrow>
      num_div (br_total_iterations r) (PInt (br_success r)) = Inr (br_downloads_per_process r)"
    using downloads fields by auto
  ultimately show ?thesis
    using fields vs total parts(1)
    by (intro exI [of _ elapsed] exI [of _ raw] exI [of _ w1] exI [of _ vs] conjI)
      (simp_all add: outs del: num_div.simps)
qed

section \<open>Energy and time\<close>

context frame
begin

lemma keeps_start_instances:
  "(\<And>i. keeps R (start i)) \<Longrightarrow> keeps R (start_instances start is ps)"
proof (induction "is" arbitrary: ps)
  case (Cons i "is")
  then show ?case
    unfolding keeps_def
    by (auto split: prod.splits sum.splits) (metis frame_trans snd_conv)+
qed (simp add: keeps_def frame_refl)

end

lemma clock_keeps_open: "clock_law os now \<Longrightarrow> keeps (later now) (sys_open os path)"
  by (auto simp: clock_law_def keeps_def later_def sys_open_def Let_def split: prod.splits sum.splits)
    (metis snd_conv)+

lemma later_close: "keeps (later now) (close_if_open fd)"
  by (auto simp: keeps_def later_def close_if_open_def sys_close_def split: option.splits)

lemma later_stop_bench:
  "clock_law os now \<Longrightarrow> keeps (later now) (stop_bench_process os proc)"
  unfolding stop_bench_process_def stop_process_def signal_group_def
  by (auto intro!: ck.keeps_rules clock_keeps)

lemma later_start_bench:
  "clock_law os now \<Longrightarrow> keeps (later now) (start_bench_instance os cfg c t n r i port)"
  unfolding start_bench_instance_def Let_def
  by (auto intro!: ck.keeps_rules clock_keeps clock_keeps_open)

lemma later_run_instances:
  assumes "clock_law os now"
  shows "keeps (later now)
    (run_instances os (\<lambda>i. start_bench_instance os cfg c t n r i port) n)"
  unfolding run_instances_def stop_and_close_def using assms
  by (auto split: prod.splits option.splits
      intro!: ck.keeps_rules clock_keeps later_close later_stop_bench later_start_bench ck.keeps_start_instances)

lemma later_read_energy: "clock_law os now \<Longrightarrow> keeps (later now) (read_energy os cfg)"
  unfolding read_energy_def read_int_file_def by (auto intro!: ck.keeps_rules clock_keeps)

lemma energy_delta_flt: "energy_delta_j os cfg e1 e2 w = (Inr x, w') \<Longrightarrow> \<exists>v. x = PFlt v \<and> rep64 v"
  by (auto simp: energy_delta_j_def io_defs rep64_b64 split: prod.splits sum.splits if_splits)

lemma measured_run_clock:
  assumes law: "clock_law os now"
    and run: "measured_run os cfg c st n rep port w = (Inr (outputs, elapsed, raw), w')"
  shows "\<exists>d v. elapsed = PFlt d \<and> 0 \<le> d \<and> raw = PFlt v \<and> rep64 v"
proof -
  obtain e1 w1 where r1: "read_energy os cfg w = (Inr e1, w1)"
    using run by (auto simp: measured_run_def io_bind_def split: prod.splits sum.splits)
  obtain w2 where t1: "sys_clock os w1 = (Inr (PFlt (now (w_env w1))), w2)" "now (w_env w1) \<le> now (w_env w2)"
    using clock_law_reading [OF law] by blast
  obtain ps w3 where ps: "run_instances os (\<lambda>i. start_bench_instance os cfg c st n rep i port) n w2 = (Inr ps, w3)"
    using run r1 t1 by (auto simp: measured_run_def io_bind_def split: prod.splits sum.splits)
  obtain w4 where t2: "sys_clock os w3 = (Inr (PFlt (now (w_env w3))), w4)"
    using clock_law_reading [OF law] by blast
  obtain e2 w5 where r2: "read_energy os cfg w4 = (Inr e2, w5)"
    using run r1 t1 ps t2 by (auto simp: measured_run_def io_bind_def split: prod.splits sum.splits)
  have res: "elapsed = PFlt (b64 (now (w_env w3) - now (w_env w1)))" "energy_delta_j os cfg e1 e2 w5 = (Inr raw, w')"
    using run r1 t1 ps t2 r2 by (auto simp: measured_run_def io_bind_def io_return_def split: prod.splits sum.splits)
  have "later now w2 w3" using keepsD [OF later_run_instances [OF law] ps] .
  then have "0 \<le> now (w_env w3) - now (w_env w1)" using t1(2) by (simp add: later_def)
  then have "0 \<le> b64 (now (w_env w3) - now (w_env w1))" by (rule dbl.rnd_nonneg)
  with res energy_delta_flt [OF res(2)] show ?thesis by blast
qed

lemma clamp_zero_val: "num_val (clamp_zero x) = max 0 (num_val x)"
  by (auto simp: clamp_zero_def num_lt_def max_def)

text \<open>
  Claim C24. With a monotonic clock and a non-negative idle power, the elapsed time and the idle share
  are not negative, and the net energy lies between zero and the raw energy (whenever the
  counter difference is not negative).
\<close>

theorem run_case_energy:
  assumes "clock_law os now" and "0 \<le> num_val idle"
    and "run_macro_bench_case os cfg idle c st n rep file_size port w = (Inr r, w')"
  shows "0 \<le> num_val (br_elapsed_s r) \<and> 0 \<le> num_val (br_elapsed_ms r)
    \<and> 0 \<le> num_val (br_idle_energy_j_estimated r)
    \<and> 0 \<le> num_val (br_energy_j r)
    \<and> (0 \<le> num_val (br_energy_j_raw r) \<longrightarrow> num_val (br_energy_j r) \<le> num_val (br_energy_j_raw r))"
proof -
  obtain outputs elapsed raw w1 t where parts:
    "measured_run os cfg c st n rep port w = (Inr (outputs, elapsed, raw), w1)"
    "case_result idle c st n rep port elapsed raw (num_mul (t_total_iterations t) (PInt file_size)) t = Inr r"
    by (rule run_case_parts [OF assms(3)])
  obtain d v where dv: "elapsed = PFlt d" "0 \<le> d" "raw = PFlt v" "rep64 v"
    using measured_run_clock [OF assms(1) parts(1)] by blast
  have idle: "0 \<le> to_flt idle" using assms(2) by (cases idle) (auto intro: dbl.rnd_nonneg)
  let ?i = "b64 (to_flt idle * d)"
  have i: "num_mul idle elapsed = PFlt ?i" by (simp add: dv)
  have i0: "0 \<le> ?i" using idle dv(2) by (intro dbl.rnd_nonneg) simp
  have "b64 (v - ?i) \<le> v" using dbl.rnd_sub_le [OF dv(4) i0] .
  moreover have "0 \<le> b64 (d * 1000)" using dv(2) by (intro dbl.rnd_nonneg) simp
  ultimately show ?thesis
    using case_result_fields [OF parts(2)] dv i i0 by (simp add: clamp_zero_val)
qed

text \<open>
  Claim C40. The throughput of a run is the exact quotient of transferred mebibytes and
  elapsed seconds rounded once: dividing by \<open>1024 * 1024\<close> first loses nothing.
\<close>

theorem throughput_single_rounding:
  assumes "\<bar>bytes\<bar> \<le> 2 ^ 53" "0 < seconds"
  shows "throughput (PInt bytes) (PFlt seconds) = Inr (PFlt (b64 (of_int bytes / 2 ^ 20 / seconds)))"
proof -
  have "rep64 (of_int bytes * 2 powi (- 20))" by (rule rep64I) (use assms in auto)
  moreover have "of_int bytes * 2 powi (- 20) = (of_int bytes / 1048576 :: rat)"
    by (simp add: power_int_def field_simps)
  ultimately have q: "b64 (of_int bytes / 1048576) = of_int bytes / 1048576" by (metis b64_rep)
  have "throughput (PInt bytes) (PFlt seconds) = Inr (PFlt (b64 (b64 (of_int bytes / 1048576) / seconds)))"
    using assms by (simp add: throughput_def num_lt_def)
  then show ?thesis by (simp only: q) simp
qed

theorem throughput_single_rounding_witness:
  "throughput (PInt 104857600) (PFlt 2) = Inr (PFlt 50)"
  using throughput_single_rounding [of 104857600 2] b64_int [of 50] by simp

text \<open>A simulated run of two processes with reports of 12 and 30 iterations.\<close>

definition bench_world :: "sim world" where
  "bench_world = sim_world (sim_start\<lparr>
     s_text := [(''./build-gcc/benchmarks/bench_tcp'', []),
                (''/sys/class/powercap/intel-rapl:0/energy_uj'', ''123456'')],
     s_json := [(''results/raw/micro_gcc_threads_1_2_1_0.json'', sample_report),
                (''results/raw/micro_gcc_threads_1_2_1_1.json'', VDict [])]\<rparr>) sim_ports"

lemma bench_world_run:
  "\<exists>r w'. run_macro_bench_case sim_os (asio_config ''/r'') (PFlt 1) ''gcc'' 1 2 1 104857600 8120 bench_world
      = (Inr r, w') \<and> br_success r = 1 \<and> br_total_iterations r = PInt 42 \<and> br_elapsed_s r = PFlt 2
        \<and> br_benchmark_json_files r = [''results/raw/micro_gcc_threads_1_2_1_0.json'']"
proof -
  let ?m = "run_macro_bench_case sim_os (asio_config ''/r'') (PFlt 1) ''gcc'' 1 2 1 104857600 8120 bench_world"
  have "(case fst ?m of Inl _ \<Rightarrow> False
     | Inr r \<Rightarrow> br_success r = 1 \<and> br_total_iterations r = PInt 42 \<and> br_elapsed_s r = PFlt 2
        \<and> br_benchmark_json_files r = [''results/raw/micro_gcc_threads_1_2_1_0.json''])"
    by code_simp
  then show ?thesis by (cases ?m) (auto split: sum.splits)
qed

theorem run_case_accounting_witness:
  "\<exists>r w' verdicts. run_macro_bench_case sim_os (asio_config ''/r'') (PFlt 1) ''gcc'' 1 2 1 104857600 8120 bench_world
      = (Inr r, w') \<and> br_failed r = 1 \<and> num_mul (PInt 42) (PInt 104857600) = br_real_transferred_bytes r
      \<and> num_div (PInt 42) (PInt 1) = Inr (br_downloads_per_process r)
      \<and> valid_outputs (map (get_micro_json_path (asio_config ''/r'') ''gcc'' 1 2 1) [0..1]) verdicts
          = [''results/raw/micro_gcc_threads_1_2_1_0.json'']
      \<and> verdict_sum (PInt 0) verdicts = PInt 42"
proof -
  obtain r w' where r: "run_macro_bench_case sim_os (asio_config ''/r'') (PFlt 1) ''gcc'' 1 2 1 104857600 8120 bench_world
      = (Inr r, w')" "br_success r = 1" "br_total_iterations r = PInt 42"
      "br_benchmark_json_files r = [''results/raw/micro_gcc_threads_1_2_1_0.json'']"
    using bench_world_run by blast
  from run_case_accounting [OF r(1)] r(2-4) show ?thesis
    by (intro exI [of _ r] exI [of _ w']) (auto simp: r(1))
qed

theorem run_case_energy_witness:
  "\<exists>r w'. run_macro_bench_case sim_os (asio_config ''/r'') (PFlt 1) ''gcc'' 1 2 1 104857600 8120 bench_world
      = (Inr r, w') \<and> 0 \<le> num_val (br_energy_j r)"
proof -
  obtain r w' where r: "run_macro_bench_case sim_os (asio_config ''/r'') (PFlt 1) ''gcc'' 1 2 1 104857600 8120 bench_world
      = (Inr r, w')"
    using bench_world_run by blast
  from run_case_energy [OF sim_clock_law _ r] r show ?thesis by auto
qed

section \<open>Interrupts\<close>

text \<open>
  A user interrupt may arrive at every call of the run, except at those that stop a benchmark
  process: a second interrupt during the handler is not considered.
\<close>

fun stopping_call :: "call \<Rightarrow> bool" where
  "stopping_call (Killpg pid s) = True"
| "stopping_call (Terminate pid) = True"
| "stopping_call (Kill pid) = True"
| "stopping_call (Wait pid (Some t)) = True"
| "stopping_call c = False"

definition handler_uninterrupted :: "'e os \<Rightarrow> bool" where
  "handler_uninterrupted os \<longleftrightarrow>
     (\<forall>c e x. stopping_call c \<and> fst (os_unit os c e) = Inl x \<longrightarrow> is_Exception x)
   \<and> (\<forall>pid e x. fst (os_int os (Getpgid pid) e) = Inl x \<longrightarrow> is_Exception x)"

text \<open>An action that raises \<open>Exception\<close>s only.\<close>

definition tame :: "('e, 'a) io \<Rightarrow> bool" where
  "tame m \<longleftrightarrow> (\<forall>w x. fst (m w) = Inl x \<longrightarrow> is_Exception x)"

lemma tameD: "tame m \<Longrightarrow> m w = (Inl x, w') \<Longrightarrow> is_Exception x"
  by (auto simp: tame_def dest: spec [of _ w])

lemma tame_return: "tame (io_return a)"
  by (simp add: tame_def io_defs)

lemma tame_raise: "is_Exception e \<Longrightarrow> tame (io_raise e)"
  by (simp add: tame_def io_defs)

lemma tame_of: "(\<And>e. r = Inl e \<Longrightarrow> is_Exception e) \<Longrightarrow> tame (io_of r)"
  by (simp add: tame_def io_defs)

lemma tame_bind: "tame m \<Longrightarrow> (\<And>a. tame (f a)) \<Longrightarrow> tame (io_bind m f)"
  by (auto simp: tame_def io_defs split: prod.splits sum.splits) (metis fst_conv)

lemma tame_then: "tame m \<Longrightarrow> tame n \<Longrightarrow> tame (io_then m n)"
  unfolding io_then_def by (rule tame_bind)

lemma tame_try: "tame m \<Longrightarrow> (\<And>e. is_Exception e \<Longrightarrow> tame (h e)) \<Longrightarrow> tame (io_try m h)"
  by (auto simp: tame_def io_defs split: prod.splits sum.splits) (metis fst_conv)

lemma tame_except: "tame m \<Longrightarrow> tame h \<Longrightarrow> tame (except_Exception m h)"
  unfolding except_Exception_def by (rule tame_try) auto

lemma tame_when: "tame m \<Longrightarrow> tame (io_when b m)"
  by (simp add: io_when_def tame_return)

lemmas tame_rules = tame_return tame_raise tame_of tame_bind tame_then tame_except tame_when

lemma tame_calls:
  assumes "handler_uninterrupted os"
  shows "stopping_call c \<Longrightarrow> tame (sys_unit os c)" "tame (sys_int os (Getpgid pid))" "tame (sys_bool os b)"
proof -
  show "tame (sys_unit os c)" if c: "stopping_call c"
    unfolding tame_def
  proof (intro allI impI)
    fix w x
    assume "fst (sys_unit os c w) = Inl x"
    then have "fst (os_unit os c (w_env w)) = Inl x" by (simp add: sys_unit_def split: prod.splits)
    with assms c show "is_Exception x" unfolding handler_uninterrupted_def by blast
  qed
  show "tame (sys_int os (Getpgid pid))"
    unfolding tame_def
  proof (intro allI impI)
    fix w x
    assume "fst (sys_int os (Getpgid pid) w) = Inl x"
    then have "fst (os_int os (Getpgid pid) (w_env w)) = Inl x" by (simp add: sys_int_def split: prod.splits)
    with assms show "is_Exception x" unfolding handler_uninterrupted_def by blast
  qed
qed (simp add: tame_def sys_bool_def split: prod.splits)

lemma parse_data_raises: "parse_data d = Inl e \<Longrightarrow> is_Exception e"
proof -
  have val: "val_get v k d = Inl e \<Longrightarrow> is_Exception e" for v k d e by (cases v) auto
  have iter: "val_iter v = Inl e \<Longrightarrow> is_Exception e" for v e by (cases v) auto
  have add: "val_add a v = Inl e \<Longrightarrow> is_Exception e" for a v e by (auto split: option.splits)
  have count: "count_iterations es acc = Inl e \<Longrightarrow> is_Exception e" for es acc e
    by (induction es arbitrary: acc)
      (auto simp: res_bind_eq_Inl simp del: val_get.simps val_add.simps split: if_splits dest: val add)
  show "parse_data d = Inl e \<Longrightarrow> is_Exception e"
    by (auto simp: parse_data_def res_bind_eq_Inl dest: val iter count)
qed

lemma tame_case_result:
  "tame (io_of (case_result idle c st n rep port elapsed raw bytes t))"
  by (rule tame_of)
    (auto simp: case_result_def throughput_def Let_def res_bind_eq_Inl num_div_error
      simp del: num_div.simps split: if_splits)

lemma start_instances_returns: "\<exists>qs f w'. start_instances start is ps w = (Inr (qs, f), w')"
  by (induction "is" arbitrary: ps w) (auto split: prod.splits sum.splits)

lemma stop_bench_frames:
  "keeps no_open (stop_bench_process os pid)" "keeps extends (stop_bench_process os pid)"
  unfolding stop_bench_process_def
  by (intro tr.keeps_rules op.keeps_rules stop_process_frames)+

lemma stop_bench_returns:
  assumes "handler_uninterrupted os"
  shows "\<exists>w'. stop_bench_process os pid w = (Inr (), w')"
proof -
  have sig: "tame (signal_group os pid s c)" if "stopping_call c" for s c
    unfolding signal_group_def using that
    by (intro tame_except tame_bind tame_return tame_calls [OF assms]) auto
  have "tame (stop_process os 3 pid)"
    unfolding stop_process_def
    by (intro tame_bind tame_calls [OF assms])
      (auto intro!: tame_return tame_then tame_try tame_except tame_raise sig tame_calls [OF assms])
  then have "is_Exception e" if "stop_process os 3 pid w = (Inl e, w1)" for e w1
    using that by (rule tameD)
  then show ?thesis
    by (auto simp: stop_bench_process_def except_Exception_def io_defs split: prod.splits sum.splits)
qed

text \<open>
  What has to happen to the started processes: they are stopped one after the other, and the
  error log of each is closed (unless it is closed already) before the next one is stopped;
  the waiting of an uninterrupted run.
\<close>

inductive stopped_in_turn :: "'e os \<Rightarrow> bench_proc list \<Rightarrow> 'e world \<Rightarrow> 'e world \<Rightarrow> bool" for os where
  stopped_Nil: "stopped_in_turn os [] w w"
| stopped_Cons: "stop_bench_process os pid w = (Inr (), w1) \<Longrightarrow> close_if_open (Some fd) w1 = (Inr (), w2) \<Longrightarrow>
    stopped_in_turn os ps w2 w' \<Longrightarrow> stopped_in_turn os ((pid, path, fd) # ps) w w'"

lemma stopped_closed: "stopped_in_turn os ps w w' \<Longrightarrow> no_open w w' \<and> (\<forall>(_, _, fd)\<in>set ps. is_closed fd w')"
proof (induction rule: stopped_in_turn.induct)
  case (stopped_Cons pid w w1 fd w2 ps w' path)
  have "is_closed fd w2" using close_closes(2) [of fd w1] stopped_Cons.hyps(2) by simp
  moreover have "no_open w w2"
    using keepsD [OF stop_bench_frames(1) stopped_Cons.hyps(1)] keepsD [OF close_frames(1) stopped_Cons.hyps(2)]
    by (rule op.frame_trans)
  ultimately have "no_open w w'" "is_closed fd w'"
    using stopped_Cons.IH by (blast intro: op.frame_trans closed_stays)+
  with stopped_Cons.IH show ?case by simp
qed (simp add: op.frame_refl)

lemma handler_stops:
  assumes "handler_uninterrupted os"
  shows "\<exists>w'. io_for ps (stop_and_close os) w = (Inr (), w') \<and> stopped_in_turn os ps w w'"
proof (induction ps arbitrary: w)
  case Nil
  then show ?case by (auto simp: io_defs intro: stopped_Nil)
next
  case (Cons p ps)
  obtain pid path fd where p: "p = (pid, path, fd)" by (cases p)
  obtain w1 where w1: "stop_bench_process os pid w = (Inr (), w1)"
    using stop_bench_returns [OF assms] by blast
  obtain w2 where w2: "close_if_open (Some fd) w1 = (Inr (), w2)"
    by (metis close_closes(1) prod.collapse)
  obtain w' where w': "io_for ps (stop_and_close os) w2 = (Inr (), w')" "stopped_in_turn os ps w2 w'"
    using Cons.IH by blast
  have "stop_and_close os p w = (Inr (), w2)"
    using w1 w2 by (simp add: stop_and_close_def p io_then_def io_bind_def)
  then have "io_for (p # ps) (stop_and_close os) w = (Inr (), w')"
    using w'(1) by (simp add: io_then_def io_bind_def)
  then show ?case unfolding p using stopped_Cons [OF w1 w2 w'(2)] by blast
qed

definition wait_all :: "'e os \<Rightarrow> bench_proc list \<Rightarrow> ('e, unit) io" where
  "wait_all os ps = io_for ps (\<lambda>(proc, _, err_file).
     io_then (sys_unit os (Wait proc None)) (close_if_open (Some err_file)))"

lemma wait_all_Cons:
  "wait_all os ((pid, path, fd) # ps) =
     io_then (io_then (sys_unit os (Wait pid None)) (close_if_open (Some fd))) (wait_all os ps)"
  by (simp add: wait_all_def)

lemma wait_all_frame: "keeps no_open (wait_all os ps)"
  unfolding wait_all_def
  by (auto intro!: op.keeps_rules sys_keeps close_frames split: prod.splits)

lemma wait_all_closed:
  "wait_all os ps w = (Inr (), w') \<Longrightarrow> \<forall>(_, _, fd)\<in>set ps. is_closed fd w'"
proof (induction ps arbitrary: w)
  case (Cons p ps)
  obtain pid path fd where p: "p = (pid, path, fd)" by (cases p)
  from Cons.prems obtain w1 w2 where w: "close_if_open (Some fd) w1 = (Inr (), w2)"
    "wait_all os ps w2 = (Inr (), w')"
    by (auto simp: p wait_all_Cons io_defs split: prod.splits sum.splits)
  have "is_closed fd w2" using close_closes(2) [of fd w1] w(1) by simp
  then have "is_closed fd w'" using keepsD [OF wait_all_frame w(2)] closed_stays by blast
  then show ?case using Cons.IH [OF w(2)] by (simp add: p)
qed simp

text \<open>The two ways in which the processes of a run are accounted for, from the world \<open>w\<close> after the start loop.\<close>

definition all_stopped :: "'e os \<Rightarrow> bench_proc list \<Rightarrow> exn option \<Rightarrow> 'e world \<Rightarrow> 'e world \<Rightarrow> bool" where
  "all_stopped os ps failure w w' \<longleftrightarrow>
     (\<exists>w2. (failure = Some KeyboardInterrupt \<and> w2 = w
            \<or> failure = None \<and> wait_all os ps w = (Inl KeyboardInterrupt, w2))
         \<and> stopped_in_turn os ps w2 w')"

definition all_awaited :: "'e os \<Rightarrow> bench_proc list \<Rightarrow> exn option \<Rightarrow> 'e world \<Rightarrow> 'e world \<Rightarrow> bool" where
  "all_awaited os ps failure w w' \<longleftrightarrow>
     failure = None \<and> (\<exists>w2. wait_all os ps w = (Inr (), w2) \<and> no_open w2 w' \<and> extends w2 w')"

lemma accounted_closed:
  "all_stopped os ps f w w' \<or> all_awaited os ps f w w' \<Longrightarrow> \<forall>(_, _, fd)\<in>set ps. is_closed fd w'"
  unfolding all_stopped_def all_awaited_def
  using stopped_closed wait_all_closed closed_stays by fastforce

lemma run_instances_step:
  assumes st: "start_instances start [0..n - 1] [] w = (Inr (ps, f), w1)"
  shows "run_instances os start n w =
    (case (case f of Some e \<Rightarrow> (Inl e, w1) | None \<Rightarrow> wait_all os ps w1) of
       (Inr _, w2) \<Rightarrow> (Inr ps, w2)
     | (Inl e, w2) \<Rightarrow> if e = KeyboardInterrupt
         then io_then (io_for ps (stop_and_close os)) (io_raise KeyboardInterrupt) w2
         else (Inl e, w2))"
  unfolding run_instances_def wait_all_def [symmetric] io_bind_def st
  by (cases f) (simp_all add: io_try_def io_raise_def io_then_def io_bind_def io_return_def split: prod.splits sum.splits)

lemma run_instances_interrupted:
  assumes law: "handler_uninterrupted os"
    and st: "start_instances start [0..n - 1] [] w = (Inr (ps, f), w1)"
    and run: "run_instances os start n w = (Inl KeyboardInterrupt, w')"
  shows "all_stopped os ps f w1 w'"
proof -
  obtain e w2 where w2: "(case f of Some e \<Rightarrow> (Inl e, w1) | None \<Rightarrow> wait_all os ps w1) = (Inl e, w2)"
    using run unfolding run_instances_step [OF st] by (auto split: sum.splits prod.splits)
  obtain w3 where w3: "io_for ps (stop_and_close os) w2 = (Inr (), w3)" "stopped_in_turn os ps w2 w3"
    using handler_stops [OF law] by blast
  have "e = KeyboardInterrupt \<and> w3 = w'"
    using run w3(1) unfolding run_instances_step [OF st] w2
    by (auto simp: io_then_def io_bind_def io_raise_def split: if_splits)
  then show ?thesis
    using w2 w3(2) unfolding all_stopped_def by (cases f) auto
qed

lemma run_instances_awaited:
  assumes st: "start_instances start [0..n - 1] [] w = (Inr (ps, f), w1)"
    and run: "run_instances os start n w = (Inr qs, w2)"
  shows "f = None \<and> wait_all os ps w1 = (Inr (), w2)"
proof -
  have "(case f of Some e \<Rightarrow> (Inl e, w1) | None \<Rightarrow> wait_all os ps w1) = (Inr (), w2)"
    using run unfolding run_instances_step [OF st]
    by (auto simp: io_then_def io_bind_def io_raise_def split: if_splits sum.splits prod.splits)
  then show ?thesis by (cases f) auto
qed

lemma case_rest:
  assumes "read_energy os cfg w = (Inr e1, wa)" "sys_clock os wa = (Inr t1, w0)"
    "run_instances os (\<lambda>i. start_bench_instance os cfg c st n rep i port) n w0 = (Inr qs, w2)"
  shows "\<exists>m :: ('e, bench_result) io. keeps no_open m \<and> keeps extends m \<and>
    run_macro_bench_case os cfg idle c st n rep file_size port w = m w2"
proof -
  let ?m = "io_bind
     (io_bind (sys_clock os) (\<lambda>t2.
      io_bind (read_energy os cfg) (\<lambda>e2.
      io_bind (energy_delta_j os cfg e1 e2) (\<lambda>raw.
      io_return (map (\<lambda>(_, out_json, _). out_json) qs, num_sub t2 t1, raw)))))
     (\<lambda>(outputs, elapsed, raw). io_bind (tally_outputs os outputs tally_start) (\<lambda>t.
       io_of (case_result idle c st n rep port elapsed raw (num_mul (t_total_iterations t) (PInt file_size)) t)))"
  have parse: "keeps no_open (parse_benchmark_json os p)" "keeps extends (parse_benchmark_json os p)" for p
    unfolding parse_benchmark_json_def by (intro tr.keeps_rules op.keeps_rules sys_keeps)+
  have tally: "keeps no_open (tally_outputs os ps t)" "keeps extends (tally_outputs os ps t)" for ps t
    by (induction ps arbitrary: t) (auto intro!: tr.keeps_rules op.keeps_rules sys_keeps parse split: prod.splits)
  have energy: "keeps no_open (read_energy os cfg)" "keeps extends (read_energy os cfg)"
    "keeps no_open (energy_delta_j os cfg e1 e2)" "keeps extends (energy_delta_j os cfg e1 e2)" for e2
    unfolding read_energy_def energy_delta_j_def read_max_energy_def read_int_file_def
    by (auto intro!: tr.keeps_rules op.keeps_rules sys_keeps)
  have "keeps no_open ?m" "keeps extends ?m"
    by (auto intro!: tr.keeps_rules op.keeps_rules sys_keeps tally energy split: prod.splits)
  moreover have "run_macro_bench_case os cfg idle c st n rep file_size port w = ?m w2"
    unfolding run_macro_bench_case_def measured_run_def io_bind_def by (simp add: assms)
  ultimately show ?thesis by blast
qed

text \<open>
  Claim C7. When the user interrupts a run, at whatever call, every benchmark process that
  the start loop started is accounted for before the interrupt is passed on: either the
  interrupt came during the starting or the waiting, and the handler has then stopped each
  started process in turn, from the world in which the interrupt arrived, closing its error
  log; or it came later, when all of them had been waited for.  In both cases the error logs
  of all started processes are closed.  (An interrupt of the first energy reading comes
  before any process.)
\<close>

theorem interrupt_stops_benches:
  assumes law: "handler_uninterrupted os"
    and run: "run_macro_bench_case os cfg idle c st n rep file_size port w = (Inl KeyboardInterrupt, w')"
  shows "read_energy os cfg w = (Inl KeyboardInterrupt, w')
    \<or> (\<exists>e1 wa t1 w0 ps failure w1.
         read_energy os cfg w = (Inr e1, wa) \<and> sys_clock os wa = (Inr t1, w0)
       \<and> start_instances (\<lambda>i. start_bench_instance os cfg c st n rep i port) [0..n - 1] [] w0
           = (Inr (ps, failure), w1)
       \<and> (all_stopped os ps failure w1 w' \<or> all_awaited os ps failure w1 w')
       \<and> (\<forall>(_, _, fd)\<in>set ps. is_closed fd w'))"
proof -
  let ?start = "\<lambda>i. start_bench_instance os cfg c st n rep i port"
  obtain r wa where r: "read_energy os cfg w = (r, wa)" by fastforce
  show ?thesis
  proof (cases r)
    case (Inl e)
    then have "read_energy os cfg w = (Inl KeyboardInterrupt, w')"
      using run r by (simp add: run_macro_bench_case_def measured_run_def io_bind_def)
    then show ?thesis ..
  next
    case e1: (Inr e1)
    obtain t1 w0 where t1: "sys_clock os wa = (Inr t1, w0)"
      using sys_clock_cases by blast
    obtain ps f w1 where st: "start_instances ?start [0..n - 1] [] w0 = (Inr (ps, f), w1)"
      using start_instances_returns by blast
    have "all_stopped os ps f w1 w' \<or> all_awaited os ps f w1 w'"
    proof (cases "run_instances os ?start n w0")
      case (Pair q w2)
      show ?thesis
      proof (cases q)
        case (Inl e)
        then have "run_instances os ?start n w0 = (Inl KeyboardInterrupt, w')"
          using run r e1 t1 Pair by (simp add: run_macro_bench_case_def measured_run_def io_bind_def)
        then show ?thesis using run_instances_interrupted [OF law st] by blast
      next
        case (Inr qs)
        then obtain m :: "('a, bench_result) io" where m: "keeps no_open m" "keeps extends m"
          "run_macro_bench_case os cfg idle c st n rep file_size port w = m w2"
          using case_rest [OF r [unfolded e1] t1] Pair by blast
        have "m w2 = (Inl KeyboardInterrupt, w')" using m(3) run by simp
        from keepsD [OF m(1) this] keepsD [OF m(2) this] have "no_open w2 w'" "extends w2 w'" .
        then show ?thesis
          using run_instances_awaited [OF st] Pair Inr unfolding all_awaited_def by blast
      qed
    qed
    then show ?thesis
      using r e1 t1 st accounted_closed by blast
  qed
qed

text \<open>The simulated system with a user who interrupts the first wait.\<close>

definition interrupted_os :: "sim os" where
  "interrupted_os = sim_os\<lparr>os_unit := (\<lambda>c s. case c of
     Wait pid None \<Rightarrow> (Inl KeyboardInterrupt, s) | _ \<Rightarrow> sim_unit c s)\<rparr>"

lemma interrupted_os_law: "handler_uninterrupted interrupted_os"
proof -
  have "is_Exception x" if "stopping_call c" "fst (os_unit interrupted_os c e) = Inl x" for c e x
    using that by (cases c rule: stopping_call.cases) (auto simp: interrupted_os_def)
  then show ?thesis by (auto simp: handler_uninterrupted_def interrupted_os_def)
qed

fun is_killpg :: "call \<Rightarrow> bool" where
  "is_killpg (Killpg pid s) = True"
| "is_killpg c = False"

theorem interrupt_stops_benches_witness:
  "\<exists>w' e1 wa t1 w0 ps failure w1.
     run_macro_bench_case interrupted_os (asio_config ''/r'') (PFlt 1) ''gcc'' 1 2 1 104857600 8120 bench_world
      = (Inl KeyboardInterrupt, w') \<and> length (filter is_killpg (w_trace w')) = 2 \<and> w_open w' = []
   \<and> read_energy interrupted_os (asio_config ''/r'') bench_world = (Inr e1, wa)
   \<and> sys_clock interrupted_os wa = (Inr t1, w0)
   \<and> start_instances (\<lambda>i. start_bench_instance interrupted_os (asio_config ''/r'') ''gcc'' 1 2 1 i 8120) [0..2 - 1] [] w0
       = (Inr (ps, failure), w1)
   \<and> (all_stopped interrupted_os ps failure w1 w' \<or> all_awaited interrupted_os ps failure w1 w')
   \<and> (\<forall>(_, _, fd)\<in>set ps. is_closed fd w')"
proof -
  let ?m = "run_macro_bench_case interrupted_os (asio_config ''/r'') (PFlt 1) ''gcc'' 1 2 1 104857600 8120 bench_world"
  have run: "(case ?m of (Inl x, w') \<Rightarrow> x = KeyboardInterrupt
      \<and> length (filter is_killpg (w_trace w')) = 2 \<and> w_open w' = [] | (Inr _, _) \<Rightarrow> False)" by code_simp
  have read: "(case fst (read_energy interrupted_os (asio_config ''/r'') bench_world) of
      Inl _ \<Rightarrow> False | Inr _ \<Rightarrow> True)" by code_simp
  from run obtain w' where w': "?m = (Inl KeyboardInterrupt, w')"
    "length (filter is_killpg (w_trace w')) = 2" "w_open w' = []"
    by (cases ?m) (auto split: sum.splits)
  have no: "read_energy interrupted_os (asio_config ''/r'') bench_world \<noteq> (Inl KeyboardInterrupt, w')"
    using read by auto
  from interrupt_stops_benches [OF interrupted_os_law w'(1)] no w' show ?thesis by blast
qed

end
