(* ===== verification/Bench_Async.thy ===== *)
theory Bench_Async
  imports Bench
begin

text \<open>
  The copy of \<open>async-berkeley\<close>: \<open>parse_benchmark_json\<close> also reads the bytes each process
  says it downloaded, and \<open>run_macro_bench_case\<close> prefers them to the iteration count.  The
  rest of the script is the text of the other copies.  On the reports the benchmark
  binaries of the repository write the two versions are the same function.
\<close>

section \<open>parse_benchmark_json\<close>

fun count_downloads :: "pyval list \<Rightarrow> int \<Rightarrow> int \<Rightarrow> (bool \<times> int \<times> int) py" where
  "count_downloads [] iters bytes =
     Inr (if iters \<le> 0 \<and> bytes \<le> 0 then (False, 0, 0) else (True, iters, bytes))"
| "count_downloads (entry # entries) iters bytes =
     res_bind (val_get entry ''error_occurred'' (VBool False)) (\<lambda>err.
       if truthy err then Inr (False, 0, 0)
       else res_bind (val_get entry ''run_type'' VNone) (\<lambda>run_type.
         if run_type = VNone \<or> run_type = VStr ''iteration'' then
           res_bind (val_get entry ''iterations'' (VNum (PInt 0))) (\<lambda>v.
           res_bind (val_int v) (\<lambda>n.
           res_bind (val_has entry ''downloaded_bytes'') (\<lambda>present.
             if present then
               res_bind (val_get entry ''downloaded_bytes'' (VNum (PInt 0))) (\<lambda>d.
               res_bind (val_float d) (\<lambda>x. count_downloads entries (iters + n) (bytes + trunc x)))
             else count_downloads entries (iters + n) bytes)))
         else count_downloads entries iters bytes))"

definition parse_data_async :: "pyval \<Rightarrow> (bool \<times> int \<times> int) py" where
  "parse_data_async data =
     res_bind (val_get data ''benchmarks'' (VList [])) (\<lambda>bs.
     res_bind (val_iter bs) (\<lambda>entries. count_downloads entries 0 0))"

definition parse_benchmark_json_async :: "'e os \<Rightarrow> string \<Rightarrow> ('e, bool \<times> int \<times> int) io" where
  "parse_benchmark_json_async os path =
     except_Exception
       (io_bind (sys_json os (Load_json path)) (\<lambda>data. io_of (parse_data_async data)))
       (io_return (False, 0, 0))"

section \<open>run_macro_bench_case\<close>

record async_tally = tally + t_downloaded_bytes :: int

definition async_tally_start :: async_tally where
  "async_tally_start = \<lparr>t_total_iterations = PInt 0, t_valid_json_files = [], t_success = 0, t_failed = 0,
     t_downloaded_bytes = 0\<rparr>"

fun tally_async :: "'e os \<Rightarrow> string list \<Rightarrow> async_tally \<Rightarrow> ('e, async_tally) io" where
  "tally_async os [] t = io_return t"
| "tally_async os (path # paths) t =
     io_bind (sys_bool os (Path_exists path)) (\<lambda>exists.
       if exists then
         io_bind (parse_benchmark_json_async os path) (\<lambda>(valid, iters, bytes_downloaded).
           if valid then
             tally_async os paths (t\<lparr>t_total_iterations := num_add (t_total_iterations t) (PInt iters),
               t_downloaded_bytes := t_downloaded_bytes t + bytes_downloaded,
               t_valid_json_files := t_valid_json_files t @ [path], t_success := t_success t + 1\<rparr>)
           else tally_async os paths (t\<lparr>t_failed := t_failed t + 1\<rparr>))
       else tally_async os paths (t\<lparr>t_failed := t_failed t + 1\<rparr>))"

definition run_macro_bench_case_async ::
    "'e os \<Rightarrow> bench_config \<Rightarrow> pynum \<Rightarrow> string \<Rightarrow> int \<Rightarrow> int \<Rightarrow> int \<Rightarrow> int \<Rightarrow> int \<Rightarrow> ('e, bench_result) io" where
  "run_macro_bench_case_async os cfg idle compiler server_threads num_benches repetition file_size_bytes port =
     io_bind (measured_run os cfg compiler server_threads num_benches repetition port)
       (\<lambda>(outputs, elapsed_s, energy_j_raw).
     io_bind (tally_async os outputs async_tally_start) (\<lambda>t.
       let real_bytes = (if t_downloaded_bytes t \<le> 0
             then num_mul (t_total_iterations t) (PInt file_size_bytes) else PInt (t_downloaded_bytes t))
       in io_of (case_result idle compiler server_threads num_benches repetition port elapsed_s energy_j_raw
            real_bytes (tally.truncate t))))"

section \<open>Agreement with the other copies\<close>

text \<open>
  The entries the benchmark binaries write: an error, an aggregate, or a run of \<open>n\<close> downloads
  of the whole file (the binaries fix \<open>Iterations(1)\<close>).
\<close>

definition download_entry :: "int \<Rightarrow> pydict \<Rightarrow> bool" where
  "download_entry file_bytes e \<longleftrightarrow>
     entry_failed e
   \<or> (\<exists>s. dict_get e ''run_type'' = Some (VStr s) \<and> s \<noteq> ''iteration'')
   \<or> (dict_get e ''run_type'' = Some (VStr ''iteration'')
      \<and> (\<exists>n. dict_get e ''iterations'' = Some (VNum (PInt n)) \<and> 0 < n \<and> n * file_bytes \<le> 2 ^ 53
           \<and> dict_get e ''downloaded_bytes'' = Some (VNum (PFlt (of_int (n * file_bytes))))))"

definition download_report :: "int \<Rightarrow> pyval \<Rightarrow> bool" where
  "download_report file_bytes v \<longleftrightarrow>
     (\<exists>d es. v = VDict d \<and> dict_get d ''benchmarks'' = Some (VList (map VDict es))
        \<and> (\<forall>e\<in>set es. download_entry file_bytes e))"

lemma count_downloads_agree:
  assumes "0 < file_bytes"
  shows "0 \<le> a \<Longrightarrow> \<forall>e\<in>set es. download_entry file_bytes e \<Longrightarrow>
    (\<exists>n. count_iterations (map VDict es) (PInt a) = Inr (0 < n, PInt n) \<and> 0 \<le> n
       \<and> count_downloads (map VDict es) a (a * file_bytes) = Inr (0 < n, n, n * file_bytes))"
proof (induction es arbitrary: a)
  case Nil
  then show ?case
    using assms by (intro exI [of _ a]) (auto simp: mult_le_0_iff)
next
  case (Cons e es)
  have IH: "\<exists>n. count_iterations (map VDict es) (PInt b) = Inr (0 < n, PInt n) \<and> 0 \<le> n
       \<and> count_downloads (map VDict es) b (b * file_bytes) = Inr (0 < n, n, n * file_bytes)" if "0 \<le> b" for b
    using that Cons by simp
  consider "entry_failed e" | s where "\<not> entry_failed e" "dict_get e ''run_type'' = Some (VStr s)" "s \<noteq> ''iteration''"
    | n where "\<not> entry_failed e" "dict_get e ''run_type'' = Some (VStr ''iteration'')"
      "dict_get e ''iterations'' = Some (VNum (PInt n))" "0 < n"
      "dict_get e ''downloaded_bytes'' = Some (VNum (PFlt (of_int (n * file_bytes))))"
    using Cons.prems(2) by (auto simp: download_entry_def)
  then show ?case
  proof cases
    case 1
    then show ?thesis
      by (intro exI [of _ 0]) (auto simp: entry_failed_def split: option.splits)
  next
    case 2
    then have "\<not> (case dict_get e ''error_occurred'' of None \<Rightarrow> False | Some v \<Rightarrow> truthy v)"
      by (simp add: entry_failed_def)
    with 2 IH [OF Cons.prems(1)] show ?thesis by (auto split: option.splits)
  next
    case 3
    then have ok: "\<not> (case dict_get e ''error_occurred'' of None \<Rightarrow> False | Some v \<Rightarrow> truthy v)"
      by (simp add: entry_failed_def)
    have "count_downloads (map VDict (e # es)) a (a * file_bytes) =
        count_downloads (map VDict es) (a + n) ((a + n) * file_bytes)"
      using 3 ok by (auto simp: num_int_def algebra_simps simp flip: of_int_mult split: option.splits)
    moreover have "count_iterations (map VDict (e # es)) (PInt a) = count_iterations (map VDict es) (PInt (a + n))"
      using 3 ok by (auto split: option.splits)
    ultimately show ?thesis using IH [of "a + n"] Cons.prems(1) 3(4) by simp
  qed
qed

lemma parse_agree:
  assumes "0 < file_bytes"
    and "\<forall>p e v. fst (os_json os (Load_json p) e) = Inr v \<longrightarrow> download_report file_bytes v"
  shows "(\<exists>n w'. 0 \<le> n \<and> parse_benchmark_json os path w = (Inr (0 < n, PInt n), w')
      \<and> parse_benchmark_json_async os path w = (Inr (0 < n, n, n * file_bytes), w'))
    \<or> (\<exists>x w'. parse_benchmark_json os path w = (Inl x, w') \<and> parse_benchmark_json_async os path w = (Inl x, w'))"
proof (cases "os_json os (Load_json path) (w_env w)")
  case (Pair r e)
  show ?thesis
  proof (cases r)
    case (Inl x)
    show ?thesis
    proof (cases "is_Exception x")
      case True
      with Pair Inl show ?thesis
        by (intro disjI1 exI [of _ 0])
          (simp add: parse_benchmark_json_def parse_benchmark_json_async_def io_defs sys_json_def)
    next
      case False
      with Pair Inl show ?thesis
        by (intro disjI2) (simp add: parse_benchmark_json_def parse_benchmark_json_async_def io_defs sys_json_def)
    qed
  next
    case (Inr v)
    with Pair assms(2) have "download_report file_bytes v" by (metis fst_conv)
    then obtain d es where d: "v = VDict d" "dict_get d ''benchmarks'' = Some (VList (map VDict es))"
      "\<forall>e\<in>set es. download_entry file_bytes e" by (auto simp: download_report_def)
    obtain n where n: "0 \<le> n" "count_iterations (map VDict es) (PInt 0) = Inr (0 < n, PInt n)"
      "count_downloads (map VDict es) 0 0 = Inr (0 < n, n, n * file_bytes)"
      using count_downloads_agree [OF assms(1) order_refl d(3)] by auto
    with Pair Inr d show ?thesis
      by (intro disjI1 exI [of _ n])
        (simp add: parse_benchmark_json_def parse_benchmark_json_async_def io_defs sys_json_def
          parse_data_def parse_data_async_def)
  qed
qed

text \<open>The two tallies run in step; the bytes are the iterations times the file size.\<close>

definition tallies :: "int \<Rightarrow> tally \<Rightarrow> async_tally \<Rightarrow> bool" where
  "tallies file_bytes t u \<longleftrightarrow> t = tally.truncate u
     \<and> (\<exists>k. 0 \<le> k \<and> t_total_iterations t = PInt k \<and> t_downloaded_bytes u = k * file_bytes)"

lemma tallies_steps:
  assumes "tallies file_bytes t u"
  shows "tallies file_bytes (t\<lparr>t_failed := t_failed t + 1\<rparr>) (u\<lparr>t_failed := t_failed u + 1\<rparr>)"
    "0 \<le> n \<Longrightarrow> tallies file_bytes
      (t\<lparr>t_total_iterations := num_add (t_total_iterations t) (PInt n),
         t_valid_json_files := t_valid_json_files t @ [path], t_success := t_success t + 1\<rparr>)
      (u\<lparr>t_total_iterations := num_add (t_total_iterations u) (PInt n),
         t_downloaded_bytes := t_downloaded_bytes u + n * file_bytes,
         t_valid_json_files := t_valid_json_files u @ [path], t_success := t_success u + 1\<rparr>)"
  using assms by (auto simp: tallies_def tally.truncate_def algebra_simps intro: exI [of _ "_ + n"])

lemma tally_agree:
  assumes "0 < file_bytes"
    and "\<forall>p e v. fst (os_json os (Load_json p) e) = Inr v \<longrightarrow> download_report file_bytes v"
  shows "tallies file_bytes t u \<Longrightarrow>
    (\<exists>t' u' w'. tally_outputs os paths t w = (Inr t', w') \<and> tally_async os paths u w = (Inr u', w')
        \<and> tallies file_bytes t' u')
    \<or> (\<exists>x w'. tally_outputs os paths t w = (Inl x, w') \<and> tally_async os paths u w = (Inl x, w'))"
proof (induction paths arbitrary: t u w)
  case Nil
  then show ?case by (simp add: io_defs)
next
  case (Cons path paths)
  obtain b w1 where b: "sys_bool os (Path_exists path) w = (Inr b, w1)"
    using sys_bool_cases by blast
  show ?case
  proof (cases b)
    case False
    with b Cons.IH [OF tallies_steps(1) [OF Cons.prems]] show ?thesis by (simp add: io_bind_def)
  next
    case True
    from parse_agree [OF assms, of path w1] show ?thesis
    proof (elim disjE exE conjE)
      fix n w2
      assume p: "0 \<le> n" "parse_benchmark_json os path w1 = (Inr (0 < n, PInt n), w2)"
        "parse_benchmark_json_async os path w1 = (Inr (0 < n, n, n * file_bytes), w2)"
      show ?thesis
      proof (cases "0 < n")
        case True
        with b p \<open>b\<close> Cons.IH [OF tallies_steps(2) [OF Cons.prems p(1)]] show ?thesis
          by (simp add: io_bind_def)
      next
        case False
        with b p \<open>b\<close> Cons.IH [OF tallies_steps(1) [OF Cons.prems]] show ?thesis
          by (simp add: io_bind_def)
      qed
    next
      fix x w2
      assume "parse_benchmark_json os path w1 = (Inl x, w2)" "parse_benchmark_json_async os path w1 = (Inl x, w2)"
      with b True show ?thesis by (simp add: io_bind_def)
    qed
  qed
qed

text \<open>
  Claim C20. On reports in which every run downloaded whole files, the version of
  \<open>async-berkeley\<close>, which adds up reported bytes, and the version of the other five
  projects, which multiplies iterations by the file size, are the same function: same
  record, same calls, same errors.
\<close>

theorem async_case_agrees:
  assumes "0 < file_bytes"
    and "\<forall>p e v. fst (os_json os (Load_json p) e) = Inr v \<longrightarrow> download_report file_bytes v"
  shows "run_macro_bench_case_async os cfg idle c st n rep file_bytes port w
    = run_macro_bench_case os cfg idle c st n rep file_bytes port w"
proof (cases "measured_run os cfg c st n rep port w")
  case (Pair m w1)
  show ?thesis
  proof (cases m)
    case (Inl x)
    with Pair show ?thesis
      by (simp add: run_macro_bench_case_def run_macro_bench_case_async_def io_bind_def)
  next
    case (Inr v)
    obtain outputs el raw where v: "v = (outputs, el, raw)" by (cases v)
    have start: "tallies file_bytes tally_start async_tally_start"
      by (simp add: tallies_def tally_start_def async_tally_start_def tally.truncate_def)
    from tally_agree [OF assms start, of outputs w1] show ?thesis
    proof (elim disjE exE conjE)
      fix t u w2
      assume t: "tally_outputs os outputs tally_start w1 = (Inr t, w2)"
        "tally_async os outputs async_tally_start w1 = (Inr u, w2)" "tallies file_bytes t u"
      then obtain k where k: "t = tally.truncate u" "0 \<le> k" "t_total_iterations t = PInt k"
        "t_downloaded_bytes u = k * file_bytes" by (auto simp: tallies_def)
      have total: "t_total_iterations u = PInt k" using k(1,3) by (simp add: tally.truncate_def)
      have "(if t_downloaded_bytes u \<le> 0 then num_mul (t_total_iterations u) (PInt file_bytes)
          else PInt (t_downloaded_bytes u)) = num_mul (t_total_iterations t) (PInt file_bytes)"
        by (simp only: total k(3,4)) simp
      then show ?thesis
        using Pair Inr v t(1,2) k(1)
        by (simp add: run_macro_bench_case_def run_macro_bench_case_async_def io_bind_def)
    next
      fix x w2
      assume "tally_outputs os outputs tally_start w1 = (Inl x, w2)"
        "tally_async os outputs async_tally_start w1 = (Inl x, w2)"
      with Pair Inr v show ?thesis
        by (simp add: run_macro_bench_case_def run_macro_bench_case_async_def io_bind_def)
    qed
  qed
qed

text \<open>A system whose JSON files are all the report of one download of 100 MB.\<close>

definition download_os :: "sim os" where
  "download_os = sim_os\<lparr>os_json := (\<lambda>c s. (Inr (VDict [(''benchmarks'', VList
     [VDict [(''run_type'', VStr ''iteration''), (''iterations'', VNum (PInt 1)),
             (''downloaded_bytes'', VNum (PFlt 104857600))]])]), s))\<rparr>"

theorem async_case_agrees_witness:
  "run_macro_bench_case_async download_os (async_berkeley_config ''/r'') (PFlt 1) ''gcc'' 1 2 1 104857600 8120 bench_world
    = run_macro_bench_case download_os (async_berkeley_config ''/r'') (PFlt 1) ''gcc'' 1 2 1 104857600 8120 bench_world
   \<and> (\<exists>r. fst (run_macro_bench_case_async download_os (async_berkeley_config ''/r'') (PFlt 1) ''gcc'' 1 2 1 104857600 8120
        bench_world) = Inr r \<and> br_real_transferred_bytes r = PInt 209715200)"
proof (rule conjI)
  let ?e = "[(''run_type'', VStr ''iteration''), (''iterations'', VNum (PInt 1)),
             (''downloaded_bytes'', VNum (PFlt 104857600))]"
  have "download_entry 104857600 ?e"
    unfolding download_entry_def by (intro disjI2 conjI exI [of _ 1]) simp_all
  then have "download_report 104857600 (VDict [(''benchmarks'', VList [VDict ?e])])"
    by (simp add: download_report_def) (rule exI [of _ "[?e]"], simp)
  then have "\<forall>p e v. fst (os_json download_os (Load_json p) e) = Inr v \<longrightarrow> download_report 104857600 v"
    by (auto simp: download_os_def)
  then show "run_macro_bench_case_async download_os (async_berkeley_config ''/r'') (PFlt 1) ''gcc'' 1 2 1 104857600 8120 bench_world
    = run_macro_bench_case download_os (async_berkeley_config ''/r'') (PFlt 1) ''gcc'' 1 2 1 104857600 8120 bench_world"
    by (intro async_case_agrees) simp_all
  show "\<exists>r. fst (run_macro_bench_case_async download_os (async_berkeley_config ''/r'') (PFlt 1) ''gcc'' 1 2 1 104857600 8120
        bench_world) = Inr r \<and> br_real_transferred_bytes r = PInt 209715200"
    (is "\<exists>r. fst ?m = _ \<and> _")
  proof -
    have "(case fst ?m of Inl _ \<Rightarrow> False | Inr r \<Rightarrow> br_real_transferred_bytes r = PInt 209715200)"
      by code_simp
    then show ?thesis by (auto split: sum.splits)
  qed
qed

end
