(* ===== verification/Campaign.thy ===== *)
theory Campaign
  imports Bench_Async
begin

text \<open>
  The campaign of one compiler and thread count: start and await the server, run every case
  and repetition against it, and stop it (\<open>run_campaign_for_compiler_and_threads\<close> of
  \<open>scripts/run_bench.py\<close>), with the cache and cooling steps between cases.  The case runner
  is an interface: the version of \<open>async-berkeley\<close> and the one of the other copies both
  provide it.
\<close>

section \<open>Between cases\<close>

definition cache_trash_program :: string where
  "cache_trash_program =
     ''size_mb = int(__import__('os').environ['CASE_CACHE_MB']);''
     @ ''chunk = 1024 * 1024;''
     @ ''buf = bytearray(chunk);''
     @ ''acc = 0;''
     @ ''for i in range(size_mb):\<newline>''
     @ ''    for j in range(0, len(buf), 4096):\<newline>''
     @ ''        buf[j] = (i + j) & 0xFF;''
     @ ''        acc ^= buf[j];''
     @ ''print(acc)''"

text \<open>The script passes its whole environment on; the variable it adds is listed.\<close>

definition case_level_cache_trash :: "'e os \<Rightarrow> bench_config \<Rightarrow> ('e, unit) io" where
  "case_level_cache_trash os cfg =
     (if \<not> case_cache_trash_enabled cfg then io_return ()
      else
        io_then (log_msg cfg (''Case-level cache trashing best-effort (''
          @ show_int (case_cache_trash_size_mb cfg) @ '' MB)...''))
        (io_then (io_then (sys_str os (Run_env [(''CASE_CACHE_MB'', show_int (case_cache_trash_size_mb cfg))]
                    [os_executable os, ''-c'', cache_trash_program])) (io_return ()))
        (io_bind (if case_drop_caches cfg then sys_bool os (Access_w ''/proc/sys/vm/drop_caches'') else io_return False)
          (\<lambda>drop. io_when drop
            (io_then (log_msg cfg ''Dropping page cache (case-level best-effort)'')
            (io_then (io_then (sys_str os (Run [''sync''])) (io_return ()))
              (except_Exception (sys_unit os (Write_text ''/proc/sys/vm/drop_caches'' ''3\<newline>''))
                (io_return ()))))))))"

definition settle_between_cases :: "'e os \<Rightarrow> bench_config \<Rightarrow> ('e, unit) io" where
  "settle_between_cases os cfg =
     (if case_cooldown_seconds cfg \<le> 0 then io_return ()
      else io_then (log_msg cfg (''Cooling down between cases for ''
             @ show_int (case_cooldown_seconds cfg) @ '' seconds...''))
           (sys_unit os (Sleep (of_int (case_cooldown_seconds cfg)))))"

section \<open>The campaign\<close>

text \<open>A case runner takes compiler, threads, clients, repetition, file size and port.\<close>

type_synonym 'e case_runner = "string \<Rightarrow> int \<Rightarrow> int \<Rightarrow> int \<Rightarrow> int \<Rightarrow> int \<Rightarrow> ('e, bench_result) io"

definition run_repetition ::
    "bench_config \<Rightarrow> 'e case_runner \<Rightarrow> string \<Rightarrow> int \<Rightarrow> int \<Rightarrow> int \<Rightarrow> int \<Rightarrow> int \<Rightarrow> ('e, bench_result) io" where
  "run_repetition cfg run_case compiler server_threads benches file_size_bytes actual_port rep =
     io_then (log_msg cfg (''['' @ compiler @ ''][server_threads='' @ show_int server_threads
         @ ''] Running '' @ show_int benches @ '' parallel benchmark process(es) on port ''
         @ show_int actual_port @ ''...''))
       (run_case compiler server_threads benches rep file_size_bytes actual_port)"

definition run_case_series ::
    "'e os \<Rightarrow> bench_config \<Rightarrow> 'e case_runner \<Rightarrow> string \<Rightarrow> int \<Rightarrow> int \<Rightarrow> int \<Rightarrow> int \<Rightarrow> ('e, bench_result list) io" where
  "run_case_series os cfg run_case compiler server_threads file_size_bytes actual_port benches =
     io_then (case_level_cache_trash os cfg)
     (io_then (settle_between_cases os cfg)
     (io_map (run_repetition cfg run_case compiler server_threads benches file_size_bytes actual_port)
        [0..macro_repetitions cfg - 1]))"

definition run_cases ::
    "'e os \<Rightarrow> bench_config \<Rightarrow> 'e case_runner \<Rightarrow> string \<Rightarrow> int \<Rightarrow> int \<Rightarrow> int \<Rightarrow> ('e, bench_result list) io" where
  "run_cases os cfg run_case compiler server_threads file_size_bytes actual_port =
     io_bind (io_map (run_case_series os cfg run_case compiler server_threads file_size_bytes actual_port)
         (macro_bench_cases cfg))
       (\<lambda>results. io_return (concat results))"

definition run_campaign ::
    "nat \<Rightarrow> 'e os \<Rightarrow> bench_config \<Rightarrow> 'e case_runner \<Rightarrow> string \<Rightarrow> int \<Rightarrow> ('e, bench_result list) io" where
  "run_campaign fuel os cfg run_case compiler server_threads =
     io_bind (get_file_size os cfg) (\<lambda>file_size_bytes.
     io_bind (get_port compiler) (\<lambda>configured.
     io_then (log_msg cfg (''Starting server for '' @ compiler @ '' on port '' @ show_int configured
        @ '' with '' @ show_int server_threads @ '' threads...''))
     (io_bind (start_server os cfg compiler server_threads) (\<lambda>(server, server_stdout, server_stderr, actual_port).
      io_bind (wait_for_server fuel os cfg server (host cfg) actual_port compiler server_threads) (\<lambda>_.
      io_finally
        (io_then (log_msg cfg (''Running benchmark campaign for '' @ compiler @ '' with ''
            @ show_int server_threads @ '' server threads...''))
          (run_cases os cfg run_case compiler server_threads file_size_bytes actual_port))
        (stop_server os cfg (Some server) (Some server_stdout) (Some server_stderr) (Some actual_port)))))))"

text \<open>The two case runners of the repository.\<close>

definition standard_case :: "'e os \<Rightarrow> bench_config \<Rightarrow> pynum \<Rightarrow> 'e case_runner" where
  "standard_case os cfg idle = run_macro_bench_case os cfg idle"

definition async_case :: "'e os \<Rightarrow> bench_config \<Rightarrow> pynum \<Rightarrow> 'e case_runner" where
  "async_case os cfg idle = run_macro_bench_case_async os cfg idle"

section \<open>What a campaign returns\<close>

definition labelled :: "string \<Rightarrow> int \<Rightarrow> int \<Rightarrow> int \<Rightarrow> bench_result \<Rightarrow> bool" where
  "labelled c st n rep r \<longleftrightarrow> br_compiler r = c \<and> br_server_threads r = st
     \<and> br_parallel_bench_processes r = n \<and> br_repetition r = rep \<and> br_success r + br_failed r = max 0 n"

locale case_runner =
  fixes run_case :: "'e case_runner"
  assumes run_case_labels: "run_case c st n rep bytes port w = (Inr r, w') \<Longrightarrow>
    br_compiler r = c \<and> br_server_threads r = st \<and> br_parallel_bench_processes r = n
    \<and> br_repetition r = rep \<and> br_port r = port \<and> br_success r + br_failed r = max 0 n"
begin

lemma io_map_labels:
  assumes "\<And>x w y w'. f x w = (Inr y, w') \<Longrightarrow> Q x y"
  shows "io_map f xs w = (Inr ys, w') \<Longrightarrow> list_all2 Q xs ys"
proof (induction xs arbitrary: w ys)
  case Nil
  then show ?case by (simp add: io_defs)
next
  case (Cons x xs)
  then obtain y w1 zs where "f x w = (Inr y, w1)" "io_map f xs w1 = (Inr zs, w')" "ys = y # zs"
    by (auto simp: io_defs split: prod.splits sum.splits)
  with Cons.IH assms show ?case by auto
qed

lemma run_cases_labels:
  assumes "run_cases os cfg run_case c st bytes port w = (Inr rs, w')"
  shows "\<exists>rss. rs = concat rss \<and>
    list_all2 (\<lambda>n rs. list_all2 (labelled c st n) [0..macro_repetitions cfg - 1] rs) (macro_bench_cases cfg) rss"
proof -
  let ?rep = "\<lambda>n. run_repetition cfg run_case c st n bytes port"
  let ?is = "[0..macro_repetitions cfg - 1]"
  have inner: "labelled c st n rep r" if "?rep n rep v = (Inr r, v')" for n rep v v' r
    using that run_case_labels
    by (auto simp: labelled_def run_repetition_def io_then_def io_bind_def split: prod.splits sum.splits)
  obtain rss where rss: "io_map (run_case_series os cfg run_case c st bytes port) (macro_bench_cases cfg) w
      = (Inr rss, w')" "rs = concat rss"
    using assms by (auto simp: run_cases_def io_bind_def io_return_def split: prod.splits sum.splits)
  have all: "list_all2 (labelled c st n) ?is ys"
    if series: "run_case_series os cfg run_case c st bytes port n v = (Inr ys, v')" for n v v' ys
  proof -
    obtain v1 where "io_map (?rep n) ?is v1 = (Inr ys, v')"
      using series by (auto simp: run_case_series_def io_then_def io_bind_def split: prod.splits sum.splits)
    from io_map_labels [OF inner this] show ?thesis .
  qed
  have "list_all2 (\<lambda>n ys. list_all2 (labelled c st n) ?is ys) (macro_bench_cases cfg) rss"
    by (rule io_map_labels [OF _ rss(1)]) (rule all)
  with rss(2) show ?thesis by blast
qed

text \<open>Flattened: one record per pair of case and repetition, in the order of the loops.\<close>

lemma run_cases_order:
  assumes "run_cases os cfg run_case c st bytes port w = (Inr rs, w')"
  shows "map (\<lambda>r. (br_compiler r, br_server_threads r, br_parallel_bench_processes r, br_repetition r)) rs
      = [(c, st, n, rep). n \<leftarrow> macro_bench_cases cfg, rep \<leftarrow> [0..macro_repetitions cfg - 1]]
    \<and> (\<forall>r\<in>set rs. br_success r + br_failed r = max 0 (br_parallel_bench_processes r))"
proof -
  let ?l = "\<lambda>r. (br_compiler r, br_server_threads r, br_parallel_bench_processes r, br_repetition r)"
  let ?ok = "\<lambda>r. br_success r + br_failed r = max 0 (br_parallel_bench_processes r)"
  have row: "list_all2 (labelled c st n) reps ys \<Longrightarrow> map ?l ys = map (\<lambda>rep. (c, st, n, rep)) reps \<and> (\<forall>r\<in>set ys. ?ok r)"
    for n reps ys
    by (induction rule: list_all2_induct) (auto simp: labelled_def)
  have rows: "list_all2 (\<lambda>n ys. list_all2 (labelled c st n) reps ys) ns yss \<Longrightarrow>
      map ?l (concat yss) = concat (map (\<lambda>n. map (\<lambda>rep. (c, st, n, rep)) reps) ns) \<and> (\<forall>r\<in>set (concat yss). ?ok r)"
    for ns reps yss
    by (induction rule: list_all2_induct) (use row in auto)
  from run_cases_labels [OF assms] obtain rss where "rs = concat rss"
    "list_all2 (\<lambda>n rs. list_all2 (labelled c st n) [0..macro_repetitions cfg - 1] rs) (macro_bench_cases cfg) rss"
    by blast
  with rows [OF this(2)] show ?thesis by simp
qed

end

lemma async_run_parts:
  assumes "run_macro_bench_case_async os cfg idle c st n rep file_size port w = (Inr r, w')"
  obtains outputs elapsed raw w1 t bytes where
    "measured_run os cfg c st n rep port w = (Inr (outputs, elapsed, raw), w1)"
    "tally_async os outputs async_tally_start w1 = (Inr t, w')"
    "case_result idle c st n rep port elapsed raw bytes (tally.truncate t) = Inr r"
  using assms by (auto simp: run_macro_bench_case_async_def io_defs Let_def split: prod.splits sum.splits)

lemma tally_async_account:
  "tally_async os paths t w = (Inr t', w') \<Longrightarrow>
   t_success t' + t_failed t' = t_success t + t_failed t + int (length paths)"
proof (induction paths arbitrary: t w)
  case (Cons path paths)
  from Cons.prems obtain u w1 where "tally_async os paths u w1 = (Inr t', w')"
    "t_success u + t_failed u = t_success t + t_failed t + 1"
    by (auto simp: io_defs split: prod.splits sum.splits if_splits)
  with Cons.IH [OF this(1)] show ?case by simp
qed (simp add: io_defs)

interpretation std: case_runner "standard_case os cfg idle" for os :: "'e os" and cfg idle
proof
  fix c st n rep bytes port w r w'
  assume "standard_case os cfg idle c st n rep bytes port w = (Inr r, w')"
  then have run: "run_macro_bench_case os cfg idle c st n rep bytes port w = (Inr r, w')"
    by (simp add: standard_case_def)
  obtain outputs elapsed raw w1 t where parts:
    "measured_run os cfg c st n rep port w = (Inr (outputs, elapsed, raw), w1)"
    "tally_outputs os outputs tally_start w1 = (Inr t, w')"
    "case_result idle c st n rep port elapsed raw (num_mul (t_total_iterations t) (PInt bytes)) t = Inr r"
    by (rule run_case_parts [OF run])
  have "t_success t + t_failed t = int (length outputs)"
    using tally_account [OF parts(2)] by (auto simp: tally_start_def)
  then show "br_compiler r = c \<and> br_server_threads r = st \<and> br_parallel_bench_processes r = n
    \<and> br_repetition r = rep \<and> br_port r = port \<and> br_success r + br_failed r = max 0 n"
    using case_result_fields [OF parts(3)] measured_run_outputs [OF parts(1)] by auto
qed

interpretation async: case_runner "async_case os cfg idle" for os :: "'e os" and cfg idle
proof
  fix c st n rep bytes port w r w'
  assume "async_case os cfg idle c st n rep bytes port w = (Inr r, w')"
  then have run: "run_macro_bench_case_async os cfg idle c st n rep bytes port w = (Inr r, w')"
    by (simp add: async_case_def)
  obtain outputs elapsed raw w1 t real where parts:
    "measured_run os cfg c st n rep port w = (Inr (outputs, elapsed, raw), w1)"
    "tally_async os outputs async_tally_start w1 = (Inr t, w')"
    "case_result idle c st n rep port elapsed raw real (tally.truncate t) = Inr r"
    by (rule async_run_parts [OF run])
  have "t_success t + t_failed t = int (length outputs)"
    using tally_async_account [OF parts(2)] by (auto simp: async_tally_start_def)
  then show "br_compiler r = c \<and> br_server_threads r = st \<and> br_parallel_bench_processes r = n
    \<and> br_repetition r = rep \<and> br_port r = port \<and> br_success r + br_failed r = max 0 n"
    using case_result_fields [OF parts(3)] measured_run_outputs [OF parts(1)]
    by (auto simp: tally.truncate_def)
qed

lemma run_campaign_cases:
  assumes "run_campaign fuel os cfg rc c st w = (Inr rs, w')"
  shows "\<exists>bytes port w1 w2. run_cases os cfg rc c st bytes port w1 = (Inr rs, w2)"
  using assms
  by (auto simp: run_campaign_def io_bind_def io_then_def io_finally_def split: prod.splits sum.splits)

text \<open>
  Claim C22. A campaign that returns has one record per pair of case and repetition, in loop
  order, each labelled with its compiler, thread count, clients and repetition, and each
  accounting for all of its processes; with the configured cases these are 125 records.
  The same holds for both case runners.
\<close>

theorem campaign_records:
  assumes "rc = standard_case os cfg idle \<or> rc = async_case os cfg idle"
    and "run_campaign fuel os cfg rc c st w = (Inr rs, w')"
  shows "map (\<lambda>r. (br_compiler r, br_server_threads r, br_parallel_bench_processes r, br_repetition r)) rs
      = [(c, st, n, rep). n \<leftarrow> macro_bench_cases cfg, rep \<leftarrow> [0..macro_repetitions cfg - 1]]
    \<and> (\<forall>r\<in>set rs. br_success r + br_failed r = max 0 (br_parallel_bench_processes r))"
proof -
  obtain bytes port w1 w2 where run: "run_cases os cfg rc c st bytes port w1 = (Inr rs, w2)"
    using run_campaign_cases [OF assms(2)] by blast
  show ?thesis using assms(1)
  proof
    assume "rc = standard_case os cfg idle"
    from std.run_cases_order [OF run [unfolded this]] show ?thesis .
  next
    assume "rc = async_case os cfg idle"
    from async.run_cases_order [OF run [unfolded this]] show ?thesis .
  qed
qed

section \<open>The server of a campaign\<close>

lemma start_bench_extends: "keeps extends (start_bench_instance os cfg c t n r i port)"
  unfolding start_bench_instance_def Let_def by (auto intro!: tr.keeps_rules sys_keeps)

lemma run_instances_extends:
  "keeps extends (run_instances os (\<lambda>i. start_bench_instance os cfg c t n r i port) n)"
  unfolding run_instances_def stop_and_close_def
  by (auto split: prod.splits option.splits intro!: tr.keeps_rules sys_keeps close_frames
      stop_bench_frames start_bench_extends tr.keeps_start_instances)

lemma measured_run_extends: "keeps extends (measured_run os cfg c st n rep port)"
  unfolding measured_run_def read_energy_def read_max_energy_def energy_delta_j_def read_int_file_def
  by (auto intro!: tr.keeps_rules sys_keeps run_instances_extends)

lemma parse_extends:
  "keeps extends (parse_benchmark_json os path)" "keeps extends (parse_benchmark_json_async os path)"
  unfolding parse_benchmark_json_def parse_benchmark_json_async_def
  by (intro tr.keeps_rules sys_keeps)+

lemma tally_extends: "keeps extends (tally_outputs os paths t)" "keeps extends (tally_async os paths u)"
  by (induction paths arbitrary: t u)
    (auto intro!: tr.keeps_return tr.keeps_bind sys_keeps parse_extends split: prod.splits)

lemma cases_extend:
  "keeps extends (standard_case os cfg idle c st n rep bytes port)"
  "keeps extends (async_case os cfg idle c st n rep bytes port)"
  unfolding standard_case_def async_case_def run_macro_bench_case_def run_macro_bench_case_async_def Let_def
  by (auto intro!: tr.keeps_rules measured_run_extends tally_extends split: prod.splits)

lemma log_extends: "keeps extends (log_msg cfg m)"
  unfolding log_msg_def by (intro tr.keeps_rules sys_keeps)

lemma run_cases_extend:
  assumes "\<And>n rep. keeps extends (rc c st n rep bytes port)"
  shows "keeps extends (run_cases os cfg rc c st bytes port)"
  unfolding run_cases_def run_case_series_def run_repetition_def case_level_cache_trash_def
    settle_between_cases_def using assms
  by (auto intro!: tr.keeps_rules sys_keeps log_extends)

text \<open>
  Claim C8. Once its server has become ready, a campaign always leaves with both server logs
  closed and the port cleared again, whether the cases succeed, fail or are interrupted.
\<close>

theorem campaign_stops_server:
  assumes "rc = standard_case os cfg idle \<or> rc = async_case os cfg idle"
    and "get_file_size os cfg w = (Inr bytes, w1)" "get_port c w1 = (Inr configured, w2)"
    and "log_msg cfg (''Starting server for '' @ c @ '' on port '' @ show_int configured
        @ '' with '' @ show_int st @ '' threads...'') w2 = (Inr (), w3)"
    and "start_server os cfg c st w3 = (Inr (server, so, se, port), w4)"
    and "wait_for_server fuel os cfg server (host cfg) port c st w4 = (Inr ready, w5)"
  shows "is_closed so (snd (run_campaign fuel os cfg rc c st w))
    \<and> is_closed se (snd (run_campaign fuel os cfg rc c st w))
    \<and> (\<exists>t1 t2. w_trace (snd (run_campaign fuel os cfg rc c st w)) =
         w_trace w5 @ t1 @ Run [''fuser'', ''-k'', ''-TERM'', show_int port @ ''/tcp''] # t2)"
proof -
  let ?body = "io_then (log_msg cfg (''Running benchmark campaign for '' @ c @ '' with '' @ show_int st @ '' server threads...''))
      (run_cases os cfg rc c st bytes port)"
  obtain r w6 where body: "?body w5 = (r, w6)" by fastforce
  have "run_campaign fuel os cfg rc c st w =
      io_finally ?body (stop_server os cfg (Some server) (Some so) (Some se) (Some port)) w5"
    using assms(2-) by (simp add: run_campaign_def io_bind_def io_then_def)
  then have "snd (run_campaign fuel os cfg rc c st w) =
      snd (stop_server os cfg (Some server) (Some so) (Some se) (Some port) w6)"
    using body by (simp add: io_finally_def split: prod.splits sum.splits)
  moreover have "keeps extends ?body"
    using assms(1) by (auto intro!: tr.keeps_then log_extends run_cases_extend cases_extend)
  from keepsD [OF this body] obtain t where "w_trace w6 = w_trace w5 @ t" by (auto simp: extends_def)
  ultimately show ?thesis
    using stop_server_closes [of so os cfg "Some server" se port w6] by (metis append_assoc)
qed

text \<open>What happens to a server that does not become ready.\<close>

fun stops_or_closes :: "call \<Rightarrow> bool" where
  "stops_or_closes (Run _) = True"
| "stops_or_closes (Killpg _ _) = True"
| "stops_or_closes (Terminate _) = True"
| "stops_or_closes (Kill _) = True"
| "stops_or_closes (Close _) = True"
| "stops_or_closes _ = False"

definition hands_off :: "'e world \<Rightarrow> 'e world \<Rightarrow> bool" where
  "hands_off w w' \<longleftrightarrow> w_open w' = w_open w
     \<and> (\<exists>t. w_trace w' = w_trace w @ t \<and> (\<forall>c\<in>set t. \<not> stops_or_closes c))"

interpretation ho: frame hands_off
proof
  fix u v w :: "'a world"
  assume "hands_off u v" "hands_off v w"
  then obtain t t' where "w_open v = w_open u" "w_open w = w_open v" "w_trace v = w_trace u @ t" "w_trace w = w_trace v @ t'"
    "\<forall>c\<in>set (t @ t'). \<not> stops_or_closes c"
    unfolding hands_off_def by fastforce
  then show "hands_off u w" by (auto simp: hands_off_def)
qed (auto simp: hands_off_def)

lemma hands_off_calls:
  "\<not> stops_or_closes c \<Longrightarrow> keeps hands_off (sys_unit os c)"
  "\<not> stops_or_closes c \<Longrightarrow> keeps hands_off (sys_bool os c)"
  "\<not> stops_or_closes c \<Longrightarrow> keeps hands_off (sys_str os c)"
  "keeps hands_off (sys_clock os)"
  by (auto simp: keeps_def hands_off_def sys_unit_def sys_bool_def sys_str_def sys_clock_def split: prod.splits)

lemma hands_off_wait: "keeps hands_off (wait_for_server fuel os cfg proc h port c st)"
proof -
  have fail: "keeps hands_off (server_failure os cfg c st port m :: ('e, bool) io)" for m and os :: "'e os"
    by (auto simp: server_failure_def read_text_file_def split: prod.splits
        intro!: ho.keeps_rules hands_off_calls)
  have "keeps hands_off (wait_loop fuel os cfg proc h port c st tm start)" for tm start
    by (induction fuel)
      (auto simp: is_port_open_def intro!: ho.keeps_bind ho.keeps_then ho.keeps_try ho.keeps_raise ho.keeps_return
        hands_off_calls fail)
  then show ?thesis unfolding wait_for_server_def by (intro ho.keeps_bind hands_off_calls)
qed

text \<open>
  Claim C26. A server that is started but does not become ready is abandoned: the wait is
  outside the \<open>try ... finally\<close>, so the exception leaves the campaign with the process not
  signalled and both log files open.
\<close>

theorem campaign_abandons_server:
  assumes "get_file_size os cfg w = (Inr bytes, w1)" "get_port c w1 = (Inr configured, w2)"
    and "log_msg cfg (''Starting server for '' @ c @ '' on port '' @ show_int configured
        @ '' with '' @ show_int st @ '' threads...'') w2 = (Inr (), w3)"
    and start: "start_server os cfg c st w3 = (Inr (server, so, se, port), w4)"
    and wait: "wait_for_server fuel os cfg server (host cfg) port c st w4 = (Inl e, w5)"
  shows "run_campaign fuel os cfg rc c st w = (Inl e, w5)
    \<and> \<not> is_closed so w5 \<and> \<not> is_closed se w5
    \<and> (\<exists>t. w_trace w5 = w_trace w4 @ t \<and> (\<forall>c\<in>set t. \<not> stops_or_closes c))"
proof -
  have "run_campaign fuel os cfg rc c st w = (Inl e, w5)"
    using assms by (simp add: run_campaign_def io_bind_def io_then_def)
  moreover have "hands_off w4 w5" by (rule keepsD [OF hands_off_wait wait])
  moreover have "\<not> is_closed so w4 \<and> \<not> is_closed se w4"
    using start_server_facts [OF start] by blast
  ultimately show ?thesis by (auto simp: hands_off_def is_closed_def)
qed

section \<open>The cache program\<close>

text \<open>
  Python's grammar lets a logical line be one compound statement or several simple
  statements separated by semicolons; a compound statement cannot follow a semicolon.  The
  check below looks at one physical line without string or bracket context, so it is applied
  to lines in which no semicolon stands inside a string.
\<close>

definition compound_keywords :: "string list" where
  "compound_keywords = [''for'', ''while'', ''if'', ''try'', ''with'', ''def'', ''class'']"

fun pieces :: "char \<Rightarrow> string \<Rightarrow> string list" where
  "pieces c [] = [[]]"
| "pieces c (x # xs) =
     (if x = c then [] # pieces c xs
      else case pieces c xs of [] \<Rightarrow> [[x]] | p # ps \<Rightarrow> (x # p) # ps)"

definition starts_compound :: "string \<Rightarrow> bool" where
  "starts_compound stmt = (takeWhile (\<lambda>c. c \<noteq> CHR '' '') (py_strip stmt) \<in> set compound_keywords)"

definition compound_after_semicolon :: "string \<Rightarrow> bool" where
  "compound_after_semicolon line = list_ex starts_compound (tl (pieces (CHR '';'') line))"

text \<open>
  The program that should thrash the caches is not a Python program: its first
  line puts a \<open>for\<close> loop after semicolons.  The interpreter refuses it, and since the exit
  status and the error output are ignored, the step never touches the caches.
\<close>

theorem cache_trash_program_malformed:
  "compound_after_semicolon (hd (splitlines cache_trash_program))"
  by code_simp

end
