(* ===== verification/Healthy.thy ===== *)
theory Healthy
  imports Campaign
begin

text \<open>
  Liveness of a campaign: on a machine where nothing goes wrong the campaign returns, with a
  record for every case and repetition.  The assumptions name what the scripts need of the
  machine; reports that are missing or broken are allowed, since they only count as failures.
\<close>

definition healthy :: "'e os \<Rightarrow> bench_config \<Rightarrow> string \<Rightarrow> bool" where
  "healthy os cfg c \<longleftrightarrow>
     (\<forall>q e. fst (os_unit os q e) = Inr ())
   \<and> (\<forall>p e. \<not> fst (os_bool os (Poll p) e))
   \<and> (\<forall>q e. \<exists>n. fst (os_int os q e) = Inr n)
   \<and> (\<forall>cmd e. \<exists>out. fst (os_str os (Run cmd) e) = Inr out)
   \<and> (\<forall>vars cmd e. \<exists>out. fst (os_str os (Run_env vars cmd) e) = Inr out)
   \<and> (\<forall>p\<in>{energy_path cfg, max_energy_path cfg}. \<forall>e. \<exists>s n.
        fst (os_str os (Read_text p) e) = Inr s \<and> py_int_str (py_strip s) = Inr n)
   \<and> (\<forall>p e. case fst (os_json os (Load_json p) e) of Inl x \<Rightarrow> is_Exception x | Inr v \<Rightarrow> True)
   \<and> (\<exists>server_bin bench_bin. get_server_bin cfg c = Inr server_bin \<and> get_bench_bin cfg c = Inr bench_bin
        \<and> (\<forall>e. fst (os_bool os (Path_exists server_bin) e) \<and> fst (os_bool os (Path_exists bench_bin) e)))
   \<and> (\<forall>e. b64 (b64 (fst (os_clock os (snd (os_clock os e)))) - b64 (fst (os_clock os e)))
        < server_wait_timeout_seconds cfg)"

text \<open>The invariant of the run: \<open>PORTS\<close> keeps its entry.\<close>

definition ports_are :: "(string, int) dict \<Rightarrow> 'e world \<Rightarrow> bool" where
  "ports_are ports w \<longleftrightarrow> w_ports w = ports"

lemma healthy_calls:
  assumes "healthy os cfg c"
  shows "returns (ports_are ports) (sys_unit os q) (\<lambda>_. True)"
    "returns (ports_are ports) (sys_bool os q) (\<lambda>_. True)"
    "returns (ports_are ports) (sys_bool os (Poll p)) (\<lambda>b. \<not> b)"
    "returns (ports_are ports) (sys_int os q) (\<lambda>_. True)"
    "returns (ports_are ports) (sys_clock os) (\<lambda>_. True)"
    "returns (ports_are ports) (sys_open os path) (\<lambda>_. True)"
    "returns (ports_are ports) (close_if_open fd) (\<lambda>_. True)"
    "returns (ports_are ports) (sys_str os (Run cmd)) (\<lambda>_. True)"
    "returns (ports_are ports) (sys_str os (Run_env vars cmd)) (\<lambda>_. True)"
    "returns (ports_are ports) (log_msg cfg' m) (\<lambda>_. True)"
proof -
  have h: "fst (os_unit os q e) = Inr ()" "\<not> fst (os_bool os (Poll p) e)" "\<exists>n. fst (os_int os q e) = Inr n"
    "\<exists>out. fst (os_str os (Run cmd) e) = Inr out" "\<exists>out. fst (os_str os (Run_env vars cmd) e) = Inr out"
    for q p cmd vars e
    using assms by (auto simp: healthy_def)
  show "returns (ports_are ports) (sys_unit os q) (\<lambda>_. True)"
    using h(1) by (auto simp: returns_def ports_are_def sys_unit_def split: prod.splits) (metis fst_conv)
  show "returns (ports_are ports) (sys_int os q) (\<lambda>_. True)"
    using h(3) by (auto simp: returns_def ports_are_def sys_int_def split: prod.splits) (metis fst_conv)
  show "returns (ports_are ports) (sys_open os path) (\<lambda>_. True)"
    using h(1) by (auto simp: returns_def ports_are_def sys_open_def Let_def split: prod.splits sum.splits) (metis fst_conv sum.distinct(2))
  show "returns (ports_are ports) (sys_bool os (Poll p)) (\<lambda>b. \<not> b)"
    using h(2) by (auto simp: returns_def ports_are_def sys_bool_def split: prod.splits) (metis fst_conv)
  show "returns (ports_are ports) (sys_str os (Run cmd)) (\<lambda>_. True)"
    "returns (ports_are ports) (sys_str os (Run_env vars cmd)) (\<lambda>_. True)"
    using h(4,5) by (auto simp: returns_def ports_are_def sys_str_def split: prod.splits) (metis fst_conv)+
qed (auto simp: returns_def ports_are_def sys_bool_def sys_clock_def close_if_open_def sys_close_def
    log_msg_def io_when_def sys_log_def io_return_def split: prod.splits option.splits)

lemma healthy_exists:
  assumes "healthy os cfg c" "get_server_bin cfg c = Inr b \<or> get_bench_bin cfg c = Inr b"
  shows "returns (ports_are ports) (sys_bool os (Path_exists b)) (\<lambda>x. x)"
proof -
  have "fst (os_bool os (Path_exists b) e)" for e
    using assms by (auto simp: healthy_def)
  then show ?thesis
    by (auto simp: returns_def ports_are_def sys_bool_def split: prod.splits) (metis fst_conv)
qed

lemma healthy_ports:
  assumes "healthy os cfg c"
  shows "returns (ports_are ports) (is_port_open os h p) (\<lambda>b. b)"
    "returns (ports_are ports) (can_bind_port os h p) (\<lambda>b. b)"
    "returns (ports_are ports) (kill_processes_on_port os cfg' p) (\<lambda>_. True)"
proof -
  note calls = healthy_calls [OF assms]
  show "returns (ports_are ports) (is_port_open os h p) (\<lambda>b. b)"
    unfolding is_port_open_def by (intro returns_try returns_then returns_return calls) simp
  show bind: "returns (ports_are ports) (can_bind_port os h p) (\<lambda>b. b)" for h p
    unfolding can_bind_port_def by (intro returns_then returns_finally returns_try returns_return calls) simp
  show "returns (ports_are ports) (kill_processes_on_port os cfg' p) (\<lambda>_. True)"
    unfolding kill_processes_on_port_def run_optional_command_def
    by (intro returns_then returns_bind [OF bind] calls)
      (auto intro!: returns_except returns_then returns_return calls)
qed

lemma healthy_start_server:
  assumes "healthy os cfg c" "dict_get ports c = Some port"
  shows "returns (ports_are ports) (start_server os cfg c st) (\<lambda>_. True)"
proof -
  note calls = healthy_calls [OF assms(1)]
  obtain b where b: "get_server_bin cfg c = Inr b" using assms(1) by (auto simp: healthy_def)
  have get: "returns (ports_are ports) (get_port c) (\<lambda>_. True)"
    using assms(2) by (auto simp: returns_def get_port_def ports_are_def)
  have prep: "returns (ports_are ports) (prepare_server_port os cfg c) (\<lambda>_. True)"
    unfolding prepare_server_port_def
    by (intro returns_bind [OF get] returns_then returns_bind [OF healthy_ports(2) [OF assms(1)]]
        healthy_ports [OF assms(1)]) (auto intro: returns_return)
  have ex: "returns (ports_are ports) (sys_bool os (Path_exists b)) (\<lambda>x. x)"
    by (rule healthy_exists [OF assms(1)]) (simp add: b)
  show ?thesis
    unfolding start_server_def b
    by (rule returns_bind [OF returns_of [OF refl, where Q = "\<lambda>x. x = b"]], simp)
      (auto split: prod.splits intro!: returns_bind [OF prep] returns_bind [OF ex] returns_bind calls returns_return)
qed

lemma healthy_wait:
  fixes os :: "'e os"
  assumes "healthy os cfg c"
  shows "returns (ports_are ports) (wait_for_server (Suc n) os cfg proc h port c' st) (\<lambda>_. True)"
  unfolding returns_def
proof (intro allI impI)
  fix w :: "'e world" assume w: "ports_are ports w"
  obtain t1 e1 where t1: "os_clock os (w_env w) = (t1, e1)" by fastforce
  obtain t2 e2 where t2: "os_clock os e1 = (t2, e2)" by fastforce
  let ?w1 = "logged Clock e1 w" and ?w2 = "logged Clock e2 (logged Clock e1 w)"
  have c1: "sys_clock os w = (Inr (PFlt (b64 t1)), ?w1)" using t1 by (simp add: sys_clock_def)
  have c2: "sys_clock os ?w1 = (Inr (PFlt (b64 t2)), ?w2)" using t2 by (simp add: sys_clock_def)
  have "\<forall>e. b64 (b64 (fst (os_clock os (snd (os_clock os e)))) - b64 (fst (os_clock os e)))
      < server_wait_timeout_seconds cfg"
    using assms unfolding healthy_def by blast
  from spec [OF this, of "w_env w"] have in_time: "b64 (b64 t2 - b64 t1) < server_wait_timeout_seconds cfg"
    by (simp add: t1 t2)
  let ?rest = "io_bind (sys_bool os (Poll proc)) (\<lambda>ended.
     if ended then server_failure os cfg c' st port ''exited before becoming ready.''
     else io_bind (is_port_open os h port) (\<lambda>ready. if ready then io_return True
       else io_then (sys_unit os (Sleep (b64 (1 / 5))))
         (wait_loop n os cfg proc h port c' st (server_wait_timeout_seconds cfg) (PFlt (b64 t1)))))"
  have "wait_for_server (Suc n) os cfg proc h port c' st w = ?rest ?w2"
    using in_time by (simp add: wait_for_server_def io_bind_def c1 c2 num_lt_def)
  moreover have "returns (ports_are ports) ?rest (\<lambda>_. True)"
  proof (rule returns_bind [OF healthy_calls(3) [OF assms]])
    fix ended :: bool
    assume "\<not> ended"
    then show "returns (ports_are ports) (if ended then server_failure os cfg c' st port ''exited before becoming ready.''
     else io_bind (is_port_open os h port) (\<lambda>ready. if ready then io_return True
       else io_then (sys_unit os (Sleep (b64 (1 / 5))))
         (wait_loop n os cfg proc h port c' st (server_wait_timeout_seconds cfg) (PFlt (b64 t1))))) (\<lambda>_. True)"
      by (auto intro!: returns_bind [OF healthy_ports(1) [OF assms]] returns_return)
  qed
  moreover have "ports_are ports ?w2" using w by (simp add: ports_are_def)
  ultimately show "\<exists>x w'. wait_for_server (Suc n) os cfg proc h port c' st w = (Inr x, w') \<and> True \<and> ports_are ports w'"
    by (auto dest: returnsD)
qed

lemma healthy_stop_process:
  assumes "healthy os cfg c"
  shows "returns (ports_are ports) (stop_process os t pid) (\<lambda>_. True)"
  unfolding stop_process_def signal_group_def
  by (rule returns_bind [OF healthy_calls(2) [OF assms]])
    (auto intro!: returns_then returns_except returns_bind returns_try returns_return healthy_calls [OF assms])

lemma healthy_stop_server:
  assumes "healthy os cfg c"
  shows "returns (ports_are ports) (stop_server os cfg (Some pid) so se (Some port)) (\<lambda>_. True)"
  unfolding stop_server_def
  by (auto intro!: returns_finally returns_then healthy_stop_process [OF assms] healthy_calls [OF assms]
      healthy_ports [OF assms])

lemma healthy_energy:
  assumes "healthy os cfg c"
  shows "returns (ports_are ports) (read_energy os cfg) (\<lambda>_. True)"
    "returns (ports_are ports) (energy_delta_j os cfg e1 e2) (\<lambda>_. True)"
proof -
  have rd: "returns (ports_are ports) (read_int_file os p) (\<lambda>_. True)"
    if p: "p \<in> {energy_path cfg, max_energy_path cfg}" for p
  proof -
    have "\<exists>s n. fst (os_str os (Read_text p) e) = Inr s \<and> py_int_str (py_strip s) = Inr n" for e
      using assms p unfolding healthy_def by blast
    then show ?thesis
      by (auto simp: returns_def ports_are_def read_int_file_def io_bind_def io_of_def sys_str_def split: prod.splits sum.splits)
        (metis Inr_inject fst_conv sum.distinct(1))+
  qed
  show "returns (ports_are ports) (read_energy os cfg) (\<lambda>_. True)"
    unfolding read_energy_def by (rule rd) simp
  have div: "returns (ports_are ports) (io_of (num_div (PInt d) (PFlt 1000000))) (\<lambda>_. True)" for d
    by (rule returns_of) auto
  show "returns (ports_are ports) (energy_delta_j os cfg e1 e2) (\<lambda>_. True)"
    unfolding energy_delta_j_def read_max_energy_def
    by (auto simp del: num_div.simps intro!: returns_bind div returns_return rd)
qed

lemma case_result_total: "\<exists>r. case_result idle c st n rep port el raw bytes t = Inr r"
proof -
  have "\<exists>q. throughput bytes el = Inr q"
    unfolding throughput_def num_lt_def
    using num_div_total [of "PInt (1024 * 1024)" bytes] num_div_total [of el] by (auto simp del: num_div.simps)
  moreover have "\<exists>q. (if 0 < t_success t then num_div (t_total_iterations t) (PInt (t_success t)) else Inr (PFlt 0)) = Inr q"
    using num_div_total [of "PInt (t_success t)"] by (auto simp del: num_div.simps)
  ultimately show ?thesis by (auto simp: case_result_def Let_def)
qed

lemma healthy_parse:
  fixes os :: "'e os"
  assumes "healthy os cfg c"
  shows "returns (ports_are ports) (parse_benchmark_json os path) (\<lambda>_. True)"
proof -
  have j: "case fst (os_json os (Load_json p) e) of Inl x \<Rightarrow> is_Exception x | Inr v \<Rightarrow> True" for p e
    using assms unfolding healthy_def by blast
  show ?thesis
    unfolding returns_def
  proof (intro allI impI)
    fix w :: "'e world" assume w: "ports_are ports w"
    obtain r e where r: "os_json os (Load_json path) (w_env w) = (r, e)" by fastforce
    have "\<exists>b n w'. parse_benchmark_json os path w = (Inr (b, n), w') \<and> w' = logged (Load_json path) e w"
      using j [of path "w_env w"] r parse_data_raises
      by (cases r) (auto simp: parse_benchmark_json_def except_Exception_def io_defs sys_json_def split: sum.splits)
    with w show "\<exists>x w'. parse_benchmark_json os path w = (Inr x, w') \<and> True \<and> ports_are ports w'"
      by (fastforce simp: ports_are_def)
  qed
qed

lemma healthy_tally:
  assumes "healthy os cfg c"
  shows "returns (ports_are ports) (tally_outputs os paths t) (\<lambda>_. True)"
proof (induction paths arbitrary: t)
  case Nil
  then show ?case by (simp add: returns_return)
next
  case (Cons path paths)
  show ?case
    unfolding tally_outputs.simps
    by (rule returns_bind [OF healthy_calls(2) [OF assms]])
      (auto intro!: returns_bind [OF healthy_parse [OF assms]] Cons.IH split: prod.splits)
qed

lemma healthy_start_bench:
  assumes "healthy os cfg c"
  shows "returns (ports_are ports) (start_bench_instance os cfg c st n rep i port) (\<lambda>_. True)"
proof -
  obtain b where b: "get_bench_bin cfg c = Inr b" using assms by (auto simp: healthy_def)
  have ex: "returns (ports_are ports) (sys_bool os (Path_exists b)) (\<lambda>x. x)"
    by (rule healthy_exists [OF assms]) (simp add: b)
  show ?thesis
    unfolding start_bench_instance_def b Let_def
    by (rule returns_bind [OF returns_of [OF refl, where Q = "\<lambda>x. x = b"]], simp, simp only:,
        rule returns_bind [OF ex], simp only: not_True_eq_False if_False)
      (auto intro!: returns_bind [OF healthy_calls(2) [OF assms]]
        returns_bind [OF healthy_calls(4) [OF assms]] returns_bind [OF healthy_calls(6) [OF assms]]
        returns_then returns_when returns_return healthy_calls [OF assms])
qed

lemma healthy_start_instances:
  assumes "\<And>i. returns P (start i) (\<lambda>_. True)"
  shows "returns P (start_instances start is ps) (\<lambda>(qs, f). f = None)"
proof (induction "is" arbitrary: ps)
  case Nil
  then show ?case by (simp add: returns_def)
next
  case (Cons i "is")
  show ?case
    unfolding returns_def
  proof (intro allI impI)
    fix w assume "P w"
    then obtain p w1 where p: "start i w = (Inr p, w1)" "P w1" using returnsD [OF assms] by blast
    with returnsD [OF Cons.IH [of "ps @ [p]"] p(2)]
    show "\<exists>x w'. start_instances start (i # is) ps w = (Inr x, w') \<and> (case x of (qs, f) \<Rightarrow> f = None) \<and> P w'"
      by simp
  qed
qed

lemma healthy_case:
  assumes "healthy os cfg c"
  shows "returns (ports_are ports) (standard_case os cfg idle c st n rep bytes port) (\<lambda>_. True)"
proof -
  note calls = healthy_calls [OF assms]
  have run: "returns (ports_are ports)
      (run_instances os (\<lambda>i. start_bench_instance os cfg c st n rep i port) n) (\<lambda>_. True)"
    unfolding run_instances_def
    by (rule returns_bind [OF healthy_start_instances [OF healthy_start_bench [OF assms]]])
      (auto split: prod.splits intro!: returns_try returns_then returns_for returns_return calls)
  have "returns (ports_are ports) (measured_run os cfg c st n rep port) (\<lambda>_. True)"
    unfolding measured_run_def
    by (intro returns_bind [OF healthy_energy(1) [OF assms]] returns_bind [OF calls(5)] returns_bind [OF run]
        returns_bind [OF healthy_energy(2) [OF assms]] returns_return)
  moreover have "returns (ports_are ports) (io_of (case_result idle c st n rep port el raw real t)) (\<lambda>_. True)"
    for el raw real t
    using case_result_total [of idle c st n rep port el raw real t] by (auto intro: returns_of)
  ultimately show ?thesis
    unfolding standard_case_def run_macro_bench_case_def
    by (auto split: prod.splits intro!: returns_bind [OF healthy_tally [OF assms]] elim!: returns_bind)
qed

lemma healthy_cases:
  assumes "healthy os cfg c"
  shows "returns (ports_are ports) (run_cases os cfg (standard_case os cfg idle) c st bytes port) (\<lambda>_. True)"
proof -
  note calls = healthy_calls [OF assms]
  have rep: "returns (ports_are ports) (run_repetition cfg (standard_case os cfg idle) c st n bytes port rep) (\<lambda>_. True)"
    for n rep
    unfolding run_repetition_def by (intro returns_then calls healthy_case [OF assms])
  have drop: "returns (ports_are ports)
      (if case_drop_caches cfg then sys_bool os (Access_w p) else io_return False) (\<lambda>_. True)" for p
    by (auto intro: calls returns_return)
  have "returns (ports_are ports) (case_level_cache_trash os cfg) (\<lambda>_. True)"
    unfolding case_level_cache_trash_def
    by (cases "case_cache_trash_enabled cfg"; simp only: not_True_eq_False not_False_eq_True if_True if_False)
      (intro returns_then returns_when returns_except returns_return returns_bind [OF drop] calls TrueI)+
  moreover have "returns (ports_are ports) (settle_between_cases os cfg) (\<lambda>_. True)"
    unfolding settle_between_cases_def by (auto intro!: returns_then returns_return calls)
  ultimately have "returns (ports_are ports) (run_case_series os cfg (standard_case os cfg idle) c st bytes port n) (\<lambda>_. True)"
    for n
    unfolding run_case_series_def by (intro returns_then returns_map rep)
  then show ?thesis
    unfolding run_cases_def by (intro returns_bind [OF returns_map] returns_return) auto
qed

lemma healthy_campaign:
  assumes "healthy os cfg c" "dict_get ports c = Some port"
  shows "returns (ports_are ports) (run_campaign (Suc n) os cfg (standard_case os cfg idle) c st) (\<lambda>_. True)"
proof -
  note calls = healthy_calls [OF assms(1)]
  let ?P = "ports_are ports"
  have size: "returns ?P (get_file_size os cfg) (\<lambda>_. True)"
    unfolding get_file_size_def by (rule calls)
  have port: "returns ?P (get_port c) (\<lambda>_. True)"
    using assms(2) by (auto simp: returns_def get_port_def ports_are_def)
  show ?thesis
    unfolding run_campaign_def
    by (intro returns_bind [OF size] returns_bind [OF port] returns_then calls)
      (auto split: prod.splits intro!: returns_bind [OF healthy_start_server [OF assms(1,2)]]
        returns_bind [OF healthy_wait [OF assms(1)]] returns_finally returns_then calls
        healthy_cases [OF assms(1)] healthy_stop_server [OF assms(1)])
qed

text \<open>
  Claim C21. Liveness: on a healthy machine a campaign whose compiler has a configured port returns;
  together with the order of its records this gives all the results of the campaign.
\<close>

theorem campaign_completes:
  assumes "healthy os cfg c" "dict_get (w_ports w) c = Some port" "0 < fuel"
  shows "\<exists>rs w'. run_campaign fuel os cfg (standard_case os cfg idle) c st w = (Inr rs, w')
    \<and> int (length rs) = int (length (macro_bench_cases cfg)) * max 0 (macro_repetitions cfg)"
proof -
  obtain n where n: "fuel = Suc n" using assms(3) by (cases fuel) auto
  have "returns (ports_are (w_ports w)) (run_campaign fuel os cfg (standard_case os cfg idle) c st) (\<lambda>_. True)"
    unfolding n by (rule healthy_campaign [OF assms(1,2)])
  from returnsD [OF this, of w] obtain rs w' where
    rs: "run_campaign fuel os cfg (standard_case os cfg idle) c st w = (Inr rs, w')"
    by (auto simp: ports_are_def)
  obtain b p w1 w2 where "run_cases os cfg (standard_case os cfg idle) c st b p w1 = (Inr rs, w2)"
    using run_campaign_cases [OF rs] by blast
  from arg_cong [OF conjunct1 [OF std.run_cases_order [OF this]], of length]
  have "int (length rs) = int (length (macro_bench_cases cfg)) * max 0 (macro_repetitions cfg)"
    by (simp add: length_concat comp_def sum_list_triv)
  with rs show ?thesis by blast
qed

section \<open>Closed instances\<close>

text \<open>A machine on which every call succeeds at once.\<close>

definition steady_os :: "unit os" where
  "steady_os = \<lparr>os_unit = (\<lambda>q e. (Inr (), e)),
     os_bool = (\<lambda>q e. (case q of Poll _ \<Rightarrow> False | _ \<Rightarrow> True, e)), os_int = (\<lambda>q e. (Inr 100, e)),
     os_str = (\<lambda>q e. (Inr (case q of Read_text _ \<Rightarrow> ''123456'' | _ \<Rightarrow> []), e)),
     os_json = (\<lambda>q e. (Inr sample_report, e)), os_clock = (\<lambda>e. (0, e)), os_executable = ''python3'',
     os_walk = (\<lambda>dir e. ([], e)), os_pages = (\<lambda>path e. (([], None), e))\<rparr>"

definition steady_world :: "unit world" where
  "steady_world = \<lparr>w_env = (), w_ports = sim_ports, w_fd = 0, w_open = [], w_trace = []\<rparr>"

lemma steady_healthy: "healthy steady_os (asio_config root_dir) ''gcc''"
proof -
  have n: "py_int_str (py_strip ''123456'') = Inr 123456" by code_simp
  have dirs: "build_dirs (asio_config root_dir) = [(''gcc'', ''./build-gcc''), (''clang'', ''./build-clang'')]"
    by (simp add: asio_config_def run_bench_config_def)
  show ?thesis
    by (simp add: healthy_def steady_os_def n get_server_bin_def get_bench_bin_def get_build_dir_def dirs)
qed

theorem campaign_completes_witness:
  "\<exists>rs w'. run_campaign 601 steady_os (asio_config ''/r'') (standard_case steady_os (asio_config ''/r'') (PFlt 1)) ''gcc'' 8
      steady_world = (Inr rs, w') \<and> length rs = 125"
proof -
  have "dict_get (w_ports steady_world) ''gcc'' = Some 8120"
    by (simp add: steady_world_def sim_ports_def)
  from campaign_completes [OF steady_healthy this, where root_dir1 = "''/r''" and fuel = 601 and st = 8 and idle = "PFlt 1"]
  show ?thesis by auto
qed

text \<open>The hypotheses of the theorems on \<open>run_campaign\<close> at the steady machine.\<close>

lemma steady_stages:
  assumes "w_ports w = sim_ports"
  shows "\<exists>bytes w1 w2 w3. get_file_size steady_os (asio_config r) w = (Inr bytes, w1) \<and> get_port ''gcc'' w1 = (Inr 8120, w2)
    \<and> log_msg (asio_config r) m w2 = (Inr (), w3) \<and> w_ports w3 = sim_ports"
proof -
  note calls = healthy_calls [OF steady_healthy]
  obtain bytes w1 where 1: "get_file_size steady_os (asio_config r) w = (Inr bytes, w1)" "ports_are sim_ports w1"
    using returnsD [OF calls(4)] assms unfolding get_file_size_def ports_are_def by metis
  then have 2: "get_port ''gcc'' w1 = (Inr 8120, w1)"
    by (simp add: get_port_def ports_are_def sim_ports_def)
  obtain u w3 where "log_msg (asio_config r) m w1 = (Inr u, w3)" "ports_are sim_ports w3"
    using returnsD [OF calls(10) 1(2)] by metis
  with 1 2 show ?thesis by (auto simp: ports_are_def)
qed

theorem campaign_records_witness:
  "\<exists>rs w'. run_campaign 601 steady_os (asio_config ''/r'') (standard_case steady_os (asio_config ''/r'') (PFlt 1)) ''gcc'' 8
      steady_world = (Inr rs, w')
    \<and> map (\<lambda>r. (br_compiler r, br_server_threads r, br_parallel_bench_processes r, br_repetition r)) rs
      = [(''gcc'', 8, n, rep). n \<leftarrow> [1, 2, 4, 8, 16], rep \<leftarrow> [0..24]]"
proof -
  let ?rc = "standard_case steady_os (asio_config ''/r'') (PFlt 1)"
  note calls = healthy_calls [OF steady_healthy]
  have "returns (ports_are sim_ports) (run_campaign 601 steady_os (asio_config ''/r'') ?rc ''gcc'' 8) (\<lambda>_. True)"
    using healthy_campaign [OF steady_healthy, where n = 600] by (simp add: sim_ports_def)
  from returnsD [OF this, of steady_world] obtain rs w' where
    rs: "run_campaign 601 steady_os (asio_config ''/r'') ?rc ''gcc'' 8 steady_world = (Inr rs, w')"
    by (auto simp: ports_are_def steady_world_def)
  with campaign_records [OF disjI1 [OF refl] rs] show ?thesis by auto
qed

theorem campaign_stops_server_witness:
  "\<exists>rs w' port t1 t2. run_campaign 601 steady_os (asio_config ''/r'')
      (standard_case steady_os (asio_config ''/r'') (PFlt 1)) ''gcc'' 8 steady_world = (Inr rs, w')
    \<and> w_trace w' = t1 @ Run [''fuser'', ''-k'', ''-TERM'', show_int port @ ''/tcp''] # t2"
proof -
  let ?rc = "standard_case steady_os (asio_config ''/r'') (PFlt 1)"
  let ?m = "''Starting server for '' @ ''gcc'' @ '' on port '' @ show_int 8120 @ '' with '' @ show_int 8 @ '' threads...''"
  obtain bytes w1 w2 w3 where st: "get_file_size steady_os (asio_config ''/r'') steady_world = (Inr bytes, w1)"
    "get_port ''gcc'' w1 = (Inr 8120, w2)" "log_msg (asio_config ''/r'') ?m w2 = (Inr (), w3)" "w_ports w3 = sim_ports"
    using steady_stages [of steady_world "''/r''" ?m] by (auto simp: steady_world_def)
  have p: "dict_get sim_ports ''gcc'' = Some 8120" by (simp add: sim_ports_def)
  obtain x w4 where x: "start_server steady_os (asio_config ''/r'') ''gcc'' 8 w3 = (Inr x, w4)" "ports_are sim_ports w4"
    using returnsD [OF healthy_start_server [OF steady_healthy p]] st(4) by (metis ports_are_def)
  obtain server so se port where xs: "x = (server, so, se, port)" by (cases x)
  obtain ready w5 where r: "wait_for_server (Suc 600) steady_os (asio_config ''/r'') server (host (asio_config ''/r'')) port ''gcc'' 8 w4
      = (Inr ready, w5)"
    using returnsD [OF healthy_wait [OF steady_healthy] x(2)] by metis
  have "returns (ports_are sim_ports) (run_campaign 601 steady_os (asio_config ''/r'') ?rc ''gcc'' 8) (\<lambda>_. True)"
    using healthy_campaign [OF steady_healthy p, where n = 600] by simp
  from returnsD [OF this, of steady_world] obtain rs w' where
    rs: "run_campaign 601 steady_os (asio_config ''/r'') ?rc ''gcc'' 8 steady_world = (Inr rs, w')"
    by (auto simp: ports_are_def steady_world_def)
  have r': "wait_for_server 601 steady_os (asio_config ''/r'') server (host (asio_config ''/r'')) port ''gcc'' 8 w4 = (Inr ready, w5)"
    using r by simp
  from campaign_stops_server [OF disjI1 [OF refl] st(1-3) x(1) [unfolded xs] r', of "PFlt 1"] rs
  show ?thesis by (metis append_assoc snd_conv)
qed

text \<open>The same machine, but every process is found to have ended.\<close>

definition dead_os :: "unit os" where
  "dead_os = steady_os\<lparr>os_bool := (\<lambda>q e. (True, e))\<rparr>"

lemma dead_calls:
  "sys_unit dead_os q w = (Inr (), logged q () w)" "sys_bool dead_os q w = (Inr True, logged q () w)"
  "sys_int dead_os q w = (Inr 100, logged q () w)" "\<exists>t. sys_str dead_os q w = (Inr t, logged q () w)"
  "sys_open dead_os path w = (Inr (w_fd w), (logged (Open_w path (w_fd w)) () w)
     \<lparr>w_fd := Suc (w_fd w), w_open := w_fd w # w_open w\<rparr>)"
  by (simp_all add: sys_unit_def sys_bool_def sys_int_def sys_str_def sys_open_def dead_os_def steady_os_def Let_def)

lemma dead_start:
  assumes "w_ports w = sim_ports" "w_fd w = 0"
  shows "\<exists>w'. start_server dead_os (asio_config r) ''gcc'' st w = (Inr (100, 0, 1, 8120), w')"
proof -
  have bin: "get_server_bin (asio_config r) ''gcc'' = Inr ''./build-gcc/tcpserver/tcpserver''"
    by (simp add: get_server_bin_def get_build_dir_def asio_config_def run_bench_config_def path_join_def)
  have port: "get_port ''gcc'' w = (Inr 8120, w)" using assms by (simp add: get_port_def sim_ports_def)
  have run: "\<exists>v'. run_optional_command dead_os cmd v = (Inr (), v') \<and> w_fd v' = w_fd v" for cmd v
    using dead_calls(4) [of "Run cmd" v] by (auto simp: run_optional_command_def io_defs)
  obtain v where v: "run_optional_command dead_os [''fuser'', ''-k'', ''-TERM'', show_int 8120 @ ''/tcp''] w = (Inr (), v)"
    "w_fd v = 0"
    using run assms(2) by metis
  show ?thesis
    by (simp add: start_server_def prepare_server_port_def kill_processes_on_port_def can_bind_port_def bin port v
        io_defs dead_calls split: prod.splits)
qed

theorem campaign_abandons_server_witness:
  "\<exists>e so w'. run_campaign 601 dead_os (asio_config ''/r'')
      (standard_case dead_os (asio_config ''/r'') (PFlt 1)) ''gcc'' 8 steady_world = (Inl e, w') \<and> \<not> is_closed so w'"
proof -
  let ?cfg = "asio_config ''/r''"
  let ?m = "''Starting server for '' @ ''gcc'' @ '' on port '' @ show_int 8120 @ '' with '' @ show_int 8 @ '' threads...''"
  define w1 where "w1 = snd (get_file_size dead_os ?cfg steady_world)"
  define w3 where "w3 = snd (log_msg ?cfg ?m w1)"
  define w4 where "w4 = snd (start_server dead_os ?cfg ''gcc'' 8 w3)"
  have 1: "get_file_size dead_os ?cfg steady_world = (Inr 100, w1)"
    by (simp add: w1_def get_file_size_def sys_int_def dead_os_def steady_os_def)
  have 2: "get_port ''gcc'' w1 = (Inr 8120, w1)"
    by (simp add: w1_def get_port_def get_file_size_def sys_int_def dead_os_def steady_os_def
        steady_world_def sim_ports_def)
  have 3: "log_msg ?cfg ?m w1 = (Inr (), w3)"
    by (simp add: w3_def log_msg_def io_when_def sys_log_def io_return_def)
  have "w_ports w3 = sim_ports" "w_fd w3 = 0"
    by (simp_all add: w3_def w1_def log_msg_def io_when_def sys_log_def io_return_def get_file_size_def sys_int_def
        dead_os_def steady_os_def steady_world_def)
  then have 4: "start_server dead_os ?cfg ''gcc'' 8 w3 = (Inr (100, 0, 1, 8120), w4)"
    using dead_start [of w3 "''/r''" 8] by (auto simp: w4_def)
  obtain w6 where p: "sys_bool dead_os (Poll 100) v = (Inr True, w6 v)" for v
    by (simp add: sys_bool_def dead_os_def)
  have c: "sys_clock dead_os v = (Inr (PFlt 0), logged Clock () v)" for v
    by (simp add: sys_clock_def dead_os_def steady_os_def)
  have wait: "wait_for_server (Suc n) dead_os ?cfg 100 (host ?cfg) 8120 ''gcc'' 8 v =
      server_failure dead_os ?cfg ''gcc'' 8 8120 ''exited before becoming ready.'' (w6 (logged Clock () (logged Clock () v)))" for v n
    by (simp add: wait_for_server_def io_bind_def c num_lt_def p)
  have "(601 :: nat) = Suc 600" by simp
  then obtain e w5 where 5: "wait_for_server 601 dead_os ?cfg 100 (host ?cfg) 8120 ''gcc'' 8 w4 = (Inl e, w5)"
    using server_failure_raises [of dead_os ?cfg "''gcc''" 8 8120 "''exited before becoming ready.''"] wait
    by (metis prod.collapse)
  from campaign_abandons_server [OF 1 2 3 4 5] show ?thesis by blast
qed

end
