(* ===== verification/Merge.thy ===== *)
theory Merge
  imports Energy
begin

text \<open>
  \<open>merge.py\<close>: the PDF reports below a directory are grouped by their directory, every group is
  merged into one file, and all groups, in a preferred order, into another one.  The command
  line arguments are the parameters of \<open>merge_main\<close>; reading a PDF is a call that delivers
  its pages up to the first failure.
\<close>

section \<open>Collecting\<close>

definition ensure_dir :: "'e os \<Rightarrow> string \<Rightarrow> ('e, unit) io" where
  "ensure_dir os path = sys_unit os (Mkdir path)"

definition join_parts :: "string \<Rightarrow> string list \<Rightarrow> string" where
  "join_parts input_dir parts = fold (\<lambda>p acc. path_join acc p) parts input_dir"

definition group_name :: "string list \<Rightarrow> string" where
  "group_name parts =
     (if parts = [] then ''misc'' else py_replace ''/'' ''__'' (join_str ''/'' parts))"

definition pdf_entries :: "string \<Rightarrow> (string list \<times> string list) list \<Rightarrow> (string \<times> string) list" where
  "pdf_entries input_dir dirs =
     concat (map (\<lambda>(parts, files).
       map (\<lambda>name. (group_name parts, path_join (join_parts input_dir parts) name))
         (filter (\<lambda>name. endswith (py_lower name) ''.pdf'') (sort files))) dirs)"

definition group_entries :: "(string \<times> string) list \<Rightarrow> (string, string list) dict" where
  "group_entries entries = fold (\<lambda>(g, path). group_add g path) entries []"

definition collect_pdf_groups :: "'e os \<Rightarrow> string \<Rightarrow> ('e, (string, string list) dict) io" where
  "collect_pdf_groups os input_dir =
     io_bind (sys_walk os input_dir) (\<lambda>dirs. io_return (group_entries (pdf_entries input_dir dirs)))"

section \<open>Merging\<close>

fun read_pages :: "'e os \<Rightarrow> string list \<Rightarrow> string list \<Rightarrow> ('e, string list) io" where
  "read_pages os [] pages = io_return pages"
| "read_pages os (pdf_path # pdf_paths) pages =
     io_bind (sys_pages os pdf_path) (\<lambda>(new, failure).
       case failure of
         None \<Rightarrow> read_pages os pdf_paths (pages @ new)
       | Some e \<Rightarrow>
           if is_Exception e then
             io_then (sys_warn (''WARNING: failed to read '' @ pdf_path @ '': '' @ exn_text e))
               (read_pages os pdf_paths (pages @ new))
           else io_raise e)"

definition merge_pdfs :: "'e os \<Rightarrow> string list \<Rightarrow> string \<Rightarrow> ('e, bool) io" where
  "merge_pdfs os pdf_paths output_path =
     io_bind (read_pages os pdf_paths []) (\<lambda>pages.
       if pages = [] then io_return False
       else io_then (sys_unit os (Write_pages output_path pages)) (io_return True))"

definition preferred_order :: "string list" where
  "preferred_order = [''main_without_raw'', ''comparison_without_raw'', ''main_with_raw'',
     ''comparison_with_raw'', ''per_library'', ''misc'']"

text \<open>One preferred key: every group it matches and that no earlier key has used.\<close>

definition take_matching ::
    "(string, string list) dict \<Rightarrow> string \<Rightarrow> string list \<times> string list \<Rightarrow> string list \<times> string list" where
  "take_matching groups key state =
     fold (\<lambda>(real_key, paths) (ordered, used).
       if endswith real_key key \<and> real_key \<notin> set used then (ordered @ paths, real_key # used)
       else (ordered, used)) groups state"

definition combined_paths :: "(string, string list) dict \<Rightarrow> string list" where
  "combined_paths groups =
     (case fold (take_matching groups) preferred_order ([], []) of (ordered, used) \<Rightarrow>
        fold (\<lambda>(real_key, paths) acc. if real_key \<notin> set used then acc @ paths else acc)
          (sort_key fst groups) ordered)"

definition merge_all_combined :: "'e os \<Rightarrow> (string, string list) dict \<Rightarrow> string \<Rightarrow> ('e, bool) io" where
  "merge_all_combined os groups output_path = merge_pdfs os (combined_paths groups) output_path"

definition merged_name :: "string \<Rightarrow> string" where
  "merged_name g = py_replace ''__'' ''_'' g @ ''_merged.pdf''"

text \<open>The loop over the groups; the flag is \<open>merged_any\<close>.\<close>

fun merge_groups :: "'e os \<Rightarrow> string \<Rightarrow> (string \<times> string list) list \<Rightarrow> bool \<Rightarrow> ('e, bool) io" where
  "merge_groups os output_dir [] merged_any = io_return merged_any"
| "merge_groups os output_dir ((g, pdfs) # groups) merged_any =
     (if pdfs = [] then merge_groups os output_dir groups merged_any
      else let output_path = path_join output_dir (merged_name g) in
        io_bind (merge_pdfs os pdfs output_path) (\<lambda>ok.
          if ok then io_then (sys_log (''Merged PDF written to: '' @ output_path))
                       (merge_groups os output_dir groups True)
          else merge_groups os output_dir groups merged_any))"

definition exit_with :: "string \<Rightarrow> ('e, 'a) io" where
  "exit_with msg = io_then (sys_warn msg) (io_raise (SystemExit 1))"

definition merge_main :: "'e os \<Rightarrow> string \<Rightarrow> string \<Rightarrow> ('e, unit) io" where
  "merge_main os input_dir output_dir =
     io_bind (sys_bool os (Is_dir input_dir)) (\<lambda>is_dir.
     if \<not> is_dir then exit_with (''Error: input directory does not exist: '' @ input_dir)
     else io_then (ensure_dir os output_dir)
       (io_bind (collect_pdf_groups os input_dir) (\<lambda>groups.
        if groups = [] then exit_with ''No PDFs were found to merge.''
        else io_bind (merge_groups os output_dir (sort_key fst groups) False) (\<lambda>merged_any.
          let combined_output = path_join output_dir ''benchmark_global_report_all.pdf'' in
          io_bind (merge_all_combined os groups combined_output) (\<lambda>ok.
          io_then (io_when ok (sys_log (''Combined global PDF written to: '' @ combined_output)))
            (if merged_any \<or> ok then io_return () else exit_with ''No valid PDFs could be merged.''))))))"

section \<open>Grouping loses no file\<close>

lemma dict_get_map: "dict_get (map (\<lambda>(k, xs). (k, f xs)) g) k = map_option f (dict_get g k)"
  by (induction g) auto

lemma dict_set_map: "dict_set k (f v) (map (\<lambda>(k, xs). (k, f xs)) g) = map (\<lambda>(k, xs). (k, f xs)) (dict_set k v g)"
  by (induction g) auto

lemma group_entries_by: "group_entries es = map (\<lambda>(k, xs). (k, map snd xs)) (group_by fst es)"
proof (induction es rule: rev_induct)
  case Nil
  then show ?case by (simp add: group_entries_def group_by_def)
next
  case (snoc e es)
  let ?m = "map (\<lambda>(k, xs). (k, map snd xs))"
  have "group_entries (es @ [e]) = group_add (fst e) (snd e) (group_entries es)"
    by (simp add: group_entries_def split: prod.splits)
  also have "\<dots> = group_add (fst e) (snd e) (?m (group_by fst es))" by (simp only: snoc.IH)
  also have "\<dots> = ?m (group_add (fst e) e (group_by fst es))"
  proof (cases "dict_get (group_by fst es) (fst e)")
    case None
    with dict_set_map [of "fst e" "map snd" "[e]" "group_by fst es"] show ?thesis
      by (simp add: group_add_def dict_get_map)
  next
    case (Some xs)
    with dict_set_map [of "fst e" "map snd" "xs @ [e]" "group_by fst es"] show ?thesis
      by (simp add: group_add_def dict_get_map)
  qed
  finally show ?case by (simp only: group_by_snoc)
qed

lemma group_entries_get:
  "dict_get (group_entries es) g = (if g \<in> fst ` set es then Some (map snd (filter (\<lambda>e. fst e = g) es)) else None)"
  by (simp add: group_entries_by dict_get_map group_by_get)

lemma group_entries_distinct: "distinct (map fst (group_entries es))"
  using group_by_distinct [of fst es] by (simp add: group_entries_by dict_keys_def comp_def case_prod_beta')

lemma mset_filter_key: "mset xs = mset (filter P xs) + mset (filter (\<lambda>x. \<not> P x) xs)"
  by (simp add: union_filter_mset_complement)

lemma group_entries_mset: "mset (concat (map snd (group_entries es))) = mset (map snd es)"
proof (induction es rule: rev_induct)
  case Nil
  then show ?case by (simp add: group_entries_def)
next
  case (snoc e es)
  have "group_entries (es @ [e]) = group_add (fst e) (snd e) (group_entries es)"
    by (simp add: group_entries_def split: prod.splits)
  moreover have "mset (concat (map snd (group_add k x g))) = add_mset x (mset (concat (map snd g)))"
    for k :: string and x :: string and g
  proof -
    have "mset (concat (map snd (dict_set k (ys @ [x]) g))) = add_mset x (mset (concat (map snd g)))"
      if "dict_get g k = Some ys" for ys
      using that by (induction g) (auto split: if_splits)
    moreover have "mset (concat (map snd (dict_set k [x] g))) = add_mset x (mset (concat (map snd g)))"
      if "dict_get g k = None"
      using that by (induction g) (auto split: if_splits)
    ultimately show ?thesis by (auto simp: group_add_def split: option.splits)
  qed
  ultimately show ?case by (simp add: snoc.IH)
qed

section \<open>The combined order\<close>

text \<open>The position of the first preferred key that a group's name ends with.\<close>

fun rank_in :: "string list \<Rightarrow> string \<Rightarrow> nat" where
  "rank_in [] name = 0"
| "rank_in (key # keys) name = (if endswith name key then 0 else Suc (rank_in keys name))"

definition rank :: "string \<Rightarrow> nat" where
  "rank name = rank_in preferred_order name"

lemma take_matching_result:
  assumes "distinct (map fst groups)"
  shows "take_matching groups key (ordered, used) =
    (ordered @ concat (map snd (filter (\<lambda>(k, _). endswith k key \<and> k \<notin> set used) groups)),
     rev (map fst (filter (\<lambda>(k, _). endswith k key \<and> k \<notin> set used) groups)) @ used)"
  using assms
proof (induction groups arbitrary: ordered used)
  case (Cons kp gs)
  obtain k p where kp: "kp = (k, p)" by (cases kp)
  have other: "filter (\<lambda>(k', _). endswith k' key \<and> k' \<notin> set (k # used)) gs
      = filter (\<lambda>(k', _). endswith k' key \<and> k' \<notin> set used) gs"
    using Cons.prems by (intro filter_cong) (force simp: kp)+
  show ?case
    using Cons.IH [of "ordered @ p" "k # used"] Cons.IH [of ordered used] Cons.prems
    unfolding other by (auto simp: kp take_matching_def)
qed (simp add: take_matching_def)

lemma fold_matching:
  assumes "distinct (map fst groups)"
  shows "\<exists>used'. fold (take_matching groups) keys (ordered, used) =
    (ordered @ concat (map (\<lambda>i. concat (map snd (filter (\<lambda>(k, _). rank_in keys k = i \<and> k \<notin> set used) groups))) [0..<length keys]),
     used')
    \<and> (\<forall>k\<in>fst ` set groups. k \<in> set used' \<longleftrightarrow> k \<in> set used \<or> rank_in keys k < length keys)"
proof (induction keys arbitrary: ordered used)
  case (Cons key keys)
  let ?now = "filter (\<lambda>(k, _). endswith k key \<and> k \<notin> set used) groups"
  let ?used = "rev (map fst ?now) @ used"
  obtain used' where IH: "fold (take_matching groups) keys (ordered @ concat (map snd ?now), ?used) =
      ((ordered @ concat (map snd ?now)) @ concat (map (\<lambda>i. concat (map snd (filter (\<lambda>(k, _). rank_in keys k = i \<and> k \<notin> set ?used) groups))) [0..<length keys]),
       used')"
    "\<forall>k\<in>fst ` set groups. k \<in> set used' \<longleftrightarrow> k \<in> set ?used \<or> rank_in keys k < length keys"
    using Cons.IH by blast
  have later: "filter (\<lambda>(k, _). rank_in keys k = i \<and> k \<notin> set ?used) groups
      = filter (\<lambda>(k, _). rank_in (key # keys) k = Suc i \<and> k \<notin> set used) groups" for i
    by (rule filter_cong) (force split: prod.splits)+
  have first: "filter (\<lambda>(k, _). rank_in (key # keys) k = 0 \<and> k \<notin> set used) groups = ?now"
    by (rule filter_cong) (auto split: if_splits)
  have "[0..<length (key # keys)] = 0 # map Suc [0..<length keys]"
    by (simp only: list.size add_Suc_right add_0_right upt_conv_Cons zero_less_Suc map_Suc_upt)
  then have parts: "map (\<lambda>i. concat (map snd (filter (\<lambda>(k, _). rank_in (key # keys) k = i \<and> k \<notin> set used) groups))) [0..<length (key # keys)]
      = concat (map snd ?now) # map (\<lambda>i. concat (map snd (filter (\<lambda>(k, _). rank_in keys k = i \<and> k \<notin> set ?used) groups))) [0..<length keys]"
    by (simp only: list.map map_map comp_def first later)
  have "\<forall>k\<in>fst ` set groups. k \<in> set used' \<longleftrightarrow> k \<in> set used \<or> rank_in (key # keys) k < length (key # keys)"
    using IH(2) by force
  moreover have "fold (take_matching groups) (key # keys) (ordered, used) =
      (ordered @ concat (map (\<lambda>i. concat (map snd (filter (\<lambda>(k, _). rank_in (key # keys) k = i \<and> k \<notin> set used) groups))) [0..<length (key # keys)]),
       used')"
    by (simp only: parts fold.simps comp_apply take_matching_result [OF assms] IH(1) concat.simps append_assoc)
  ultimately show ?case by blast
qed simp

lemma fold_rest:
  "fold (\<lambda>(k, paths) acc. if P k then acc @ paths else acc) gs acc = acc @ concat (map snd (filter (\<lambda>(k, _). P k) gs))"
  by (induction gs arbitrary: acc) (auto split: prod.splits)

definition ranked_paths :: "(string, string list) dict \<Rightarrow> string list" where
  "ranked_paths groups =
     concat (map (\<lambda>i. concat (map snd (filter (\<lambda>(k, _). rank k = i) groups))) [0..<6])
     @ concat (map snd (sort_key fst (filter (\<lambda>(k, _). 6 \<le> rank k) groups)))"

lemma combined_ranked:
  assumes "distinct (map fst groups)"
  shows "combined_paths groups = ranked_paths groups"
proof -
  have len: "length preferred_order = 6" by (simp add: preferred_order_def)
  obtain used where u: "fold (take_matching groups) preferred_order ([], []) =
      (concat (map (\<lambda>i. concat (map snd (filter (\<lambda>(k, _). rank_in preferred_order k = i \<and> k \<notin> set []) groups))) [0..<6]), used)"
    "\<forall>k\<in>fst ` set groups. k \<in> set used \<longleftrightarrow> k \<in> set [] \<or> rank_in preferred_order k < 6"
    using fold_matching [OF assms, of preferred_order "[]" "[]"] unfolding len by auto
  have "filter (\<lambda>(k, _). k \<notin> set used) (sort_key fst groups) = filter (\<lambda>(k, _). 6 \<le> rank k) (sort_key fst groups)"
    using u(2) by (intro filter_cong) (force simp: rank_def)+
  also have "\<dots> = sort_key fst (filter (\<lambda>(k, _). 6 \<le> rank k) groups)"
    by (rule filter_sort)
  finally show ?thesis
    using u(1) by (simp add: combined_paths_def ranked_paths_def fold_rest rank_def)
qed

lemma mset_paths_filter:
  "mset (concat (map snd (filter P gs))) + mset (concat (map snd (filter (\<lambda>g. \<not> P g) gs))) = mset (concat (map snd gs))"
  by (induction gs) auto

lemma mset_paths_sort: "mset (concat (map snd (sort_key f gs))) = mset (concat (map snd gs))"
  unfolding mset_concat by (metis mset_map mset_sort sum_mset_sum_list)

lemma mset_ranks:
  "mset (concat (map (\<lambda>i. concat (map snd (filter (\<lambda>(k, _). r k = i) gs))) [0..<n]))
    = mset (concat (map snd (filter (\<lambda>(k, _). r k < n) gs)))"
proof (induction n)
  case (Suc n)
  have "filter (\<lambda>g. r (fst g) < n) (filter (\<lambda>g. r (fst g) < Suc n) gs) = filter (\<lambda>g. r (fst g) < n) gs"
    "filter (\<lambda>g. \<not> r (fst g) < n) (filter (\<lambda>g. r (fst g) < Suc n) gs) = filter (\<lambda>g. r (fst g) = n) gs"
    by (simp_all, (rule filter_cong, auto)+)
  with mset_paths_filter [of "\<lambda>g. r (fst g) < n" "filter (\<lambda>g. r (fst g) < Suc n) gs"] Suc.IH show ?case
    by (simp add: case_prod_beta')
qed simp

lemma combined_permutation:
  assumes "distinct (map fst groups)"
  shows "mset (combined_paths groups) = mset (concat (map snd groups))"
proof -
  have "mset (concat (map snd (filter (\<lambda>(k, _). rank k < 6) groups)))
      + mset (concat (map snd (filter (\<lambda>(k, _). 6 \<le> rank k) groups))) = mset (concat (map snd groups))"
    using mset_paths_filter [of "\<lambda>g. rank (fst g) < 6" groups] by (simp add: not_less case_prod_beta')
  then show ?thesis
    by (simp add: combined_ranked [OF assms] ranked_paths_def mset_ranks mset_paths_sort)
qed

text \<open>
  Claim C10. The combined report contains every PDF below the input directory exactly once, in this
  order: the groups by the first preferred key that ends their name, groups of the same key in
  the order in which the directories were visited, and the groups without one sorted by name.
\<close>

theorem combined_order_correct:
  "combined_paths (group_entries (pdf_entries input_dir dirs)) = ranked_paths (group_entries (pdf_entries input_dir dirs))
   \<and> mset (combined_paths (group_entries (pdf_entries input_dir dirs))) = mset (map snd (pdf_entries input_dir dirs))"
  using combined_ranked [OF group_entries_distinct] combined_permutation [OF group_entries_distinct]
    group_entries_mset by metis

text \<open>
  Two directories can share an output file: the group of \<open>a/b\<close> and the group of \<open>a_b\<close> are
  different but get the same name, so the later one overwrites the merged report of the other.
\<close>

theorem merged_names_collide:
  "group_name [''a'', ''b''] \<noteq> group_name [''a_b''] \<and> merged_name (group_name [''a'', ''b'']) = merged_name (group_name [''a_b''])"
  by code_simp

section \<open>What is merged\<close>

text \<open>Files that do not change while they are read: each delivers its pages and then, perhaps, a failure.\<close>

definition static_pages :: "'e os \<Rightarrow> (string \<Rightarrow> string list \<times> exn option) \<Rightarrow> bool" where
  "static_pages os content \<longleftrightarrow> (\<forall>p e. os_pages os p e = (content p, e))"

lemma read_pages_all:
  assumes "static_pages os content"
    and "\<forall>p\<in>set paths. \<forall>x. snd (content p) = Some x \<longrightarrow> is_Exception x"
  shows "\<exists>w'. read_pages os paths pages w = (Inr (pages @ concat (map (fst \<circ> content) paths)), w')
    \<and> w_env w' = w_env w
    \<and> (\<exists>t. w_trace w' = w_trace w @ t \<and> (\<forall>q\<in>set t. \<forall>out ps. q \<noteq> Write_pages out ps))"
  using assms(2)
proof (induction paths arbitrary: pages w)
  case Nil
  then show ?case by (simp add: io_return_def)
next
  case (Cons p paths)
  let ?w1 = "logged (Read_pages p) (w_env w) w"
  have read: "sys_pages os p w = (Inr (content p), ?w1)"
    using assms(1) by (simp add: sys_pages_def static_pages_def)
  obtain new failure where c: "content p = (new, failure)" by (cases "content p")
  have "\<exists>w2. read_pages os (p # paths) pages w = read_pages os paths (pages @ new) w2 \<and> w_env w2 = w_env w
      \<and> (\<exists>t. w_trace w2 = w_trace w @ t \<and> (\<forall>q\<in>set t. \<forall>out ps. q \<noteq> Write_pages out ps))"
  proof (cases failure)
    case None
    then show ?thesis by (intro exI [of _ ?w1]) (simp add: io_bind_def read c)
  next
    case (Some x)
    then have "is_Exception x" using Cons.prems c by auto
    with Some show ?thesis
      by (intro exI [of _ "snd (sys_warn (''WARNING: failed to read '' @ p @ '': '' @ exn_text x) ?w1)"])
        (simp add: io_bind_def io_then_def read c sys_warn_def)
  qed
  then obtain w2 t where w2: "read_pages os (p # paths) pages w = read_pages os paths (pages @ new) w2"
    "w_env w2 = w_env w" "w_trace w2 = w_trace w @ t" "\<forall>q\<in>set t. \<forall>out ps. q \<noteq> Write_pages out ps" by blast
  obtain w' t' where "read_pages os paths (pages @ new) w2 = (Inr ((pages @ new) @ concat (map (fst \<circ> content) paths)), w')"
    "w_env w' = w_env w2" "w_trace w' = w_trace w2 @ t'" "\<forall>q\<in>set t'. \<forall>out ps. q \<noteq> Write_pages out ps"
  proof -
    have "\<forall>p\<in>set paths. \<forall>x. snd (content p) = Some x \<longrightarrow> is_Exception x" using Cons.prems by simp
    from Cons.IH [OF this, of "pages @ new" w2] that show ?thesis by blast
  qed
  with w2 c show ?case by (auto simp: comp_def intro!: exI [of _ "t @ t'"])
qed

text \<open>
  Claim C36. \<open>merge_pdfs\<close> writes exactly the pages its files deliver, in order; a broken file
  contributes the pages before its failure and does not stop the others.  It returns \<open>False\<close>,
  and writes nothing, exactly when there is no page at all.
\<close>

theorem merge_pdfs_pages:
  assumes "static_pages os content" "\<forall>p\<in>set paths. \<forall>x. snd (content p) = Some x \<longrightarrow> is_Exception x"
    and "\<forall>q e. fst (os_unit os q e) = Inr ()"
  shows "\<exists>w' t. merge_pdfs os paths out w = (Inr (concat (map (fst \<circ> content) paths) \<noteq> []), w')
    \<and> w_trace w' = w_trace w @ t @ (if concat (map (fst \<circ> content) paths) = [] then []
        else [Write_pages out (concat (map (fst \<circ> content) paths))])
    \<and> (\<forall>q\<in>set t. \<forall>out ps. q \<noteq> Write_pages out ps)"
proof -
  let ?pages = "concat (map (fst \<circ> content) paths)"
  obtain w1 t where w1: "read_pages os paths [] w = (Inr ?pages, w1)" "w_trace w1 = w_trace w @ t"
    "\<forall>q\<in>set t. \<forall>out ps. q \<noteq> Write_pages out ps"
    using read_pages_all [OF assms(1,2), of "[]" w] by auto
  obtain e where "sys_unit os (Write_pages out ?pages) w1 = (Inr (), logged (Write_pages out ?pages) e w1)"
    using assms(3) by (cases "os_unit os (Write_pages out ?pages) (w_env w1)")
      (auto simp: sys_unit_def dest!: spec [of _ "Write_pages out ?pages"] spec [of _ "w_env w1"])
  with w1 show ?thesis
    by (cases "?pages = []") (auto simp: merge_pdfs_def io_defs intro!: exI [of _ t])
qed

definition two_pdfs :: "string \<Rightarrow> string list \<times> exn option" where
  "two_pdfs p = (if p = ''a.pdf'' then ([''p1'', ''p2''], None) else ([''q1''], Some (OtherException ''broken'')))"

definition pdf_os :: "sim os" where
  "pdf_os = sim_os\<lparr>os_unit := (\<lambda>q e. (Inr (), e)), os_pages := (\<lambda>p e. (two_pdfs p, e))\<rparr>"

theorem merge_pdfs_pages_witness:
  "\<exists>w' t. merge_pdfs pdf_os [''b.pdf'', ''a.pdf''] ''out.pdf'' (sim_world sim_start []) = (Inr True, w')
    \<and> w_trace w' = t @ [Write_pages ''out.pdf'' [''q1'', ''p1'', ''p2'']]"
proof -
  have "static_pages pdf_os two_pdfs" "\<forall>q e. fst (os_unit pdf_os q e) = Inr ()"
    "\<forall>p\<in>set [''b.pdf'', ''a.pdf'']. \<forall>x. snd (two_pdfs p) = Some x \<longrightarrow> is_Exception x"
    by (simp_all add: static_pages_def pdf_os_def two_pdfs_def)
  from merge_pdfs_pages [OF this(1,3,2), of "''out.pdf''" "sim_world sim_start []"] show ?thesis
    by (auto simp: two_pdfs_def)
qed

section \<open>The exit status\<close>

text \<open>No call of the machine ends the program.\<close>

definition no_exit :: "'e os \<Rightarrow> bool" where
  "no_exit os \<longleftrightarrow> (\<forall>q e n. fst (os_unit os q e) \<noteq> Inl (SystemExit n)) \<and> (\<forall>p e n. snd (fst (os_pages os p e)) \<noteq> Some (SystemExit n))"

definition wrote :: "call list \<Rightarrow> bool" where
  "wrote t \<longleftrightarrow> (\<exists>out ps. Write_pages out ps \<in> set t \<and> ps \<noteq> [])"

definition only_full :: "call list \<Rightarrow> bool" where
  "only_full t \<longleftrightarrow> (\<forall>out ps. Write_pages out ps \<in> set t \<longrightarrow> ps \<noteq> [])"

lemma read_pages_outcome:
  assumes "no_exit os" "read_pages os paths pages w = (r, w')"
  shows "(\<forall>n. r \<noteq> Inl (SystemExit n)) \<and> (\<exists>t. w_trace w' = w_trace w @ t \<and> (\<forall>q\<in>set t. \<forall>out ps. q \<noteq> Write_pages out ps))"
  using assms(2)
proof (induction paths arbitrary: pages w)
  case Nil
  then show ?case by (auto simp: io_return_def)
next
  case (Cons p paths)
  obtain new failure e where rd: "os_pages os p (w_env w) = ((new, failure), e)"
    by (metis prod.collapse)
  let ?w1 = "logged (Read_pages p) e w"
  have read: "sys_pages os p w = (Inr (new, failure), ?w1)" by (simp add: sys_pages_def rd)
  have ne: "failure \<noteq> Some (SystemExit n)" for n
    using assms(1) rd unfolding no_exit_def by (metis fst_conv snd_conv)
  show ?case
  proof (cases failure)
    case None
    with Cons.prems have "read_pages os paths (pages @ new) ?w1 = (r, w')" by (simp add: io_bind_def read)
    from Cons.IH [OF this] show ?thesis by auto
  next
    case (Some x)
    show ?thesis
    proof (cases "is_Exception x")
      case True
      let ?m = "''WARNING: failed to read '' @ p @ '': '' @ exn_text x"
      have "read_pages os paths (pages @ new) (snd (sys_warn ?m ?w1)) = (r, w')"
        using Cons.prems True Some by (simp add: io_bind_def io_then_def read sys_warn_def)
      from Cons.IH [OF this] show ?thesis by (auto simp: sys_warn_def)
    next
      case False
      with Cons.prems Some have "r = Inl x" "w' = ?w1" by (simp_all add: io_bind_def io_raise_def read)
      with ne Some show ?thesis by auto
    qed
  qed
qed

lemma merge_pdfs_outcome:
  assumes "no_exit os" "merge_pdfs os paths out w = (r, w')"
  shows "(\<forall>n. r \<noteq> Inl (SystemExit n)) \<and> (\<exists>t. w_trace w' = w_trace w @ t \<and> only_full t \<and> (\<forall>b. r = Inr b \<longrightarrow> b = wrote t))"
proof -
  obtain r1 w1 where 1: "read_pages os paths [] w = (r1, w1)" by fastforce
  obtain t where t: "\<forall>n. r1 \<noteq> Inl (SystemExit n)" "w_trace w1 = w_trace w @ t" "\<forall>q\<in>set t. \<forall>out ps. q \<noteq> Write_pages out ps"
    using read_pages_outcome [OF assms(1) 1] by blast
  have quiet: "only_full t" "\<not> wrote t" using t(3) by (auto simp: only_full_def wrote_def)
  show ?thesis
  proof (cases r1)
    case (Inl x)
    with assms(2) 1 have "r = Inl x" "w' = w1" by (simp_all add: merge_pdfs_def io_bind_def)
    with t Inl quiet show ?thesis by auto
  next
    case (Inr pages)
    show ?thesis
    proof (cases "pages = []")
      case True
      with assms(2) 1 Inr have "r = Inr False" "w' = w1" by (simp_all add: merge_pdfs_def io_bind_def io_return_def)
      with t quiet show ?thesis by auto
    next
      case False
      obtain u e where u: "os_unit os (Write_pages out pages) (w_env w1) = (u, e)" by fastforce
      with assms(1) have "u \<noteq> Inl (SystemExit n)" for n unfolding no_exit_def by (metis fst_conv)
      moreover have "only_full (t @ [Write_pages out pages])" "wrote (t @ [Write_pages out pages])"
        using t(3) False by (auto simp: only_full_def wrote_def)
      ultimately show ?thesis
        using assms(2) 1 Inr False u t(2)
        by (cases u) (auto simp: merge_pdfs_def io_defs sys_unit_def intro!: exI [of _ "t @ [Write_pages out pages]"])
    qed
  qed
qed

lemma merge_groups_outcome:
  assumes "no_exit os" "merge_groups os out_dir gs merged w = (r, w')"
  shows "(\<forall>n. r \<noteq> Inl (SystemExit n)) \<and> (\<exists>t. w_trace w' = w_trace w @ t \<and> only_full t \<and> (\<forall>b. r = Inr b \<longrightarrow> b = (merged \<or> wrote t)))"
  using assms(2)
proof (induction gs arbitrary: merged w)
  case Nil
  then show ?case by (auto simp: io_return_def only_full_def wrote_def)
next
  case (Cons gp gs)
  obtain g pdfs where gp: "gp = (g, pdfs)" by (cases gp)
  show ?case
  proof (cases "pdfs = []")
    case True
    with Cons gp show ?thesis by simp
  next
    case False
    let ?out = "path_join out_dir (merged_name g)"
    obtain r1 w1 where 1: "merge_pdfs os pdfs ?out w = (r1, w1)" by fastforce
    obtain t where t: "\<forall>n. r1 \<noteq> Inl (SystemExit n)" "w_trace w1 = w_trace w @ t" "only_full t"
      "\<forall>b. r1 = Inr b \<longrightarrow> b = wrote t"
      using merge_pdfs_outcome [OF assms(1) 1] by blast
    show ?thesis
    proof (cases r1)
      case (Inl x)
      with Cons.prems gp False 1 have "r = Inl x" "w' = w1" by (simp_all add: Let_def io_bind_def)
      with t Inl show ?thesis by auto
    next
      case (Inr ok)
      let ?w2 = "if ok then snd (sys_log (''Merged PDF written to: '' @ ?out) w1) else w1"
      have "merge_groups os out_dir gs (merged \<or> ok) ?w2 = (r, w')"
        using Cons.prems gp False 1 Inr by (cases ok) (simp_all add: Let_def io_bind_def io_then_def sys_log_def)
      from Cons.IH [OF this] obtain t2 where t2: "\<forall>n. r \<noteq> Inl (SystemExit n)" "w_trace w' = w_trace ?w2 @ t2"
        "only_full t2" "\<forall>b. r = Inr b \<longrightarrow> b = ((merged \<or> ok) \<or> wrote t2)" by blast
      obtain m where m: "w_trace ?w2 = w_trace w1 @ m" "only_full m" "\<not> wrote m"
        by (cases ok) (auto simp: sys_log_def only_full_def wrote_def)
      have "ok = wrote t" using t(4) Inr by simp
      moreover have "w_trace w' = w_trace w @ (t @ m @ t2)" using t2(2) m(1) t(2) by simp
      moreover have "only_full (t @ m @ t2)" using t(3) m(2) t2(3) by (auto simp: only_full_def)
      moreover have "wrote (t @ m @ t2) = (wrote t \<or> wrote t2)" using m(3) by (auto simp: wrote_def)
      ultimately show ?thesis using t2(1,4) by blast
    qed
  qed
qed

lemma exit_with_result: "exit_with msg w = (Inl (SystemExit 1), logged (Warn msg) (w_env w) w)"
  by (simp add: exit_with_def io_defs sys_warn_def)

definition merge_rest :: "'e os \<Rightarrow> string \<Rightarrow> (string, string list) dict \<Rightarrow> ('e, unit) io" where
  "merge_rest os output_dir groups =
     io_bind (merge_groups os output_dir (sort_key fst groups) False) (\<lambda>merged_any.
       let combined_output = path_join output_dir ''benchmark_global_report_all.pdf'' in
       io_bind (merge_all_combined os groups combined_output) (\<lambda>ok.
       io_then (io_when ok (sys_log (''Combined global PDF written to: '' @ combined_output)))
         (if merged_any \<or> ok then io_return () else exit_with ''No valid PDFs could be merged.'')))"

definition fair_end :: "call list \<Rightarrow> unit py \<Rightarrow> bool" where
  "fair_end t r \<longleftrightarrow> only_full t \<and> (r = Inr () \<longrightarrow> wrote t) \<and> (\<forall>n. r = Inl (SystemExit n) \<longrightarrow> n = 1 \<and> \<not> wrote t)"

lemma fair_prefix: "fair_end t r \<Longrightarrow> \<forall>q\<in>set pre. \<forall>out ps. q \<noteq> Write_pages out ps \<Longrightarrow> fair_end (pre @ t) r"
  unfolding fair_end_def only_full_def wrote_def by (auto 4 3)

lemma merge_rest_outcome:
  assumes "no_exit os" "merge_rest os output_dir groups w = (r, w')"
  shows "\<exists>t. w_trace w' = w_trace w @ t \<and> fair_end t r"
proof -
  let ?out = "path_join output_dir ''benchmark_global_report_all.pdf''"
  obtain r1 w1 where 1: "merge_groups os output_dir (sort_key fst groups) False w = (r1, w1)" by fastforce
  obtain t1 where t1: "\<forall>n. r1 \<noteq> Inl (SystemExit n)" "w_trace w1 = w_trace w @ t1" "only_full t1"
    "\<forall>b. r1 = Inr b \<longrightarrow> b = wrote t1"
    using merge_groups_outcome [OF assms(1) 1] by auto
  show ?thesis
  proof (cases r1)
    case (Inl x)
    with assms(2) 1 have "r = Inl x" "w' = w1" by (simp_all add: merge_rest_def Let_def io_bind_def)
    with t1 Inl show ?thesis by (auto simp: fair_end_def)
  next
    case (Inr merged)
    obtain r2 w2 where 2: "merge_all_combined os groups ?out w1 = (r2, w2)" by fastforce
    obtain t2 where t2: "\<forall>n. r2 \<noteq> Inl (SystemExit n)" "w_trace w2 = w_trace w1 @ t2" "only_full t2"
      "\<forall>b. r2 = Inr b \<longrightarrow> b = wrote t2"
      using merge_pdfs_outcome [OF assms(1) 2 [unfolded merge_all_combined_def]] by auto
    have full: "only_full (t1 @ t2)" "wrote (t1 @ t2) = (wrote t1 \<or> wrote t2)"
      using t1(3) t2(3) by (auto simp: only_full_def wrote_def)
    show ?thesis
    proof (cases r2)
      case (Inl x)
      with assms(2) 1 2 Inr have "r = Inl x" "w' = w2" by (simp_all add: merge_rest_def Let_def io_bind_def)
      with t1 t2 full Inl show ?thesis by (auto simp: fair_end_def)
    next
      case r2: (Inr ok)
      let ?m = "''Combined global PDF written to: '' @ ?out"
      have b: "merged = wrote t1" "ok = wrote t2" using t1(4) t2(4) Inr r2 by auto
      have "\<exists>m. w_trace w' = w_trace w2 @ m \<and> (\<forall>q\<in>set m. \<forall>out ps. q \<noteq> Write_pages out ps)
          \<and> r = (if merged \<or> ok then Inr () else Inl (SystemExit 1))"
        using assms(2) 1 2 Inr r2
        by (cases ok; cases merged) (auto simp: merge_rest_def Let_def io_bind_def io_then_def io_when_def io_return_def
            sys_log_def exit_with_result)
      then obtain m where m: "w_trace w' = w_trace w2 @ m" "\<forall>q\<in>set m. \<forall>out ps. q \<noteq> Write_pages out ps"
        "r = (if merged \<or> ok then Inr () else Inl (SystemExit 1))" by blast
      have "only_full (t1 @ t2 @ m)" "wrote (t1 @ t2 @ m) = (merged \<or> ok)"
        using full m(2) b by (auto simp: only_full_def wrote_def)
      with m t1(2) t2(2) show ?thesis
        by (intro exI [of _ "t1 @ t2 @ m"]) (auto simp: fair_end_def)
    qed
  qed
qed

lemma merge_main_stages:
  "merge_main os input_dir output_dir =
     io_bind (sys_bool os (Is_dir input_dir)) (\<lambda>is_dir.
     if \<not> is_dir then exit_with (''Error: input directory does not exist: '' @ input_dir)
     else io_then (ensure_dir os output_dir)
       (io_bind (collect_pdf_groups os input_dir) (\<lambda>groups.
        if groups = [] then exit_with ''No PDFs were found to merge.'' else merge_rest os output_dir groups)))"
  unfolding merge_main_def merge_rest_def by (rule refl)

text \<open>
  Claim C37. The exit status tells whether anything was written: when \<open>merge.py\<close> ends normally it
  has written a merged file, when it exits it does so with status 1 and has written none, and
  no file it writes is ever empty.
\<close>

theorem merge_main_outcome:
  assumes "no_exit os" "merge_main os input_dir output_dir w = (r, w')"
  shows "\<exists>t. w_trace w' = w_trace w @ t \<and> only_full t \<and> (r = Inr () \<longrightarrow> wrote t)
    \<and> (\<forall>n. r = Inl (SystemExit n) \<longrightarrow> n = 1 \<and> \<not> wrote t)"
proof -
  obtain is_dir e where d: "os_bool os (Is_dir input_dir) (w_env w) = (is_dir, e)" by fastforce
  let ?w1 = "logged (Is_dir input_dir) e w"
  have dir: "sys_bool os (Is_dir input_dir) w = (Inr is_dir, ?w1)" by (simp add: sys_bool_def d)
  have plain: "only_full [Is_dir input_dir, Warn m]" "\<not> wrote [Is_dir input_dir, Warn m]" for m
    by (auto simp: only_full_def wrote_def)
  show ?thesis
  proof (cases is_dir)
    case False
    with assms(2) dir have "r = Inl (SystemExit 1)"
      "w_trace w' = w_trace w @ [Is_dir input_dir, Warn (''Error: input directory does not exist: '' @ input_dir)]"
      by (auto simp: merge_main_def io_bind_def exit_with_result)
    with plain show ?thesis by blast
  next
    case True
    obtain u e2 where u: "os_unit os (Mkdir output_dir) (w_env ?w1) = (u, e2)" by fastforce
    let ?w2 = "logged (Mkdir output_dir) e2 ?w1"
    have mk: "ensure_dir os output_dir ?w1 = (u, ?w2)" using u by (simp add: ensure_dir_def sys_unit_def)
    have no: "u \<noteq> Inl (SystemExit n)" for n
      using assms(1) u unfolding no_exit_def by (metis fst_conv)
    show ?thesis
    proof (cases u)
      case (Inl x)
      with assms(2) dir mk True have "r = Inl x" "w_trace w' = w_trace w @ [Is_dir input_dir, Mkdir output_dir]"
        by (auto simp: merge_main_def io_bind_def io_then_def)
      moreover have "only_full [Is_dir input_dir, Mkdir output_dir]" by (simp add: only_full_def)
      ultimately show ?thesis using no Inl by blast
    next
      case (Inr y)
      obtain dirs e3 where wk: "os_walk os input_dir (w_env ?w2) = (dirs, e3)" by fastforce
      let ?groups = "group_entries (pdf_entries input_dir dirs)" and ?w3 = "logged (Walk input_dir) e3 ?w2"
      let ?pre = "[Is_dir input_dir, Mkdir output_dir, Walk input_dir]"
      have collect: "collect_pdf_groups os input_dir ?w2 = (Inr ?groups, ?w3)"
        using wk by (simp add: collect_pdf_groups_def io_bind_def io_return_def sys_walk_def)
      have main: "(if ?groups = [] then exit_with ''No PDFs were found to merge.'' else merge_rest os output_dir ?groups) ?w3 = (r, w')"
        using assms(2) True Inr by (simp add: merge_main_stages io_bind_def io_then_def dir mk collect)
      have "\<exists>t. w_trace w' = w_trace ?w3 @ t \<and> fair_end t r"
      proof (cases "?groups = []")
        case True
        then show ?thesis
          using main by (auto simp: exit_with_result fair_end_def only_full_def wrote_def)
      next
        case False
        then have "merge_rest os output_dir ?groups ?w3 = (r, w')" using main by simp
        then show ?thesis by (rule merge_rest_outcome [OF assms(1)])
      qed
      then obtain t where t: "w_trace w' = w_trace ?w3 @ t" "fair_end t r" by blast
      have "fair_end (?pre @ t) r" by (rule fair_prefix [OF t(2)]) simp
      then show ?thesis using t(1) by (intro exI [of _ "?pre @ t"]) (simp add: fair_end_def)
    qed
  qed
qed

theorem merge_main_outcome_witness:
  "\<exists>t. w_trace (snd (merge_main sim_os ''reports'' ''out'' (sim_world sim_start []))) = t \<and> \<not> wrote t
    \<and> fst (merge_main sim_os ''reports'' ''out'' (sim_world sim_start [])) = Inl (SystemExit 1)"
proof -
  let ?run = "merge_main sim_os ''reports'' ''out'' (sim_world sim_start [])"
  have exit: "no_exit (sim_os :: sim os)"
  proof -
    have "fst (sim_unit q e) \<noteq> Inl (SystemExit n)" for q e n
      by (cases q) auto
    then show ?thesis by (simp add: no_exit_def sim_os_def)
  qed
  have run: "fst ?run = Inl (SystemExit 1)"
    by (simp add: merge_main_def io_bind_def io_then_def sys_bool_def ensure_dir_def sys_unit_def collect_pdf_groups_def
        sys_walk_def io_return_def pdf_entries_def group_entries_def exit_with_result sim_os_def)
  obtain w' where w': "?run = (Inl (SystemExit 1), w')" using run by (metis prod.collapse)
  from merge_main_outcome [OF exit w'] show ?thesis by (auto simp: w')
qed

end
