(* ===== verification/Summary.thy ===== *)
theory Summary
  imports Campaign "HOL-Library.Product_Lexorder"
begin

text \<open>
  \<open>summarize_results\<close> of \<open>scripts/run_bench.py\<close>: the records of a campaign are grouped by
  compiler, thread count and clients, the groups are sorted, and every metric of a group is
  reduced by \<open>compute_stats\<close>.  The JSON forms of the records and summaries are what the
  script stores and \<open>build_master_summary.py\<close> reads; \<open>write_csv\<close> stores the records as a table.
\<close>

section \<open>summarize_results\<close>

record summary_item =
  si_compiler :: string
  si_server_threads :: int
  si_parallel_bench_processes :: int
  si_runs :: int
  si_elapsed_s_stats :: "stats option"
  si_elapsed_ms_stats :: "stats option"
  si_energy_j_raw_stats :: "stats option"
  si_idle_energy_j_estimated_stats :: "stats option"
  si_energy_j_stats :: "stats option"
  si_throughput_mib_s_stats :: "stats option"
  si_downloads_per_process_stats :: "stats option"
  si_total_iterations_stats :: "stats option"
  si_success_stats :: "stats option"
  si_failed_stats :: "stats option"

type_synonym case_key = "string \<times> int \<times> int"

definition case_key :: "bench_result \<Rightarrow> case_key" where
  "case_key r = (br_compiler r, br_server_threads r, br_parallel_bench_processes r)"

definition summarize_group :: "case_key \<times> bench_result list \<Rightarrow> summary_item py" where
  "summarize_group g =
     (case g of ((compiler, server_threads, parallel_bench_processes), items) \<Rightarrow>
       res_bind (compute_stats (map br_elapsed_s items)) (\<lambda>elapsed_s.
       res_bind (compute_stats (map br_elapsed_ms items)) (\<lambda>elapsed_ms.
       res_bind (compute_stats (map br_energy_j_raw items)) (\<lambda>energy_j_raw.
       res_bind (compute_stats (map br_idle_energy_j_estimated items)) (\<lambda>idle_energy.
       res_bind (compute_stats (map br_energy_j items)) (\<lambda>energy_j.
       res_bind (compute_stats (map br_throughput_mib_s items)) (\<lambda>throughput_mib_s.
       res_bind (compute_stats (map br_downloads_per_process items)) (\<lambda>downloads.
       res_bind (compute_stats (map br_total_iterations items)) (\<lambda>iterations.
       res_bind (compute_stats (map (\<lambda>x. PInt (br_success x)) items)) (\<lambda>success.
       res_bind (compute_stats (map (\<lambda>x. PInt (br_failed x)) items)) (\<lambda>failed.
         Inr \<lparr>si_compiler = compiler, si_server_threads = server_threads,
           si_parallel_bench_processes = parallel_bench_processes, si_runs = int (length items),
           si_elapsed_s_stats = elapsed_s, si_elapsed_ms_stats = elapsed_ms,
           si_energy_j_raw_stats = energy_j_raw, si_idle_energy_j_estimated_stats = idle_energy,
           si_energy_j_stats = energy_j, si_throughput_mib_s_stats = throughput_mib_s,
           si_downloads_per_process_stats = downloads, si_total_iterations_stats = iterations,
           si_success_stats = success, si_failed_stats = failed\<rparr>)))))))))))"

definition summarize_results :: "bench_result list \<Rightarrow> summary_item list py" where
  "summarize_results results = res_map summarize_group (sort_key fst (group_by case_key results))"

section \<open>The stored forms\<close>

definition stats_json :: "stats option \<Rightarrow> pyval" where
  "stats_json s =
     (case s of None \<Rightarrow> VNone
      | Some st \<Rightarrow> VDict
         [(''count'', VNum (PInt (st_count st))), (''mean'', VNum (st_mean st)),
          (''median'', VNum (st_median st)), (''stdev'', VNum (st_stdev st)),
          (''min'', VNum (st_min st)), (''max'', VNum (st_max st)),
          (''p25'', case st_p25 st of None \<Rightarrow> VNone | Some v \<Rightarrow> VNum v),
          (''p50'', case st_p50 st of None \<Rightarrow> VNone | Some v \<Rightarrow> VNum v),
          (''p95'', case st_p95 st of None \<Rightarrow> VNone | Some v \<Rightarrow> VNum v)])"

definition summary_item_json :: "summary_item \<Rightarrow> pydict" where
  "summary_item_json s =
     [(''compiler'', VStr (si_compiler s)), (''server_threads'', VNum (PInt (si_server_threads s))),
      (''parallel_bench_processes'', VNum (PInt (si_parallel_bench_processes s))),
      (''runs'', VNum (PInt (si_runs s))),
      (''elapsed_s_stats'', stats_json (si_elapsed_s_stats s)),
      (''elapsed_ms_stats'', stats_json (si_elapsed_ms_stats s)),
      (''energy_j_raw_stats'', stats_json (si_energy_j_raw_stats s)),
      (''idle_energy_j_estimated_stats'', stats_json (si_idle_energy_j_estimated_stats s)),
      (''energy_j_stats'', stats_json (si_energy_j_stats s)),
      (''throughput_mib_s_stats'', stats_json (si_throughput_mib_s_stats s)),
      (''downloads_per_process_stats'', stats_json (si_downloads_per_process_stats s)),
      (''total_iterations_stats'', stats_json (si_total_iterations_stats s)),
      (''success_stats'', stats_json (si_success_stats s)),
      (''failed_stats'', stats_json (si_failed_stats s))]"

definition result_json :: "bench_result \<Rightarrow> pydict" where
  "result_json r =
     [(''compiler'', VStr (br_compiler r)), (''port'', VNum (PInt (br_port r))),
      (''server_threads'', VNum (PInt (br_server_threads r))),
      (''parallel_bench_processes'', VNum (PInt (br_parallel_bench_processes r))),
      (''repetition'', VNum (PInt (br_repetition r))), (''success'', VNum (PInt (br_success r))),
      (''failed'', VNum (PInt (br_failed r))), (''total_iterations'', VNum (br_total_iterations r)),
      (''downloads_per_process'', VNum (br_downloads_per_process r)),
      (''elapsed_s'', VNum (br_elapsed_s r)), (''elapsed_ms'', VNum (br_elapsed_ms r)),
      (''idle_power_w'', VNum (br_idle_power_w r)), (''energy_j_raw'', VNum (br_energy_j_raw r)),
      (''idle_energy_j_estimated'', VNum (br_idle_energy_j_estimated r)),
      (''energy_j'', VNum (br_energy_j r)),
      (''real_transferred_bytes'', VNum (br_real_transferred_bytes r)),
      (''throughput_mib_s'', VNum (br_throughput_mib_s r)),
      (''benchmark_json_files'', VList (map VStr (br_benchmark_json_files r)))]"

definition csv_fieldnames :: "string list" where
  "csv_fieldnames = [''compiler'', ''port'', ''server_threads'', ''parallel_bench_processes'', ''repetition'',
     ''success'', ''failed'', ''total_iterations'', ''downloads_per_process'', ''elapsed_s'', ''elapsed_ms'',
     ''idle_power_w'', ''energy_j_raw'', ''idle_energy_j_estimated'', ''energy_j'',
     ''real_transferred_bytes'', ''throughput_mib_s'']"

definition csv_row :: "pydict \<Rightarrow> pydict" where
  "csv_row row = map (\<lambda>k. (k, case dict_get row k of None \<Rightarrow> VNone | Some v \<Rightarrow> v)) csv_fieldnames"

definition write_csv :: "'e os \<Rightarrow> bench_config \<Rightarrow> bench_result list \<Rightarrow> ('e, unit) io" where
  "write_csv os cfg results =
     sys_unit os (Write_csv (csv_results cfg) csv_fieldnames (map (\<lambda>r. csv_row (result_json r)) results))"

section \<open>Correctness\<close>

definition metrics :: "(bench_result \<Rightarrow> pynum) list" where
  "metrics = [br_elapsed_s, br_elapsed_ms, br_energy_j_raw, br_idle_energy_j_estimated,
      br_energy_j, br_throughput_mib_s, br_downloads_per_process, br_total_iterations,
      (\<lambda>x. PInt (br_success x)), (\<lambda>x. PInt (br_failed x))]"

text \<open>A record whose metrics are numbers that arithmetic reads exactly.\<close>

definition measured :: "bench_result \<Rightarrow> bool" where
  "measured r \<longleftrightarrow> (\<forall>f\<in>set metrics. exact_num (f r))"

definition item_key :: "summary_item \<Rightarrow> case_key" where
  "item_key s = (si_compiler s, si_server_threads s, si_parallel_bench_processes s)"

text \<open>A summary line of a group: all its statistics are there and sound.\<close>

definition item_sound :: "bench_result list \<Rightarrow> summary_item \<Rightarrow> bool" where
  "item_sound items s \<longleftrightarrow> si_runs s = int (length items)
    \<and> list_all2 (\<lambda>f st. case st of None \<Rightarrow> False | Some st \<Rightarrow> stats_sound (map f items) st) metrics
        [si_elapsed_s_stats s, si_elapsed_ms_stats s, si_energy_j_raw_stats s,
         si_idle_energy_j_estimated_stats s, si_energy_j_stats s, si_throughput_mib_s_stats s,
         si_downloads_per_process_stats s, si_total_iterations_stats s, si_success_stats s, si_failed_stats s]"

lemma sum_list_int: "(\<Sum>x\<leftarrow>xs. int (f x)) = int (\<Sum>x\<leftarrow>xs. f x)"
  by (induction xs) simp_all

lemma summarize_group_total:
  assumes "items \<noteq> []" "int (length items) \<le> 2 ^ 53" "\<forall>r\<in>set items. measured r"
  shows "\<exists>s. summarize_group (k, items) = Inr s \<and> item_key s = k \<and> item_sound items s"
proof -
  obtain c t n where k: "k = (c, t, n)" by (cases k)
  have st: "\<exists>st. compute_stats (map f items) = Inr (Some st) \<and> stats_sound (map f items) st"
    if "f \<in> set metrics" for f
    by (rule compute_stats_sound) (use assms that in \<open>auto simp: measured_def\<close>)
  then obtain S where S: "\<And>f. f \<in> set metrics \<Longrightarrow> compute_stats (map f items) = Inr (Some (S f)) \<and> stats_sound (map f items) (S f)"
    by metis
  then show ?thesis
    by (simp add: k summarize_group_def item_key_def item_sound_def metrics_def)
qed

lemma summarize_groups:
  assumes "\<forall>r\<in>set results. measured r" "int (length results) \<le> 2 ^ 53"
    and "set gs \<subseteq> set (group_by case_key results)"
  shows "\<exists>items. res_map summarize_group gs = Inr items \<and> map item_key items = map fst gs
    \<and> list_all2 (\<lambda>g s. item_sound (snd g) s) gs items"
  using assms(3)
proof (induction gs)
  case Nil
  then show ?case by simp
next
  case (Cons g gs)
  obtain k ys where g: "g = (k, ys)" by (cases g)
  with Cons.prems have mem: "(k, ys) \<in> set (group_by case_key results)" by simp
  then have ys: "ys \<noteq> []" "ys = filter (\<lambda>r. case_key r = k) results"
    using py_group.grp_nonempty [OF mem] by (auto simp: py_group.grp_mem_iff)
  have "length ys \<le> length results" using ys(2) by simp
  then have "int (length ys) \<le> 2 ^ 53" using assms(2) by linarith
  moreover have "\<forall>r\<in>set ys. measured r" using assms(1) by (simp add: ys(2))
  ultimately obtain s where "summarize_group (k, ys) = Inr s" "item_key s = k" "item_sound ys s"
    using summarize_group_total [OF ys(1)] by blast
  moreover obtain items where "res_map summarize_group gs = Inr items" "map item_key items = map fst gs"
    "list_all2 (\<lambda>g s. item_sound (snd g) s) gs items" using Cons by auto
  ultimately show ?case by (simp add: g)
qed

lemma summarize_results_sound:
  assumes "\<forall>r\<in>set results. measured r" "int (length results) \<le> 2 ^ 53"
  shows "\<exists>items. summarize_results results = Inr items
    \<and> sorted_wrt (<) (map item_key items) \<and> set (map item_key items) = case_key ` set results
    \<and> (\<Sum>s\<leftarrow>items. si_runs s) = int (length results)
    \<and> (\<forall>s\<in>set items. item_sound (filter (\<lambda>r. case_key r = item_key s) results) s)"
proof -
  let ?g = "group_by case_key results" and ?gs = "sort_key fst (group_by case_key results)"
  obtain items where items: "res_map summarize_group ?gs = Inr items" "map item_key items = map fst ?gs"
    "list_all2 (\<lambda>g s. item_sound (snd g) s) ?gs items"
    using summarize_groups [OF assms, of ?gs] by auto
  have sorted: "sorted_wrt (<) (map fst ?gs)"
    by (rule sorted_key_distinct_strict) (use group_by_distinct [of case_key results] in \<open>simp add: dict_keys_def\<close>)
  have keys: "set (map fst ?gs) = case_key ` set results"
    using py_group.grp_keys [of case_key results] by (simp add: dict_keys_def)
  have runs: "map si_runs items = map (\<lambda>g. int (length (snd g))) ?gs"
    using items(3) by (induction rule: list_all2_induct) (auto simp: item_sound_def)
  have "(\<Sum>s\<leftarrow>items. si_runs s) = (\<Sum>g\<leftarrow>?gs. int (length (snd g)))" by (simp only: runs)
  also have "\<dots> = (\<Sum>g\<leftarrow>?g. int (length (snd g)))" by (rule sum_list_map_sort_key)
  also have "\<dots> = int (\<Sum>(k, ys)\<leftarrow>?g. length ys)" by (simp add: case_prod_beta' sum_list_int)
  also have "\<dots> = int (length results)" by (simp only: py_group.grp_total)
  finally have total: "(\<Sum>s\<leftarrow>items. si_runs s) = int (length results)" .
  have each: "item_sound (filter (\<lambda>r. case_key r = item_key s) results) s" if "s \<in> set items" for s
  proof -
    from that obtain i where i: "i < length items" "s = items ! i" by (auto simp: in_set_conv_nth)
    have len: "length items = length ?gs" using items(2) by (metis length_map)
    have "item_sound (snd (?gs ! i)) s" "item_key s = fst (?gs ! i)"
      using list_all2_nthD2 [OF items(3) i(1)] i arg_cong [OF items(2), of "\<lambda>l. l ! i"] len by simp_all
    moreover have "?gs ! i \<in> set ?g" using i(1) len by (metis nth_mem set_sort_key)
    ultimately show ?thesis
      using py_group.grp_mem_iff [of "fst (?gs ! i)" "snd (?gs ! i)" case_key results] by simp
  qed
  have "sorted_wrt (<) (map item_key items)" "set (map item_key items) = case_key ` set results"
    unfolding items(2) by (fact sorted, fact keys)
  with each items(1) total show ?thesis unfolding summarize_results_def by blast
qed

text \<open>
  Claim C6. The summary of a campaign: for records with exactly readable metrics
  \<open>summarize_results\<close> raises nothing, its lines are strictly sorted by compiler, threads and
  clients, one for each combination that occurs, their run counts add up to the number of
  records, and every statistic of a line is present and sound for the records of that line.
\<close>

theorem summarize_results_correct:
  assumes "\<forall>r\<in>set results. measured r" "int (length results) \<le> 2 ^ 53"
  shows "\<exists>items. summarize_results results = Inr items
    \<and> sorted_wrt (<) (map item_key items) \<and> set (map item_key items) = case_key ` set results
    \<and> (\<Sum>s\<leftarrow>items. si_runs s) = int (length results)
    \<and> (\<forall>s\<in>set items. item_sound (filter (\<lambda>r. case_key r = item_key s) results) s)"
  by (rule summarize_results_sound [OF assms])

text \<open>A full campaign: every combination of compiler, threads and clients the same number of times.\<close>

definition grid :: "string list \<Rightarrow> int list \<Rightarrow> int list \<Rightarrow> int list \<Rightarrow> (string \<times> int \<times> int \<times> int) list" where
  "grid cs ts ns reps = [(c, t, n, rep). c \<leftarrow> cs, t \<leftarrow> ts, n \<leftarrow> ns, rep \<leftarrow> reps]"

lemma set_grid: "set (grid cs ts ns reps) = set cs \<times> set ts \<times> set ns \<times> set reps"
  by (auto simp: grid_def)

lemma distinct_concat_map:
  "distinct xs \<Longrightarrow> (\<And>x. x \<in> set xs \<Longrightarrow> distinct (f x)) \<Longrightarrow>
   (\<And>x y. x \<in> set xs \<Longrightarrow> y \<in> set xs \<Longrightarrow> x \<noteq> y \<Longrightarrow> set (f x) \<inter> set (f y) = {}) \<Longrightarrow>
   distinct (concat (map f xs))"
  by (induction xs) auto

lemma distinct_grid:
  assumes "distinct cs" "distinct ts" "distinct ns" "distinct reps"
  shows "distinct (grid cs ts ns reps)"
  unfolding grid_def
  by (intro distinct_concat_map assms) (auto simp: distinct_map inj_on_def assms)

lemma grid_cell:
  assumes "distinct cs" "distinct ts" "distinct ns" "distinct reps"
    and "c \<in> set cs" "t \<in> set ts" "n \<in> set ns"
  shows "length (filter (\<lambda>(c', t', n', rep). (c', t', n') = (c, t, n)) (grid cs ts ns reps)) = length reps"
proof -
  let ?f = "filter (\<lambda>(c', t', n', rep). (c', t', n') = (c, t, n)) (grid cs ts ns reps)"
  have "set ?f = (\<lambda>rep. (c, t, n, rep)) ` set reps"
    using assms(5-7) by (auto simp: set_grid)
  moreover have "distinct ?f" using distinct_grid [OF assms(1-4)] by simp
  ultimately have "length ?f = card ((\<lambda>rep. (c, t, n, rep)) ` set reps)"
    by (metis distinct_card)
  also have "\<dots> = length reps"
    using assms(4) by (simp add: card_image inj_on_def distinct_card)
  finally show ?thesis .
qed

text \<open>
  Claim C27. The records of the whole benchmark (every compiler, thread count, number of
  clients and repetition once) are summarised in exactly one line per combination, and each
  line covers all repetitions.
\<close>

theorem summary_of_grid:
  assumes "map (\<lambda>r. (br_compiler r, br_server_threads r, br_parallel_bench_processes r, br_repetition r)) results
      = grid cs ts ns reps"
    and "distinct cs" "distinct ts" "distinct ns" "distinct reps" "reps \<noteq> []"
    and "\<forall>r\<in>set results. measured r" "int (length results) \<le> 2 ^ 53"
  shows "\<exists>items. summarize_results results = Inr items
    \<and> set (map item_key items) = set cs \<times> set ts \<times> set ns \<and> distinct (map item_key items)
    \<and> (\<forall>s\<in>set items. si_runs s = int (length reps))"
proof -
  let ?l = "\<lambda>r. (br_compiler r, br_server_threads r, br_parallel_bench_processes r, br_repetition r)"
  obtain items where items: "summarize_results results = Inr items" "sorted_wrt (<) (map item_key items)"
    "set (map item_key items) = case_key ` set results"
    "\<forall>s\<in>set items. item_sound (filter (\<lambda>r. case_key r = item_key s) results) s"
    using summarize_results_sound [OF assms(7,8)] by blast
  have "case_key ` set results = (\<lambda>(c, t, n, rep). (c, t, n)) ` set (map ?l results)"
    by (auto simp: case_key_def image_image)
  also have "\<dots> = set cs \<times> set ts \<times> set ns"
    unfolding assms(1) set_grid using assms(6) by (force simp: neq_Nil_conv)
  finally have keys: "set (map item_key items) = set cs \<times> set ts \<times> set ns" using items(3) by simp
  have "si_runs s = int (length reps)" if s: "s \<in> set items" for s
  proof -
    obtain c t n where k: "item_key s = (c, t, n)" by (cases "item_key s")
    then have "c \<in> set cs" "t \<in> set ts" "n \<in> set ns" using s keys by (auto simp: set_eq_iff image_iff) metis+
    note cell = grid_cell [OF assms(2-5) this]
    have "length (filter (\<lambda>r. case_key r = item_key s) results)
        = length (filter (\<lambda>(c', t', n', rep). (c', t', n') = (c, t, n)) (map ?l results))"
      by (simp add: filter_map comp_def case_key_def k)
    also have "\<dots> = length reps" unfolding assms(1) by (rule cell)
    finally show ?thesis using items(4) s by (simp add: item_sound_def)
  qed
  moreover have "distinct (map item_key items)"
    using items(2) strict_sorted_iff by blast
  ultimately show ?thesis using items(1) keys by blast
qed

section \<open>Closed instances\<close>

definition sample_result :: "string \<times> int \<times> int \<times> int \<Rightarrow> bench_result" where
  "sample_result l = (case l of (c, t, n, rep) \<Rightarrow>
     \<lparr>br_compiler = c, br_port = 8120, br_server_threads = t, br_parallel_bench_processes = n, br_repetition = rep,
      br_success = n, br_failed = 0, br_total_iterations = PInt n, br_downloads_per_process = PFlt 1,
      br_elapsed_s = PFlt 2, br_elapsed_ms = PFlt 2000, br_idle_power_w = PFlt 3, br_energy_j_raw = PFlt 16,
      br_idle_energy_j_estimated = PFlt 6, br_energy_j = PFlt 10, br_real_transferred_bytes = PInt 209715200,
      br_throughput_mib_s = PFlt 100, br_benchmark_json_files = []\<rparr>)"

lemma sample_measured:
  assumes "\<bar>n\<bar> \<le> 2 ^ 53"
  shows "measured (sample_result (c, t, n, rep))"
proof -
  have ints: "rep64 1" "rep64 2" "rep64 2000" "rep64 16" "rep64 6" "rep64 10" "rep64 100"
    using rep64_int [of 1] rep64_int [of 2] rep64_int [of 2000] rep64_int [of 16] rep64_int [of 6]
      rep64_int [of 10] rep64_int [of 100] by simp_all
  show ?thesis
    using assms exact_int [of n] exact_int [of 0]
    by (simp add: measured_def metrics_def sample_result_def exact_flt ints)
qed

definition sample_results :: "bench_result list" where
  "sample_results = map sample_result (grid [''gcc'', ''clang''] [1] [1, 2] [0, 1])"

lemma sample_results_measured: "\<forall>r\<in>set sample_results. measured r"
  by (auto simp: sample_results_def set_grid intro!: sample_measured)

lemma sample_results_length: "length sample_results = 8"
  by (simp add: sample_results_def grid_def)

theorem summarize_results_correct_witness:
  "\<exists>items. summarize_results sample_results = Inr items \<and> (\<Sum>s\<leftarrow>items. si_runs s) = 8"
  using summarize_results_correct [OF sample_results_measured] by (auto simp: sample_results_length)

theorem summary_of_grid_witness:
  "\<exists>items. summarize_results sample_results = Inr items
    \<and> set (map item_key items) = {''gcc'', ''clang''} \<times> {1} \<times> {1, 2} \<and> (\<forall>s\<in>set items. si_runs s = 2)"
proof -
  have "map (\<lambda>r. (br_compiler r, br_server_threads r, br_parallel_bench_processes r, br_repetition r)) sample_results
      = grid [''gcc'', ''clang''] [1] [1, 2] [0, 1]"
    by (simp add: sample_results_def grid_def sample_result_def)
  from summary_of_grid [OF this _ _ _ _ _ sample_results_measured] show ?thesis
    by (auto simp: sample_results_length)
qed

end
