(* ===== verification/Master.thy ===== *)
theory Master
  imports Merge Summary
begin

text \<open>
  The data part of \<open>build_master_summary.py\<close>: the summaries of all libraries are read back from
  their JSON files, flattened into rows, sorted, reduced to the best library per case and to
  an overview per library, and stored.  What a JSON file holds is any Python value, so every
  access is dynamically typed; a row is a dictionary in insertion order.  Case labels and
  statistics are expected to be text, numbers or absent; other values raise \<open>TypeError\<close> where
  they are compared.
\<close>

section \<open>Constants\<close>

definition stat_prefixes :: "string list" where
  "stat_prefixes = [''elapsed_s'', ''elapsed_ms'', ''energy_j_raw'', ''idle_energy_j_estimated'', ''energy_j'',
     ''throughput_mib_s'', ''downloads_per_process'', ''total_iterations'', ''success'', ''failed'']"

definition stat_keys :: "string list" where
  "stat_keys = [''count'', ''mean'', ''median'', ''stdev'', ''p25'', ''p50'', ''p95'', ''min'', ''max'']"

definition library_display_names :: "(string, string) dict" where
  "library_display_names = [(''bsd-sockets'', ''BSD-sockets''), (''asio'', ''ASIO''), (''capy-corosio'', ''Capy-Corosio''),
     (''async-berkeley'', ''Senders/Receivers''), (''taps-asio'', ''TAPS'')]"

definition library_order :: "string list" where
  "library_order = [''bsd-sockets'', ''asio'', ''capy-corosio'', ''async-berkeley'', ''taps-asio'']"

definition library_display_name :: "string \<Rightarrow> string" where
  "library_display_name library_id =
     (case dict_get library_display_names library_id of None \<Rightarrow> library_id | Some name \<Rightarrow> name)"

definition library_display_order :: "string list" where
  "library_display_order = map library_display_name library_order"

definition library_colors :: "(string, string) dict" where
  "library_colors = [(''BSD-sockets'', ''tab:blue''), (''ASIO'', ''tab:orange''), (''Capy-Corosio'', ''tab:green''),
     (''Senders/Receivers'', ''tab:red''), (''TAPS'', ''tab:purple'')]"

definition position :: "string list \<Rightarrow> string \<Rightarrow> nat" where
  "position xs x = length (takeWhile (\<lambda>y. y \<noteq> x) xs)"

text \<open>An unlisted name comes after the listed ones: \<open>position\<close> is then the length of the list.\<close>

definition library_sort_key :: "string \<Rightarrow> nat \<times> string" where
  "library_sort_key library_id = (position library_order library_id, library_id)"

definition library_display_sort_key :: "string \<Rightarrow> nat \<times> string" where
  "library_display_sort_key library_name = (position library_display_order library_name, library_name)"

definition library_color :: "string \<Rightarrow> string option" where
  "library_color library_name = dict_get library_colors library_name"

section \<open>Files\<close>

text \<open>\<open>os.path.dirname\<close>: everything up to the last slash, without trailing slashes unless it is the root.\<close>

definition dirname :: "string \<Rightarrow> string" where
  "dirname path =
     (let head = take (length path - length (basename path)) path;
          stripped = rev (dropWhile (\<lambda>c. c = CHR ''/'') (rev head))
      in if stripped = [] then head else stripped)"

text \<open>\<open>os.makedirs(path, exist_ok=True)\<close>; the empty path is no directory.\<close>

definition make_dirs :: "'e os \<Rightarrow> string \<Rightarrow> ('e, unit) io" where
  "make_dirs os path = (if path = [] then io_raise (FileNotFoundError []) else sys_unit os (Mkdir path))"

definition ensure_parent_dir :: "'e os \<Rightarrow> string \<Rightarrow> ('e, unit) io" where
  "ensure_parent_dir os path =
     (let parent = dirname path in io_when (parent \<noteq> []) (make_dirs os parent))"

text \<open>\<open>os.path.splitext(base)[0]\<close> for a name without slashes: up to the last dot that has another character before it.\<close>

definition splitext_root :: "string \<Rightarrow> string" where
  "splitext_root base =
     (let ext = takeWhile (\<lambda>c. c \<noteq> CHR ''.'') (rev base);
          before = take (length base - length ext - 1) base
      in if length ext = length base \<or> list_all (\<lambda>c. c = CHR ''.'') before then base else before)"

definition infer_library_name :: "string \<Rightarrow> string" where
  "infer_library_name path =
     (let base = basename path; suffix = ''_summary.json''
      in if endswith base suffix then take (length base - length suffix) base else splitext_root base)"

definition collect_summary_files :: "'e os \<Rightarrow> string \<Rightarrow> ('e, string list) io" where
  "collect_summary_files os input_dir =
     io_bind (sys_walk os input_dir) (\<lambda>dirs.
       io_return (sort_key (\<lambda>path. library_sort_key (infer_library_name path))
         (concat (map (\<lambda>(parts, files).
            map (\<lambda>name. path_join (join_parts input_dir parts) name)
              (filter (\<lambda>name. endswith name ''_summary.json'') (sort files))) dirs))))"

section \<open>Rows\<close>

definition row_get :: "pydict \<Rightarrow> string \<Rightarrow> pyval" where
  "row_get row k = (case dict_get row k of None \<Rightarrow> VNone | Some v \<Rightarrow> v)"

fun res_fold :: "('a \<Rightarrow> 'b \<Rightarrow> 'b py) \<Rightarrow> 'a list \<Rightarrow> 'b \<Rightarrow> 'b py" where
  "res_fold f [] acc = Inr acc"
| "res_fold f (x # xs) acc = res_bind (f x acc) (res_fold f xs)"

definition stat_field :: "string \<Rightarrow> string \<Rightarrow> string" where
  "stat_field pre key = pre @ ''_'' @ key"

definition flatten_stats :: "string \<Rightarrow> pyval \<Rightarrow> pydict \<Rightarrow> pydict py" where
  "flatten_stats pre stats row =
     (if \<not> truthy stats then Inr (fold (\<lambda>key. dict_set (stat_field pre key) VNone) stat_keys row)
      else res_fold (\<lambda>key row. res_bind (val_get stats key VNone) (\<lambda>v.
             Inr (dict_set (stat_field pre key) v row))) stat_keys row)"

text \<open>\<open>den in (None, 0)\<close> compares by value, so \<open>0.0\<close> and \<open>False\<close> count as well.\<close>

definition none_or_zero :: "pyval \<Rightarrow> bool" where
  "none_or_zero v = (v = VNone \<or> (case as_num v of None \<Rightarrow> False | Some a \<Rightarrow> num_val a = 0))"

definition safe_div :: "pyval \<Rightarrow> pyval \<Rightarrow> pyval py" where
  "safe_div num den =
     (if num = VNone \<or> none_or_zero den then Inr VNone
      else case (as_num num, as_num den) of
             (Some a, Some b) \<Rightarrow> res_bind (num_div a b) (\<lambda>q. Inr (VNum q))
           | _ \<Rightarrow> Inl TypeError)"

definition times_1000 :: "pyval \<Rightarrow> pyval py" where
  "times_1000 v = (case as_num v of None \<Rightarrow> Inl TypeError | Some a \<Rightarrow> Inr (VNum (num_mul a (PFlt 1000))))"

definition ensure_elapsed_ms_fields :: "pydict \<Rightarrow> pydict py" where
  "ensure_elapsed_ms_fields row =
     res_fold (\<lambda>key row.
       if row_get row (stat_field ''elapsed_ms'' key) = VNone \<and> row_get row (stat_field ''elapsed_s'' key) \<noteq> VNone
       then res_bind (times_1000 (row_get row (stat_field ''elapsed_s'' key))) (\<lambda>v.
              Inr (dict_set (stat_field ''elapsed_ms'' key) v row))
       else Inr row) stat_keys row"

definition configured_port :: "pyval \<Rightarrow> pyval \<Rightarrow> pyval py" where
  "configured_port ports compiler =
     (case ports of
        VDict d \<Rightarrow> (case compiler of VStr c \<Rightarrow> Inr (row_get d c) | VList _ \<Rightarrow> Inl TypeError | VDict _ \<Rightarrow> Inl TypeError
                    | _ \<Rightarrow> Inr VNone)
      | _ \<Rightarrow> Inr VNone)"

fun text_of :: "pyval \<Rightarrow> string py" where
  "text_of (VStr s) = Inr s"
| "text_of _ = Inl TypeError"

definition available_compilers :: "pyval \<Rightarrow> pyval py" where
  "available_compilers names_value =
     (if \<not> truthy names_value then Inr VNone
      else res_bind (val_iter names_value) (\<lambda>cs. res_bind (res_map text_of cs) (\<lambda>names.
             Inr (VStr (join_str '','' names)))))"

text \<open>The three rates that are computed from the flattened statistics.\<close>

definition rate_fields :: "(string \<times> string \<times> string) list" where
  "rate_fields = [(''throughput_per_joule_mean'', ''throughput_mib_s_mean'', ''energy_j_mean''),
     (''throughput_per_joule_median'', ''throughput_mib_s_median'', ''energy_j_median''),
     (''downloads_per_second_mean'', ''downloads_per_process_mean'', ''elapsed_s_mean'')]"

definition add_rates :: "pydict \<Rightarrow> pydict py" where
  "add_rates row = res_fold (\<lambda>(field, num, den) row.
     res_bind (safe_div (row_get row num) (row_get row den)) (\<lambda>v. Inr (dict_set field v row))) rate_fields row"

text \<open>The values that all rows of a file share.\<close>

record file_info =
  fi_library_id :: string
  fi_file_served :: pyval
  fi_host :: pyval
  fi_repetitions :: pyval
  fi_ports :: pyval
  fi_compilers :: pyval

definition base_row :: "file_info \<Rightarrow> pyval \<Rightarrow> pydict py" where
  "base_row info item =
     res_bind (val_get item ''compiler'' VNone) (\<lambda>compiler.
     res_bind (val_get item ''server_threads'' VNone) (\<lambda>server_threads.
     res_bind (val_get item ''parallel_bench_processes'' VNone) (\<lambda>clients.
     res_bind (val_get item ''runs'' VNone) (\<lambda>runs.
     res_bind (configured_port (fi_ports info) compiler) (\<lambda>port.
     res_bind (available_compilers (fi_compilers info)) (\<lambda>available.
       Inr [(''library'', VStr (library_display_name (fi_library_id info))), (''library_id'', VStr (fi_library_id info)),
            (''compiler'', compiler), (''server_threads'', server_threads), (''parallel_bench_processes'', clients),
            (''runs'', runs), (''file_served'', fi_file_served info), (''host'', fi_host info),
            (''repetitions'', fi_repetitions info), (''configured_port'', port), (''available_compilers'', available)]))))))"

definition master_row :: "file_info \<Rightarrow> pyval \<Rightarrow> pydict py" where
  "master_row info item =
     res_bind (base_row info item) (\<lambda>row.
     res_bind (res_fold (\<lambda>pre row. res_bind (val_get item (pre @ ''_stats'') VNone) (\<lambda>stats.
                 flatten_stats pre stats row)) stat_prefixes row) (\<lambda>row.
     res_bind (ensure_elapsed_ms_fields row) add_rates))"

definition file_rows :: "string \<Rightarrow> pyval \<Rightarrow> pydict list py" where
  "file_rows path data =
     res_bind (val_get data ''file_served'' VNone) (\<lambda>file_served.
     res_bind (val_get data ''host'' VNone) (\<lambda>host.
     res_bind (val_get data ''repetitions'' VNone) (\<lambda>repetitions.
     res_bind (val_get data ''ports'' (VDict [])) (\<lambda>ports.
     res_bind (val_get data ''compilers'' (VList [])) (\<lambda>compilers.
     res_bind (val_get data ''summary'' (VList [])) (\<lambda>summary.
     res_bind (val_iter summary) (\<lambda>items.
       res_map (master_row \<lparr>fi_library_id = infer_library_name path, fi_file_served = file_served, fi_host = host,
         fi_repetitions = repetitions, fi_ports = ports, fi_compilers = compilers\<rparr>) items)))))))"

section \<open>Sorting with mixed keys\<close>

text \<open>What a key component can be; comparing two of different kinds raises \<open>TypeError\<close>.\<close>

datatype key_val = KNone | KNum rat | KStr string

fun key_code :: "key_val \<Rightarrow> nat \<times> rat \<times> string" where
  "key_code KNone = (0, 0, [])"
| "key_code (KNum x) = (1, x, [])"
| "key_code (KStr s) = (2, 0, s)"

lemma key_code_inj: "key_code a = key_code b \<longleftrightarrow> a = b"
  by (cases a; cases b) auto

instantiation key_val :: linorder
begin

definition less_eq_key_val :: "key_val \<Rightarrow> key_val \<Rightarrow> bool" where
  "a \<le> b \<longleftrightarrow> key_code a \<le> key_code b"

definition less_key_val :: "key_val \<Rightarrow> key_val \<Rightarrow> bool" where
  "a < b \<longleftrightarrow> key_code a < key_code b"

instance
  by standard (auto simp: less_eq_key_val_def less_key_val_def key_code_inj intro: le_neq_trans)

end

fun val_key :: "pyval \<Rightarrow> key_val py" where
  "val_key VNone = Inr KNone"
| "val_key (VBool b) = Inr (KNum (if b then 1 else 0))"
| "val_key (VNum a) = Inr (KNum (num_val a))"
| "val_key (VStr s) = Inr (KStr s)"
| "val_key _ = Inl TypeError"

fun same_kind :: "key_val \<Rightarrow> key_val \<Rightarrow> bool" where
  "same_kind (KNum x) (KNum y) = True"
| "same_kind (KStr s) (KStr t) = True"
| "same_kind _ _ = False"

text \<open>Tuples are compared at the first position where they differ.\<close>

fun comparable :: "key_val list \<Rightarrow> key_val list \<Rightarrow> bool" where
  "comparable (a # as) (b # bs) = (if a = b then comparable as bs else same_kind a b)"
| "comparable _ _ = True"

definition py_sort_by :: "('a \<Rightarrow> key_val list) \<Rightarrow> 'a list \<Rightarrow> 'a list py" where
  "py_sort_by key xs =
     (if list_all (\<lambda>x. list_all (\<lambda>y. comparable (key x) (key y)) xs) xs then Inr (sort_key key xs)
      else Inl TypeError)"

text \<open>\<open>x["compiler"] or ""\<close>, and a number or \<open>-1\<close>.\<close>

definition text_key :: "pyval \<Rightarrow> key_val py" where
  "text_key v = (if truthy v then val_key v else Inr (KStr []))"

definition number_key :: "pyval \<Rightarrow> key_val py" where
  "number_key v = (if v = VNone then Inr (KNum (- 1)) else val_key v)"

definition row_sort_key :: "pydict \<Rightarrow> key_val list py" where
  "row_sort_key row =
     res_bind (text_of (row_get row ''library_id'')) (\<lambda>library_id.
     res_bind (text_key (row_get row ''compiler'')) (\<lambda>compiler.
     res_bind (number_key (row_get row ''server_threads'')) (\<lambda>server_threads.
     res_bind (number_key (row_get row ''parallel_bench_processes'')) (\<lambda>clients.
       Inr [KNum (of_nat (fst (library_sort_key library_id))), KStr library_id, compiler, server_threads, clients]))))"

definition with_keys :: "('a \<Rightarrow> 'k py) \<Rightarrow> 'a list \<Rightarrow> ('k \<times> 'a) list py" where
  "with_keys key xs = res_map (\<lambda>x. res_bind (key x) (\<lambda>k. Inr (k, x))) xs"

definition sort_rows :: "pydict list \<Rightarrow> pydict list py" where
  "sort_rows rows =
     res_bind (with_keys row_sort_key rows) (\<lambda>keyed.
     res_bind (py_sort_by fst keyed) (\<lambda>sorted_rows. Inr (map snd sorted_rows)))"

definition build_master_rows :: "'e os \<Rightarrow> string list \<Rightarrow> ('e, pydict list) io" where
  "build_master_rows os summary_files =
     io_bind (io_map (\<lambda>path. io_bind (sys_json os (Load_json path)) (\<lambda>data. io_of (file_rows path data))) summary_files)
       (\<lambda>rowss. io_of (sort_rows (concat rowss)))"

section \<open>The best library per case\<close>

definition metric_of :: "string \<Rightarrow> pydict \<Rightarrow> rat option py" where
  "metric_of field row =
     (case row_get row field of
        VNone \<Rightarrow> Inr None
      | v \<Rightarrow> (case as_num v of None \<Rightarrow> Inl TypeError | Some a \<Rightarrow> Inr (Some (num_val a))))"

text \<open>A missing value counts as plus infinity for \<open>min\<close> and as minus infinity for \<open>max\<close>.\<close>

definition or_inf :: "rat option \<Rightarrow> bool \<times> rat" where
  "or_inf m = (case m of None \<Rightarrow> (True, 0) | Some v \<Rightarrow> (False, v))"

definition or_minus_inf :: "rat option \<Rightarrow> bool \<times> rat" where
  "or_minus_inf m = (case m of None \<Rightarrow> (False, 0) | Some v \<Rightarrow> (True, v))"

definition lowest :: "string \<Rightarrow> pydict list \<Rightarrow> pydict py" where
  "lowest field items =
     res_bind (with_keys (metric_of field) items) (\<lambda>keyed.
     res_bind (py_min (\<lambda>p. or_inf (fst p)) keyed) (\<lambda>best. Inr (snd best)))"

definition highest :: "string \<Rightarrow> pydict list \<Rightarrow> pydict py" where
  "highest field items =
     res_bind (with_keys (metric_of field) items) (\<lambda>keyed.
     res_bind (py_max (\<lambda>p. or_minus_inf (fst p)) keyed) (\<lambda>best. Inr (snd best)))"

definition case_labels :: "pydict \<Rightarrow> key_val list py" where
  "case_labels row = res_map (\<lambda>k. val_key (row_get row k)) [''compiler'', ''server_threads'', ''parallel_bench_processes'']"

definition best_entry :: "pydict list \<Rightarrow> pydict py" where
  "best_entry items =
     (let label = (\<lambda>k. row_get (hd items) k) in
      res_bind (lowest ''elapsed_ms_mean'' items) (\<lambda>best_time.
      res_bind (lowest ''energy_j_mean'' items) (\<lambda>best_energy.
      res_bind (highest ''throughput_mib_s_mean'' items) (\<lambda>best_throughput.
      res_bind (highest ''throughput_per_joule_mean'' items) (\<lambda>best_efficiency.
        Inr [(''compiler'', label ''compiler''), (''server_threads'', label ''server_threads''),
          (''parallel_bench_processes'', label ''parallel_bench_processes''),
          (''best_time_library'', row_get best_time ''library''),
          (''best_time_library_id'', row_get best_time ''library_id''),
          (''best_time_elapsed_ms_mean'', row_get best_time ''elapsed_ms_mean''),
          (''best_energy_library'', row_get best_energy ''library''),
          (''best_energy_library_id'', row_get best_energy ''library_id''),
          (''best_energy_j_mean'', row_get best_energy ''energy_j_mean''),
          (''best_throughput_library'', row_get best_throughput ''library''),
          (''best_throughput_library_id'', row_get best_throughput ''library_id''),
          (''best_throughput_mib_s_mean'', row_get best_throughput ''throughput_mib_s_mean''),
          (''best_efficiency_library'', row_get best_efficiency ''library''),
          (''best_efficiency_library_id'', row_get best_efficiency ''library_id''),
          (''best_throughput_per_joule_mean'', row_get best_efficiency ''throughput_per_joule_mean'')])))))"

definition build_best_by_case :: "pydict list \<Rightarrow> pydict list py" where
  "build_best_by_case rows =
     res_bind (with_keys case_labels rows) (\<lambda>keyed.
     res_bind (py_sort_by fst (group_by fst keyed)) (\<lambda>grouped.
       res_map (\<lambda>(_, items). best_entry (map snd items)) grouped))"

section \<open>The overview per library\<close>

text \<open>\<open>sum\<close> adds from the left, starting with the integer 0 (before version 3.12, which compensates
  the rounding errors of floats).\<close>

definition py_sum :: "pynum list \<Rightarrow> pynum" where
  "py_sum xs = fold (\<lambda>x acc. num_add acc x) xs (PInt 0)"

definition collect :: "string \<Rightarrow> pydict list \<Rightarrow> pynum list py" where
  "collect field items =
     res_map (\<lambda>v. case as_num v of None \<Rightarrow> Inl TypeError | Some a \<Rightarrow> Inr a)
       (filter (\<lambda>v. v \<noteq> VNone) (map (\<lambda>x. row_get x field) items))"

definition average :: "pynum list \<Rightarrow> pyval py" where
  "average values =
     (if values = [] then Inr VNone
      else res_bind (num_div (py_sum values) (PInt (int (length values)))) (\<lambda>q. Inr (VNum q)))"

definition extreme :: "(pynum list \<Rightarrow> pynum py) \<Rightarrow> pynum list \<Rightarrow> pyval py" where
  "extreme f values = (if values = [] then Inr VNone else res_bind (f values) (\<lambda>v. Inr (VNum v)))"

definition overview_entry :: "string \<Rightarrow> pydict list \<Rightarrow> pydict py" where
  "overview_entry library_id items =
     res_bind (collect ''elapsed_ms_mean'' items) (\<lambda>elapsed.
     res_bind (collect ''energy_j_mean'' items) (\<lambda>energy.
     res_bind (collect ''throughput_mib_s_mean'' items) (\<lambda>throughput.
     res_bind (collect ''throughput_per_joule_mean'' items) (\<lambda>efficiency.
     res_bind (res_map average [elapsed, energy, throughput, efficiency]) (\<lambda>averages.
     res_bind (res_map (extreme (py_min num_val)) [elapsed, energy]) (\<lambda>lows.
     res_bind (res_map (extreme (py_max num_val)) [throughput, efficiency]) (\<lambda>highs.
       Inr ([(''library'', VStr (library_display_name library_id)), (''library_id'', VStr library_id),
             (''cases'', VNum (PInt (int (length items))))]
         @ zip [''average_elapsed_ms_mean'', ''average_energy_j_mean'', ''average_throughput_mib_s_mean'',
                ''average_throughput_per_joule_mean''] averages
         @ zip [''best_elapsed_ms_mean'', ''best_energy_j_mean''] lows
         @ zip [''best_throughput_mib_s_mean'', ''best_throughput_per_joule_mean''] highs))))))))"

definition build_library_overview :: "pydict list \<Rightarrow> pydict list py" where
  "build_library_overview rows =
     res_bind (with_keys (\<lambda>row. text_of (row_get row ''library_id'')) rows) (\<lambda>keyed.
       res_map (\<lambda>(library_id, items). overview_entry library_id (map snd items))
         (sort_key (\<lambda>g. library_sort_key (fst g)) (group_by fst keyed)))"

section \<open>Writing\<close>

definition write_json :: "'e os \<Rightarrow> pydict list \<Rightarrow> pydict list \<Rightarrow> pydict list \<Rightarrow> string \<Rightarrow> ('e, unit) io" where
  "write_json os rows best_by_case library_overview output_path =
     io_then (ensure_parent_dir os output_path)
       (sys_unit os (Dump_json output_path (VDict
          [(''rows'', VList (map VDict rows)), (''best_by_case'', VList (map VDict best_by_case)),
           (''library_overview'', VList (map VDict library_overview))])))"

text \<open>A row with a field that the header lacks makes the writer raise \<open>ValueError\<close>.\<close>

definition write_master_csv :: "'e os \<Rightarrow> pydict list \<Rightarrow> string \<Rightarrow> ('e, unit) io" where
  "write_master_csv os rows output_path =
     io_then (ensure_parent_dir os output_path)
       (if rows = [] then sys_unit os (Write_text output_path [])
        else let fieldnames = dict_keys (hd rows) in
          if list_all (\<lambda>row. list_all (\<lambda>k. k \<in> set fieldnames) (dict_keys row)) rows
          then sys_unit os (Write_csv output_path fieldnames rows)
          else io_raise ValueError)"

end
