(* ===== verification/Plots.thy ===== *)
theory Plots
  imports Summary Drawing
begin

text \<open>
  The plots of a campaign (\<open>make_per_run_scatter_with_mean\<close>, \<open>make_compiler_comparison_plot\<close>
  and \<open>generate_plots\<close> of \<open>scripts/run_bench.py\<close>), as the list of drawing commands of each
  figure.  A metric is the field of a record or summary line that its key selects.
\<close>

section \<open>Drawing commands\<close>

definition selected_runs :: "(bench_result \<Rightarrow> pynum) \<Rightarrow> bench_result list \<Rightarrow> int \<Rightarrow> pynum list" where
  "selected_runs metric rows bench_count =
     map metric (filter (\<lambda>r. br_parallel_bench_processes r = bench_count) rows)"

definition mean_points :: "bench_config \<Rightarrow> (bench_result \<Rightarrow> pynum) \<Rightarrow> bench_result list \<Rightarrow> (int \<times> pynum) list py" where
  "mean_points cfg metric rows =
     res_map (\<lambda>n. res_bind (stat_mean (selected_runs metric rows n)) (\<lambda>m. Inr (n, m)))
       (filter (\<lambda>n. selected_runs metric rows n \<noteq> []) (macro_bench_cases cfg))"

definition plotted_rows :: "bench_result list \<Rightarrow> string \<Rightarrow> int \<Rightarrow> bench_result list" where
  "plotted_rows results compiler server_threads =
     sort_key (\<lambda>x. (br_parallel_bench_processes x, br_repetition x))
       (filter (\<lambda>r. br_compiler r = compiler \<and> br_server_threads r = server_threads) results)"

definition scatter_series ::
    "bench_config \<Rightarrow> bench_result list \<Rightarrow> string \<Rightarrow> (bench_result \<Rightarrow> pynum) \<Rightarrow> int \<Rightarrow> draw list py" where
  "scatter_series cfg results compiler metric server_threads =
     (let rows = plotted_rows results compiler server_threads
      in if rows = [] then Inr []
         else res_bind (mean_points cfg metric rows) (\<lambda>mean_rows.
           Inr (Scatter (map (\<lambda>r. VNum (PInt (br_parallel_bench_processes r))) rows)
                   (map (\<lambda>r. VNum (metric r)) rows)
                   (show_int server_threads @ '' server thread(s) - runs'') (b64 (55 / 100)) 28
                # (if mean_rows = [] then []
                   else [Line (map (\<lambda>(x, _). VNum (PInt x)) mean_rows) (map (\<lambda>(_, y). VNum y) mean_rows)
                           (show_int server_threads @ '' server thread(s) - mean'') (b64 (22 / 10)) None]))))"

text \<open>The axes, the legend and the file, common to both kinds of plot.\<close>

definition finish_plot :: "bench_config \<Rightarrow> string \<Rightarrow> string \<Rightarrow> string \<Rightarrow> draw list" where
  "finish_plot cfg metric_label title output_name =
     [Xlabel ''Number of parallel benchmark client processes'', Ylabel metric_label, Title title,
      Xticks (map (\<lambda>n. VNum (PInt n)) (macro_bench_cases cfg)) None, Grid (b64 (35 / 100)),
      Legend, Tight_layout, Savefig (path_join (plots_dir cfg) output_name), Close_figure]"

definition make_per_run_scatter_with_mean ::
    "'e os \<Rightarrow> bench_config \<Rightarrow> bench_result list \<Rightarrow> string \<Rightarrow> (bench_result \<Rightarrow> pynum) \<Rightarrow> string \<Rightarrow> string \<Rightarrow> ('e, unit) io" where
  "make_per_run_scatter_with_mean os cfg results compiler metric metric_label output_name =
     io_bind (io_of (res_map (scatter_series cfg results compiler metric) (server_thread_counts cfg))) (\<lambda>series.
       sys_unit os (Draw (Figure 11 7 # concat series
         @ finish_plot cfg metric_label (metric_label @ '' for '' @ py_upper compiler @ '' builds'') output_name)))"

definition comparison_rows :: "summary_item list \<Rightarrow> string \<Rightarrow> int \<Rightarrow> summary_item list" where
  "comparison_rows summary compiler server_threads =
     sort_key si_parallel_bench_processes
       (filter (\<lambda>r. si_compiler r = compiler \<and> si_server_threads r = server_threads) summary)"

definition comparison_points :: "(summary_item \<Rightarrow> stats option) \<Rightarrow> summary_item list \<Rightarrow> (int \<times> pynum) list" where
  "comparison_points metric rows =
     concat (map (\<lambda>r. case metric r of None \<Rightarrow> []
        | Some st \<Rightarrow> [(si_parallel_bench_processes r, st_mean st)]) rows)"

definition comparison_series ::
    "summary_item list \<Rightarrow> int \<Rightarrow> (summary_item \<Rightarrow> stats option) \<Rightarrow> string \<Rightarrow> draw list" where
  "comparison_series summary server_threads metric compiler =
     (let ps = comparison_points metric (comparison_rows summary compiler server_threads)
      in if ps = [] then []
         else [Line (map (\<lambda>(x, _). VNum (PInt x)) ps) (map (\<lambda>(_, y). VNum y) ps)
                 (py_upper compiler @ '' - '' @ show_int server_threads @ '' server thread(s)'') (b64 (22 / 10)) None])"

definition make_compiler_comparison_plot ::
    "'e os \<Rightarrow> bench_config \<Rightarrow> summary_item list \<Rightarrow> int \<Rightarrow> (summary_item \<Rightarrow> stats option) \<Rightarrow> string \<Rightarrow> string \<Rightarrow> ('e, unit) io" where
  "make_compiler_comparison_plot os cfg summary server_threads metric metric_label output_name =
     sys_unit os (Draw (Figure 11 7
       # concat (map (comparison_series summary server_threads metric) (compilers cfg))
       @ finish_plot cfg metric_label
           (metric_label @ '': GCC vs Clang with '' @ show_int server_threads @ '' server thread(s)'') output_name))"

definition compiler_metrics :: "((bench_result \<Rightarrow> pynum) \<times> string \<times> string) list" where
  "compiler_metrics =
     [(br_elapsed_ms, ''Total execution time (milliseconds)'', ''elapsed_time''),
      (br_energy_j_raw, ''Raw energy consumption (joules)'', ''raw_energy''),
      (br_energy_j, ''Net energy consumption (joules)'', ''net_energy''),
      (br_throughput_mib_s, ''Aggregate throughput (MiB/s)'', ''throughput''),
      (br_downloads_per_process, ''Completed downloads per benchmark process'', ''downloads_per_process'')]"

definition thread_metrics :: "((summary_item \<Rightarrow> stats option) \<times> string \<times> string) list" where
  "thread_metrics =
     [(si_elapsed_ms_stats, ''Mean total execution time (milliseconds)'', ''comparison_elapsed''),
      (si_energy_j_stats, ''Mean net energy consumption (joules)'', ''comparison_net_energy''),
      (si_throughput_mib_s_stats, ''Mean aggregate throughput (MiB/s)'', ''comparison_throughput'')]"

definition generate_plots ::
    "'e os \<Rightarrow> bench_config \<Rightarrow> bench_result list \<Rightarrow> summary_item list \<Rightarrow> ('e, unit) io" where
  "generate_plots os cfg results summary =
     io_then
       (io_for (compilers cfg) (\<lambda>compiler. io_for compiler_metrics (\<lambda>(metric, label, stem).
          make_per_run_scatter_with_mean os cfg results compiler metric label
            (stem @ ''_'' @ compiler @ ''.png''))))
       (io_for (server_thread_counts cfg) (\<lambda>server_threads. io_for thread_metrics (\<lambda>(metric, label, stem).
          make_compiler_comparison_plot os cfg summary server_threads metric label
            (stem @ ''_threads_'' @ show_int server_threads @ ''.png''))))"


section \<open>The mean curves\<close>

lemma num_sum_mset: "mset xs = mset ys \<Longrightarrow> num_sum xs = num_sum ys"
  unfolding num_sum_def by (metis mset_map sum_mset_sum_list)

lemma stat_mean_mset:
  assumes "mset xs = mset ys"
  shows "stat_mean xs = stat_mean ys"
proof -
  have "length xs = length ys" "set xs = set ys" "xs = [] \<longleftrightarrow> ys = []"
    using mset_eq_length [OF assms] mset_eq_setD [OF assms] by auto
  with num_sum_mset [OF assms] show ?thesis
    by (simp add: stat_mean_def all_int_def list_all_iff)
qed

lemma compute_stats_mean:
  "compute_stats xs = Inr (Some st) \<Longrightarrow> xs \<noteq> [] \<and> stat_mean xs = Inr (st_mean st)"
  by (auto simp: compute_stats_def Let_def res_bind_eq_Inr split: if_splits)

lemma compute_stats_None: "compute_stats xs = Inr None \<Longrightarrow> xs = []"
  by (auto simp: compute_stats_def Let_def res_bind_eq_Inr split: if_splits)

text \<open>A metric of the records and the statistics of a summary line that reduce it.\<close>

definition metric_pair :: "(bench_result \<Rightarrow> pynum) \<Rightarrow> (summary_item \<Rightarrow> stats option) \<Rightarrow> bool" where
  "metric_pair f g \<longleftrightarrow> (\<forall>k ys s. summarize_group (k, ys) = Inr s \<longrightarrow> compute_stats (map f ys) = Inr (g s))"

lemma plotted_pairs:
  "metric_pair br_elapsed_ms si_elapsed_ms_stats"
  "metric_pair br_energy_j si_energy_j_stats"
  "metric_pair br_throughput_mib_s si_throughput_mib_s_stats"
  by (auto simp: metric_pair_def summarize_group_def res_bind_eq_Inr split: prod.splits)

lemma summarize_group_key: "summarize_group (k, ys) = Inr s \<Longrightarrow> item_key s = k"
  by (auto simp: summarize_group_def res_bind_eq_Inr item_key_def split: prod.splits)

lemma summarize_results_lines:
  assumes "summarize_results results = Inr items"
  shows "sorted_wrt (<) (map item_key items)" and "set (map item_key items) = case_key ` set results"
    and "s \<in> set items \<Longrightarrow> summarize_group (item_key s, filter (\<lambda>r. case_key r = item_key s) results) = Inr s"
proof -
  let ?g = "group_by case_key results"
  note run = assms [unfolded summarize_results_def]
  note len = res_map_length [OF run]
  have line: "summarize_group (sort_key fst ?g ! i) = Inr (items ! i)
      \<and> fst (sort_key fst ?g ! i) = item_key (items ! i)" if "i < length items" for i
    using res_map_nth [OF run, of i] that len summarize_group_key
    by (metis prod.collapse)
  have keys: "map item_key items = map fst (sort_key fst ?g)"
    by (rule nth_equalityI) (use len line in auto)
  show "sorted_wrt (<) (map item_key items)" unfolding keys
    by (rule sorted_key_distinct_strict) (use group_by_distinct [of case_key results] in \<open>simp add: dict_keys_def\<close>)
  show "set (map item_key items) = case_key ` set results"
    using keys py_group.grp_keys [of case_key results] by (simp add: dict_keys_def)
  assume "s \<in> set items"
  then obtain i where i: "i < length items" "s = items ! i" by (auto simp: in_set_conv_nth)
  let ?p = "sort_key fst ?g ! i"
  have "?p \<in> set ?g" using i(1) len by (metis nth_mem set_sort_key)
  then have "snd ?p = filter (\<lambda>r. case_key r = fst ?p) results"
    using py_group.grp_mem_iff [of "fst ?p" "snd ?p" case_key results] by simp
  with line [OF i(1)] i(2) show "summarize_group (item_key s, filter (\<lambda>r. case_key r = item_key s) results) = Inr s"
    by (metis prod.collapse)
qed

lemma selected_runs_mset:
  "mset (selected_runs f (plotted_rows results c st) n) = mset (map f (filter (\<lambda>r. case_key r = (c, st, n)) results))"
proof -
  have "mset (filter (\<lambda>r. br_parallel_bench_processes r = n) (plotted_rows results c st))
      = mset (filter (\<lambda>r. case_key r = (c, st, n)) results)"
    by (simp add: plotted_rows_def mset_filter [symmetric] case_key_def conj_ac del: mset_filter)
      (simp add: filter_filter_mset conj_ac)
  then show ?thesis unfolding selected_runs_def mset_map by simp
qed

text \<open>The lines of one compiler and thread count are ordered by their number of clients.\<close>

lemma comparison_rows_sorted:
  assumes "sorted_wrt (<) (map item_key items)"
  shows "comparison_rows items c st = filter (\<lambda>s. si_compiler s = c \<and> si_server_threads s = st) items"
    and "sorted_wrt (<) (map si_parallel_bench_processes (comparison_rows items c st))"
proof -
  let ?P = "\<lambda>s. si_compiler s = c \<and> si_server_threads s = st"
  have "sorted_wrt (\<lambda>a b. item_key a < item_key b) items" using assms by (simp add: sorted_wrt_map)
  then have "sorted_wrt (\<lambda>a b. item_key a < item_key b) (filter ?P items)" by (rule sorted_wrt_filter)
  then have strict: "sorted_wrt (<) (map si_parallel_bench_processes (filter ?P items))"
    unfolding sorted_wrt_map by (rule sorted_wrt_mono_rel [rotated]) (auto simp: item_key_def)
  then have "sorted (map si_parallel_bench_processes (filter ?P items))" by (simp add: strict_sorted_iff)
  then show eq: "comparison_rows items c st = filter ?P items"
    unfolding comparison_rows_def by (rule sort_key_id_if_sorted)
  show "sorted_wrt (<) (map si_parallel_bench_processes (comparison_rows items c st))"
    using strict by (simp only: eq)
qed

lemma selected_runs_nonempty:
  "selected_runs f (plotted_rows results c st) n \<noteq> [] \<longleftrightarrow> (c, st, n) \<in> case_key ` set results"
proof -
  have "selected_runs f (plotted_rows results c st) n = []
      \<longleftrightarrow> map f (filter (\<lambda>r. case_key r = (c, st, n)) results) = []"
    by (metis selected_runs_mset mset_zero_iff)
  then have "?thesis \<longleftrightarrow> (\<exists>r\<in>set results. case_key r = (c, st, n)) = ((c, st, n) \<in> case_key ` set results)"
    by (auto simp: filter_empty_conv)
  then show ?thesis by force
qed

lemma mean_points_summary:
  assumes pair: "metric_pair f g" and run: "summarize_results results = Inr items"
    and cases: "sorted_wrt (<) (macro_bench_cases cfg)"
    and covered: "\<forall>r\<in>set results. br_parallel_bench_processes r \<in> set (macro_bench_cases cfg)"
  shows "mean_points cfg f (plotted_rows results c st) = Inr (comparison_points g (comparison_rows items c st))"
proof -
  note lines = summarize_results_lines [OF run]
  let ?rows = "comparison_rows items c st" and ?sel = "selected_runs f (plotted_rows results c st)"
  let ?ns = "filter (\<lambda>n. ?sel n \<noteq> []) (macro_bench_cases cfg)"
  note rows = comparison_rows_sorted [OF lines(1), of c st]
  have member: "n \<in> si_parallel_bench_processes ` set ?rows \<longleftrightarrow> (c, st, n) \<in> item_key ` set items" for n
    unfolding rows(1) by (force simp: item_key_def image_iff)
  have "set (map si_parallel_bench_processes ?rows) = {n. (c, st, n) \<in> case_key ` set results}"
    using member lines(2) by auto
  also have "\<dots> = set ?ns" using covered by (auto simp: selected_runs_nonempty case_key_def)
  finally have "map si_parallel_bench_processes ?rows = ?ns"
    by (intro strict_sorted_equal sorted_wrt_filter cases rows(2))
  then have eq: "mean_points cfg f (plotted_rows results c st)
      = res_map (\<lambda>n. res_bind (stat_mean (?sel n)) (\<lambda>m. Inr (n, m))) (map si_parallel_bench_processes ?rows)"
    by (simp add: mean_points_def)
  have each: "\<exists>x. g s = Some x \<and> stat_mean (?sel (si_parallel_bench_processes s)) = Inr (st_mean x)"
    if "s \<in> set ?rows" for s
  proof -
    have key: "item_key s = (c, st, si_parallel_bench_processes s)" and mem: "s \<in> set items"
      using that by (auto simp: rows(1) item_key_def)
    let ?ys = "filter (\<lambda>r. case_key r = item_key s) results"
    have stats: "compute_stats (map f ?ys) = Inr (g s)"
      using pair lines(3) [OF mem] unfolding metric_pair_def by blast
    have "item_key s \<in> case_key ` set results" using lines(2) mem by auto
    then have "?ys \<noteq> []" by (auto simp: filter_empty_conv)
    with stats compute_stats_None obtain x where x: "g s = Some x" by (cases "g s") auto
    have "stat_mean (?sel (si_parallel_bench_processes s)) = stat_mean (map f ?ys)"
      by (rule stat_mean_mset) (simp only: selected_runs_mset key)
    with stats x compute_stats_mean show ?thesis by auto
  qed
  have "res_map (\<lambda>n. res_bind (stat_mean (?sel n)) (\<lambda>m. Inr (n, m))) (map si_parallel_bench_processes ss)
      = Inr (comparison_points g ss)"
    if "\<forall>s\<in>set ss. \<exists>x. g s = Some x \<and> stat_mean (?sel (si_parallel_bench_processes s)) = Inr (st_mean x)" for ss
    using that by (induction ss) (auto simp: comparison_points_def)
  with each show ?thesis unfolding eq by blast
qed


text \<open>
  Claim C35. The two kinds of plot agree: for each metric that both show, the mean curve that the
  scatter plot of a compiler computes from the single runs is the curve that the comparison
  plot reads off the summary, when every record belongs to a configured number of clients.
\<close>

theorem mean_curves_agree:
  assumes "summarize_results results = Inr items" "sorted_wrt (<) (macro_bench_cases cfg)"
    and "\<forall>r\<in>set results. br_parallel_bench_processes r \<in> set (macro_bench_cases cfg)"
  shows "mean_points cfg br_elapsed_ms (plotted_rows results c st)
      = Inr (comparison_points si_elapsed_ms_stats (comparison_rows items c st))
    \<and> mean_points cfg br_energy_j (plotted_rows results c st)
      = Inr (comparison_points si_energy_j_stats (comparison_rows items c st))
    \<and> mean_points cfg br_throughput_mib_s (plotted_rows results c st)
      = Inr (comparison_points si_throughput_mib_s_stats (comparison_rows items c st))"
  using plotted_pairs by (intro conjI mean_points_summary [OF _ assms])

theorem mean_curves_agree_witness:
  "\<exists>items. summarize_results sample_results = Inr items
    \<and> mean_points (asio_config []) br_elapsed_ms (plotted_rows sample_results ''gcc'' 1)
      = Inr (comparison_points si_elapsed_ms_stats (comparison_rows items ''gcc'' 1))"
proof -
  obtain items where run: "summarize_results sample_results = Inr items"
    using summarize_results_sound [OF sample_results_measured] by (auto simp: sample_results_length)
  moreover have "\<forall>r\<in>set sample_results. br_parallel_bench_processes r \<in> set (macro_bench_cases (asio_config []))"
    by (simp add: sample_results_def sample_result_def grid_def)
  ultimately show ?thesis using mean_curves_agree [OF run, of "asio_config []" "''gcc''" 1] by simp
qed

end
