(* ===== verification/Report_Text.thy ===== *)
theory Report_Text
  imports Summary
begin

text \<open>
  The texts of the reports (\<open>scripts/run_bench.py\<close>): number formatting, line wrapping with
  the greedy algorithm of \<open>textwrap\<close> (its chunks, hyphen breaks and tabs included), the cells and lines that show a statistic, and the rows
  of the tables.
\<close>

section \<open>fmt\<close>

text \<open>\<open>None\<close> is a dash, an integer is printed as it is, a float with a fixed number of digits.\<close>

definition fmt :: "nat \<Rightarrow> pynum option \<Rightarrow> string" where
  "fmt decimals v =
     (case v of None \<Rightarrow> ''-'' | Some (PInt i) \<Rightarrow> show_int i | Some (PFlt x) \<Rightarrow> fmt_fixed decimals x)"

section \<open>textwrap.wrap\<close>

text \<open>
  The character classes of the regular expression that cuts a line into chunks (\<open>wordsep_re\<close>),
  on ASCII text: white space, \<open>\w\<close>, letters \<open>[^\d\W]\<close>, and the characters that may stand
  before a dash.
\<close>

definition wrap_space :: "char \<Rightarrow> bool" where
  "wrap_space c = (let n = of_char c :: nat in (9 \<le> n \<and> n \<le> 13) \<or> n = 32)"

definition word_letter :: "char \<Rightarrow> bool" where
  "word_letter c = (let n = of_char c :: nat in (65 \<le> n \<and> n \<le> 90) \<or> (97 \<le> n \<and> n \<le> 122) \<or> n = 95)"

definition word_char :: "char \<Rightarrow> bool" where
  "word_char c = (word_letter c \<or> char_digit c \<noteq> None)"

definition word_punct :: "char \<Rightarrow> bool" where
  "word_punct c = (word_char c \<or> c \<in> set ''!\"&.,?'' \<or> of_char c = (39 :: nat))"

text \<open>
  The lookaheads and lookbehinds; \<open>before\<close> is the text before the position, nearest first.
  A dash of two or more hyphens between words is a chunk of its own; a hyphen between two
  letters (or a letter, a hyphen and a letter) and two more ends a chunk.
\<close>

definition dash_ahead :: "string \<Rightarrow> string \<Rightarrow> bool" where
  "dash_ahead before s =
     (before \<noteq> [] \<and> word_punct (hd before)
      \<and> 2 \<le> length (takeWhile (\<lambda>c. c = CHR ''-'') s)
      \<and> (case dropWhile (\<lambda>c. c = CHR ''-'') s of [] \<Rightarrow> False | c # _ \<Rightarrow> word_char c))"

fun two_letters :: "string \<Rightarrow> bool" where
  "two_letters (c # d # cs) =
     (word_letter c \<and> (word_letter d \<or> d = CHR ''-'' \<and> cs \<noteq> [] \<and> word_letter (hd cs)))"
| "two_letters _ = False"

definition hyphen_break :: "string \<Rightarrow> string \<Rightarrow> bool" where
  "hyphen_break before s =
     (s \<noteq> [] \<and> hd s = CHR ''-'' \<and> two_letters before \<and> two_letters (tl s))"

text \<open>The rest of a word of which at least one character is read.\<close>

fun word_rest :: "string \<Rightarrow> string \<Rightarrow> string \<times> string" where
  "word_rest before [] = ([], [])"
| "word_rest before (c # cs) =
     (if hyphen_break before (c # cs) then ([c], cs)
      else if wrap_space c \<or> dash_ahead before (c # cs) then ([], c # cs)
      else (case word_rest (c # before) cs of (u, v) \<Rightarrow> (c # u, v)))"

fun next_chunk :: "string \<Rightarrow> string \<Rightarrow> string \<times> string" where
  "next_chunk before [] = ([], [])"
| "next_chunk before (c # cs) =
     (if wrap_space c then (takeWhile wrap_space (c # cs), dropWhile wrap_space (c # cs))
      else if dash_ahead before (c # cs) then
        (takeWhile (\<lambda>c. c = CHR ''-'') (c # cs), dropWhile (\<lambda>c. c = CHR ''-'') (c # cs))
      else (case word_rest (c # before) cs of (u, v) \<Rightarrow> (c # u, v)))"

lemma word_rest_split: "word_rest before s = (u, v) \<Longrightarrow> s = u @ v"
  by (induction before s arbitrary: u v rule: word_rest.induct) (auto split: if_splits prod.splits)

lemma dash_ahead_hd: "dash_ahead before s \<Longrightarrow> s \<noteq> [] \<and> hd s = CHR ''-''"
  by (cases s) (auto simp: dash_ahead_def split: if_splits)

lemma next_chunk_split: "next_chunk before s = (u, v) \<Longrightarrow> s = u @ v \<and> (s \<noteq> [] \<longrightarrow> u \<noteq> [])"
  by (cases s) (auto split: if_splits prod.splits dest: word_rest_split dash_ahead_hd)

lemma next_chunk_shorter: "(u, v) = next_chunk before s \<Longrightarrow> s \<noteq> [] \<Longrightarrow> length v < length s"
  using next_chunk_split [of before s u v] by simp

function chunks_from :: "string \<Rightarrow> string \<Rightarrow> string list" where
  "chunks_from before s =
     (if s = [] then []
      else case next_chunk before s of (u, v) \<Rightarrow> u # chunks_from (rev u @ before) v)"
  by pat_completeness auto
termination
  by (relation "measure (\<lambda>(before, s). length s)") (auto intro: next_chunk_shorter)

declare chunks_from.simps [simp del]

text \<open>Tabs become spaces up to the next multiple of eight columns.\<close>

fun expand_tabs :: "nat \<Rightarrow> string \<Rightarrow> string" where
  "expand_tabs col [] = []"
| "expand_tabs col (c # cs) =
     (if of_char c = (9 :: nat)
      then replicate (8 - col mod 8) CHR '' '' @ expand_tabs (col + (8 - col mod 8)) cs
      else if of_char c = (10 :: nat) \<or> of_char c = (13 :: nat) then c # expand_tabs 0 cs
      else c # expand_tabs (Suc col) cs)"

definition chunks_of :: "string \<Rightarrow> string list" where
  "chunks_of line = chunks_from [] (expand_tabs 0 line)"

definition blank :: "string \<Rightarrow> bool" where
  "blank chunk = list_all is_space chunk"

text \<open>Fill a line of the given width from position \<open>cur\<close>.\<close>

fun take_line :: "nat \<Rightarrow> nat \<Rightarrow> string list \<Rightarrow> string list \<times> string list" where
  "take_line width cur [] = ([], [])"
| "take_line width cur (c # cs) =
     (if cur + length c \<le> width
      then (case take_line width (cur + length c) cs of (l, r) \<Rightarrow> (c # l, r))
      else ([], c # cs))"

text \<open>
  One round: leading white space is dropped except on the first line, a chunk that is longer
  than the width gets a line of its own, trailing white space is dropped.
\<close>

definition next_line :: "nat \<Rightarrow> bool \<Rightarrow> string list \<Rightarrow> string list \<times> string list" where
  "next_line width first chunks =
     (let chunks = (if \<not> first \<and> blank (hd chunks) then tl chunks else chunks);
          (line, rest) = take_line width 0 chunks;
          (line, rest) = (if line = [] \<and> rest \<noteq> [] then ([hd rest], tl rest) else (line, rest))
      in (if line \<noteq> [] \<and> blank (last line) then butlast line else line, rest))"

lemma take_line_split: "take_line width cur cs = (l, r) \<Longrightarrow> cs = l @ r"
  by (induction width cur cs arbitrary: l r rule: take_line.induct) (auto split: if_splits prod.splits)

lemma next_line_shorter:
  "cs \<noteq> [] \<Longrightarrow> length (snd (next_line width first cs)) < length cs"
proof -
  assume cs: "cs \<noteq> []"
  let ?cs = "if \<not> first \<and> blank (hd cs) then tl cs else cs"
  obtain l r where lr: "take_line width 0 ?cs = (l, r)" by fastforce
  from take_line_split [OF this] have split: "?cs = l @ r" .
  have "length ?cs \<le> length cs" by simp
  moreover have "length ?cs < length cs \<or> ?cs = cs" using cs by (cases cs) auto
  ultimately show ?thesis
    using lr cs arg_cong [OF split, of length]
    by (cases r) (auto simp: next_line_def Let_def split: if_splits)
qed

lemma next_line_rest: "(l, r) = next_line width first cs \<Longrightarrow> cs \<noteq> [] \<Longrightarrow> length r < length cs"
  using next_line_shorter [of cs width first] by (metis snd_conv)

function wrap_chunks :: "nat \<Rightarrow> bool \<Rightarrow> string list \<Rightarrow> string list" where
  "wrap_chunks width first chunks =
     (if chunks = [] then []
      else case next_line width first chunks of (line, rest) \<Rightarrow>
        if line = [] then wrap_chunks width first rest
        else concat line # wrap_chunks width False rest)"
  by pat_completeness auto
termination
  by (relation "measure (\<lambda>(width, first, chunks). length chunks)")
    (auto intro: next_line_rest)

declare wrap_chunks.simps [simp del]

definition textwrap_wrap :: "nat \<Rightarrow> string \<Rightarrow> string list py" where
  "textwrap_wrap width line =
     (if width = 0 then Inl ValueError else Inr (wrap_chunks width True (chunks_of line)))"

definition wrap_text :: "string option \<Rightarrow> nat \<Rightarrow> string py" where
  "wrap_text text width =
     (case text of None \<Rightarrow> Inr ''-''
      | Some t \<Rightarrow>
          res_bind (res_map (textwrap_wrap width) (splitlines t)) (\<lambda>wrapped.
            Inr (join_str ''\<newline>'' (concat (map (\<lambda>w. if w = [] then [[]] else w) wrapped)))))"

section \<open>Chunks\<close>

text \<open>The text that is left when white space is removed.\<close>

definition visible :: "string \<Rightarrow> string" where
  "visible s = filter (\<lambda>c. \<not> is_space c) s"

lemma visible_append [simp]: "visible (s @ t) = visible s @ visible t"
  by (simp add: visible_def)

lemma visible_Nil [simp]: "visible [] = []"
  by (simp add: visible_def)

lemma visible_Cons: "visible (c # s) = (if is_space c then visible s else c # visible s)"
  by (simp add: visible_def)

lemma visible_concat: "visible (concat ss) = concat (map visible ss)"
  by (induction ss) simp_all

lemma visible_blank: "blank s \<Longrightarrow> visible s = []"
  by (auto simp: visible_def blank_def filter_empty_conv list_all_iff)

lemma visible_filter: "concat (map visible (filter (\<lambda>c. \<not> blank c) cs)) = concat (map visible cs)"
  by (induction cs) (auto simp: visible_blank)

lemma visible_expand_tabs: "visible (expand_tabs col s) = visible s"
proof (induction col s rule: expand_tabs.induct)
  case (2 col c cs)
  have "visible (replicate n CHR '' '') = []" for n
    by (induction n) (simp_all add: visible_Cons is_space_def)
  moreover have "of_char c = (9 :: nat) \<Longrightarrow> is_space c" by (simp add: is_space_def)
  ultimately show ?case using 2 by (auto simp: visible_Cons)
qed simp

text \<open>
  A chunk is all white space or has none, and two chunks meet next to white space or at a
  hyphen: only hyphenated words are ever cut.
\<close>

fun well_cut :: "string list \<Rightarrow> bool" where
  "well_cut (a # b # cs) =
     ((wrap_space (hd a) \<or> wrap_space (hd b) \<or> last a = CHR ''-'' \<or> hd b = CHR ''-'') \<and> well_cut (b # cs))"
| "well_cut _ = True"

definition uniform :: "string \<Rightarrow> bool" where
  "uniform c \<longleftrightarrow> c \<noteq> [] \<and> (list_all wrap_space c \<or> list_all (\<lambda>x. \<not> wrap_space x) c)"

text \<open>A chunk has no hyphen between two letters on each side (or a letter and a hyphenated one).\<close>

definition hyphen_free :: "string \<Rightarrow> bool" where
  "hyphen_free chunk \<longleftrightarrow> (\<forall>a b. chunk = a @ ''-'' @ b \<longrightarrow> \<not> (two_letters (rev a) \<and> two_letters b))"

lemma two_letters_append: "two_letters s \<Longrightarrow> two_letters (s @ t)"
  by (cases s rule: two_letters.cases) auto

lemma word_rest_free:
  "word_rest before s = (u, v) \<Longrightarrow> u = a @ CHR ''-'' # b \<Longrightarrow> \<not> (two_letters (rev a @ before) \<and> two_letters b)"
proof (induction before s arbitrary: u v a rule: word_rest.induct)
  case (2 before c cs)
  show ?case
  proof (cases "hyphen_break before (c # cs) \<or> wrap_space c \<or> dash_ahead before (c # cs)")
    case True
    then show ?thesis using 2(2,3) by (auto simp: Cons_eq_append_conv split: if_splits)
  next
    case False
    obtain u' v' where r: "word_rest (c # before) cs = (u', v')" by fastforce
    then have u: "u = c # u'" and cs: "cs = u' @ v'"
      using 2(2) False by (auto dest: word_rest_split)
    show ?thesis
    proof (cases a)
      case Nil
      then have "c = CHR ''-''" "b = u'" using u 2(3) by auto
      then show ?thesis
        using False Nil two_letters_append [of b v'] by (auto simp: hyphen_break_def cs)
    next
      case (Cons x a')
      then have "x = c" "u' = a' @ CHR ''-'' # b" using u 2(3) by auto
      with 2(1) [OF _ _ r, of a'] False Cons show ?thesis by auto
    qed
  qed
qed simp

lemma no_dash_letters: "\<forall>x\<in>set s. x = CHR ''-'' \<Longrightarrow> \<not> two_letters s"
proof -
  have "\<not> word_letter CHR ''-''" by code_simp
  then show "\<forall>x\<in>set s. x = CHR ''-'' \<Longrightarrow> \<not> two_letters s"
    by (cases s rule: two_letters.cases) auto
qed

lemma not_space_dash: "\<not> wrap_space CHR ''-''"
  by code_simp

lemma word_rest_cut:
  "word_rest before s = (u, v) \<Longrightarrow> list_all (\<lambda>x. \<not> wrap_space x) u
    \<and> (v \<noteq> [] \<longrightarrow> wrap_space (hd v) \<or> hd v = CHR ''-'' \<or> (u \<noteq> [] \<and> last u = CHR ''-''))"
proof (induction before s arbitrary: u v rule: word_rest.induct)
  case (2 before c cs)
  show ?case
  proof (cases "hyphen_break before (c # cs) \<or> wrap_space c \<or> dash_ahead before (c # cs)")
    case True
    then show ?thesis
      using 2(2) dash_ahead_hd [of before "c # cs"]
      by (auto simp: hyphen_break_def not_space_dash split: if_splits)
  next
    case False
    obtain u' v' where r: "word_rest (c # before) cs = (u', v')" by fastforce
    with 2(2) False have "u = c # u'" "v = v'" by auto
    with 2(1) [OF _ _ r] False show ?thesis by auto
  qed
qed simp

lemma next_chunk_cut:
  assumes "next_chunk before s = (u, v)" "s \<noteq> []"
  shows "uniform u" "v \<noteq> [] \<Longrightarrow> wrap_space (hd u) \<or> wrap_space (hd v) \<or> last u = CHR ''-'' \<or> hd v = CHR ''-''"
proof -
  obtain c cs where s: "s = c # cs" using assms(2) by (cases s) auto
  have "uniform u \<and> (v \<noteq> [] \<longrightarrow> wrap_space (hd u) \<or> wrap_space (hd v) \<or> last u = CHR ''-'' \<or> hd v = CHR ''-'')"
  proof (cases "wrap_space c")
    case True
    then have "u = takeWhile wrap_space s" using assms(1) s by auto
    with True show ?thesis by (auto simp: s uniform_def list_all_iff dest: set_takeWhileD)
  next
    case space: False
    show ?thesis
    proof (cases "dash_ahead before s")
      case True
      then have u: "u = takeWhile (\<lambda>c. c = CHR ''-'') s" using assms(1) s space by auto
      have "u \<noteq> []" using next_chunk_split [OF assms(1)] assms(2) by simp
      moreover have "\<forall>x\<in>set u. x = CHR ''-''" unfolding u by (auto dest: set_takeWhileD)
      moreover have "last u = CHR ''-''" using calculation by simp
      moreover have "list_all (\<lambda>x. \<not> wrap_space x) u"
        unfolding list_all_iff using calculation(2) not_space_dash by metis
      ultimately show ?thesis by (simp add: uniform_def)
    next
      case False
      obtain u' where r: "word_rest (c # before) cs = (u', v)" "u = c # u'"
        using assms(1) s space False by (auto split: prod.splits)
      from word_rest_cut [OF r(1)] space show ?thesis by (auto simp: r(2) uniform_def)
    qed
  qed
  then show "uniform u" "v \<noteq> [] \<Longrightarrow> wrap_space (hd u) \<or> wrap_space (hd v) \<or> last u = CHR ''-'' \<or> hd v = CHR ''-''"
    by auto
qed

lemma next_chunk_free:
  assumes "next_chunk before s = (u, v)"
  shows "hyphen_free u"
  unfolding hyphen_free_def
proof (intro allI impI)
  fix a b
  assume u: "u = a @ ''-'' @ b"
  then have s: "s \<noteq> []" using assms by (cases s) auto
  show "\<not> (two_letters (rev a) \<and> two_letters b)"
  proof (cases "wrap_space (hd s)")
    case True
    then have "u = takeWhile wrap_space s" using assms s by (cases s) auto
    then have "\<forall>x\<in>set u. wrap_space x" by (auto dest: set_takeWhileD)
    then show ?thesis using u not_space_dash by simp
  next
    case space: False
    show ?thesis
    proof (cases "dash_ahead before s")
      case True
      then have "u = takeWhile (\<lambda>c. c = CHR ''-'') s" using assms s space by (cases s) auto
      then have "\<forall>x\<in>set u. x = CHR ''-''" by (auto dest: set_takeWhileD)
      then show ?thesis using u no_dash_letters [of b] by simp
    next
      case False
      obtain u' where r: "s \<noteq> []"
        "word_rest (hd s # before) (tl s) = (u', v)" "u = hd s # u'"
        using assms s space False by (cases s) (auto split: prod.splits)
      show ?thesis
      proof (cases a)
        case Nil
        then show ?thesis by simp
      next
        case (Cons x a')
        then have "x = hd s" "u' = a' @ CHR ''-'' # b" using u r(3) by auto
        with word_rest_free [OF r(2)] have "\<not> (two_letters (rev a @ before) \<and> two_letters b)"
          by (simp add: Cons)
        then show ?thesis using two_letters_append by blast
      qed
    qed
  qed
qed

lemma chunks_from_correct:
  "concat (chunks_from before s) = s \<and> list_all (\<lambda>c. uniform c \<and> hyphen_free c) (chunks_from before s) \<and> well_cut (chunks_from before s)"
proof (induction before s rule: chunks_from.induct)
  case (1 before s)
  show ?case
  proof (cases "s = []")
    case True
    then show ?thesis by (simp add: chunks_from.simps)
  next
    case False
    obtain u v where uv: "next_chunk before s = (u, v)" by fastforce
    have cs: "chunks_from before s = u # chunks_from (rev u @ before) v"
      using False uv by (subst chunks_from.simps) simp
    note IH = 1 [OF False uv [symmetric]]
    have "well_cut (u # chunks_from (rev u @ before) v)"
    proof (cases "chunks_from (rev u @ before) v")
      case (Cons d ds)
      then have "v = d @ concat ds" "d \<noteq> []" using IH by (auto simp: uniform_def)
      then show ?thesis using next_chunk_cut(2) [OF uv False] IH Cons by auto
    qed simp
    then show ?thesis
      unfolding cs using IH next_chunk_split [OF uv] next_chunk_cut(1) [OF uv False] next_chunk_free [OF uv] by simp
  qed
qed

text \<open>One round keeps the words and respects the width.\<close>

lemma take_line_width: "take_line width cur cs = (l, r) \<Longrightarrow> l \<noteq> [] \<Longrightarrow> cur + length (concat l) \<le> width"
proof (induction width cur cs arbitrary: l r rule: take_line.induct)
  case (2 width cur c cs)
  show ?case
  proof (cases "cur + length c \<le> width")
    case True
    obtain l' r' where t: "take_line width (cur + length c) cs = (l', r')" by fastforce
    with 2(2) True have "l = c # l'" by simp
    with 2(1) [OF True t] True show ?thesis by (cases "l' = []") auto
  qed (use 2 in auto)
qed simp

lemma next_line_parts:
  assumes "next_line width first cs = (l, r)"
  shows "\<exists>pre suf. cs = pre @ l @ suf @ r \<and> list_all blank pre \<and> list_all blank suf"
    and "l \<noteq> [] \<Longrightarrow> length (concat l) \<le> width \<or> (\<exists>c\<in>set cs. l = [c])"
proof -
  have "\<exists>pre ds. cs = pre @ ds \<and> list_all blank pre \<and> (if \<not> first \<and> blank (hd cs) then tl cs else cs) = ds"
    by (cases cs) (auto intro: exI [of _ "[_]"])
  then obtain pre ds where pre: "cs = pre @ ds" "list_all blank pre"
    "(if \<not> first \<and> blank (hd cs) then tl cs else cs) = ds" by blast
  obtain k q where kq: "take_line width 0 ds = (k, q)" by fastforce
  obtain m n where mn: "(if k = [] \<and> q \<noteq> [] then ([hd q], tl q) else (k, q)) = (m, n)" by fastforce
  have split: "ds = m @ n" using take_line_split [OF kq] mn by (auto split: if_splits)
  have lr: "l = (if m \<noteq> [] \<and> blank (last m) then butlast m else m)" "r = n"
    using assms unfolding next_line_def Let_def pre(3) by (simp_all add: kq mn)
  have "\<exists>suf. m = l @ suf \<and> list_all blank suf"
  proof (cases "m \<noteq> [] \<and> blank (last m)")
    case True
    then have "m = l @ [last m]" using lr(1) by simp
    with True show ?thesis by (intro exI [of _ "[last m]"]) simp
  qed (use lr in auto)
  then obtain suf where suf: "m = l @ suf" "list_all blank suf" by blast
  from pre(1) split suf(1) lr(2) have "cs = pre @ l @ suf @ r" by simp
  with pre(2) suf(2) show "\<exists>pre suf. cs = pre @ l @ suf @ r \<and> list_all blank pre \<and> list_all blank suf" by blast
  assume l: "l \<noteq> []"
  show "length (concat l) \<le> width \<or> (\<exists>c\<in>set cs. l = [c])"
  proof (cases "k = [] \<and> q \<noteq> []")
    case True
    then have m: "m = [hd q]" using mn by simp
    with l suf(1) have "l = [hd q]" by (cases l) auto
    moreover have "hd q \<in> set ds" using True split m by simp
    ultimately show ?thesis using pre(1) by auto
  next
    case False
    then have "m = k" using mn by auto
    with suf l have "k \<noteq> []" "length (concat l) \<le> length (concat k)" by auto
    with take_line_width [OF kq] show ?thesis by simp
  qed
qed

text \<open>
  What the lines of a wrapped text are: groups of consecutive chunks, of which only blank
  chunks between two lines (or at the end) are missing; a group wider than the line is a
  single chunk.
\<close>

definition laid_out :: "nat \<Rightarrow> string list \<Rightarrow> string list \<Rightarrow> bool" where
  "laid_out width chunks ls \<longleftrightarrow>
     (\<exists>groups. ls = map concat groups \<and> subseq (concat groups) chunks
        \<and> filter (\<lambda>c. \<not> blank c) (concat groups) = filter (\<lambda>c. \<not> blank c) chunks
        \<and> (\<forall>g\<in>set groups. g \<noteq> [] \<and> (length (concat g) \<le> width \<or> length g = 1)))"

lemma wrap_chunks_laid_out: "laid_out width cs (wrap_chunks width first cs)"
proof (induction width first cs rule: wrap_chunks.induct)
  case (1 width first cs)
  show ?case
  proof (cases "cs = []")
    case True
    then show ?thesis by (auto simp: wrap_chunks.simps laid_out_def intro: exI [of _ "[]"])
  next
    case False
    obtain l r where lr: "next_line width first cs = (l, r)" by fastforce
    obtain pre suf where cs: "cs = pre @ l @ suf @ r" "list_all blank pre" "list_all blank suf"
      using next_line_parts(1) [OF lr] by blast
    have gone: "filter (\<lambda>c. \<not> blank c) pre = []" "filter (\<lambda>c. \<not> blank c) suf = []"
      using cs(2,3) by (auto simp: filter_empty_conv list_all_iff)
    have seq: "subseq (l @ ys) cs" if "subseq ys r" for ys
    proof -
      have "subseq (l @ ys) (l @ suf @ r)"
        using subseq_drop_many [OF that, of suf] by (simp only: subseq_append')
      then show ?thesis unfolding cs(1) by (rule subseq_drop_many)
    qed
    show ?thesis
    proof (cases "l = []")
      case True
      have "wrap_chunks width first cs = wrap_chunks width first r"
        using True False lr by (subst wrap_chunks.simps) simp
      moreover obtain gs where gs: "wrap_chunks width first r = map concat gs" "subseq (concat gs) r"
        "filter (\<lambda>c. \<not> blank c) (concat gs) = filter (\<lambda>c. \<not> blank c) r"
        "\<forall>g\<in>set gs. g \<noteq> [] \<and> (length (concat g) \<le> width \<or> length g = 1)"
        using 1(1) [OF False lr [symmetric] True] unfolding laid_out_def by blast
      moreover have "subseq (concat gs) cs" using seq [OF gs(2)] True by simp
      moreover have "filter (\<lambda>c. \<not> blank c) cs = filter (\<lambda>c. \<not> blank c) r"
        using True gone by (simp add: cs(1))
      ultimately show ?thesis unfolding laid_out_def by auto
    next
      case nonempty: False
      obtain gs where gs: "wrap_chunks width False r = map concat gs" "subseq (concat gs) r"
        "filter (\<lambda>c. \<not> blank c) (concat gs) = filter (\<lambda>c. \<not> blank c) r"
        "\<forall>g\<in>set gs. g \<noteq> [] \<and> (length (concat g) \<le> width \<or> length g = 1)"
        using 1(2) [OF False lr [symmetric] nonempty] unfolding laid_out_def by blast
      have "length (concat l) \<le> width \<or> length l = 1"
        using next_line_parts(2) [OF lr nonempty] by auto
      moreover have "wrap_chunks width first cs = map concat (l # gs)"
        using nonempty False lr gs(1) by (subst wrap_chunks.simps) simp
      moreover have "filter (\<lambda>c. \<not> blank c) (concat (l # gs)) = filter (\<lambda>c. \<not> blank c) cs"
        using gs(3) gone by (simp add: cs(1))
      ultimately show ?thesis
        using gs(4) nonempty seq [OF gs(2)] unfolding laid_out_def
        by (intro exI [of _ "l # gs"]) auto
    qed
  qed
qed

lemma laid_out_visible: "laid_out width cs ls \<Longrightarrow> concat (map visible ls) = visible (concat cs)"
proof -
  assume "laid_out width cs ls"
  then obtain gs where gs: "ls = map concat gs"
    "filter (\<lambda>c. \<not> blank c) (concat gs) = filter (\<lambda>c. \<not> blank c) cs"
    unfolding laid_out_def by blast
  have "concat (map visible (map concat gs)) = concat (map visible (concat gs))"
    by (induction gs) (simp_all add: visible_concat)
  also have "\<dots> = concat (map visible cs)"
    using visible_filter [of "concat gs"] visible_filter [of cs] gs(2) by simp
  finally show ?thesis by (simp add: gs(1) visible_concat)
qed

lemma break_space: "is_break c \<Longrightarrow> is_space c"
  by (auto simp: is_break_def is_space_def Let_def)

lemma visible_splitlines_from: "concat (map visible (splitlines_from cur s)) = visible (rev cur) @ visible s"
proof (induction cur s rule: splitlines_from.induct)
  case (2 cur c cs)
  show ?case
  proof (cases "is_break c")
    case br: True
    show ?thesis
    proof (cases "of_char c = (13 :: nat) \<and> cs \<noteq> [] \<and> of_char (hd cs) = (10 :: nat)")
      case True
      then obtain d ds where cs: "cs = d # ds" "of_char d = (10 :: nat)" by (cases cs) auto
      then have "is_space d" by (simp add: is_space_def)
      with 2(1) [OF br True] br True cs show ?thesis by (simp add: visible_Cons break_space)
    next
      case False
      from 2(2) [OF br False] br False show ?thesis by (auto simp: visible_Cons break_space)
    qed
  next
    case False
    with 2(3) [OF False] show ?thesis by (simp add: visible_Cons)
  qed
qed simp

lemma visible_splitlines: "concat (map visible (splitlines s)) = visible s"
  by (simp add: splitlines_def visible_splitlines_from)

lemma visible_join: "visible (join_str ''\<newline>'' ls) = concat (map visible ls)"
proof -
  have nl: "is_space CHR ''\<newline>''" by code_simp
  show ?thesis
  proof (induction ls)
    case (Cons l ls)
    then show ?case by (cases ls) (simp_all add: nl visible_Cons)
  qed simp
qed

lemma chunks_of_correct:
  "concat (chunks_of line) = expand_tabs 0 line"
  "list_all (\<lambda>c. uniform c \<and> hyphen_free c) (chunks_of line)" "well_cut (chunks_of line)"
  using chunks_from_correct by (auto simp: chunks_of_def)

text \<open>The lines of one line of text; where nothing is left there is one empty line.\<close>

definition wrapped_line :: "nat \<Rightarrow> string \<Rightarrow> string list \<Rightarrow> bool" where
  "wrapped_line width line ls \<longleftrightarrow>
     (\<exists>ls'. laid_out width (chunks_of line) ls' \<and> ls = (if ls' = [] then [[]] else ls'))"

lemma wrapped_line_visible: "wrapped_line width line ls \<Longrightarrow> concat (map visible ls) = visible line"
proof -
  assume "wrapped_line width line ls"
  then obtain ls' where ls: "laid_out width (chunks_of line) ls'" "ls = (if ls' = [] then [[]] else ls')"
    unfolding wrapped_line_def by blast
  have "concat (map visible ls') = visible line"
    using laid_out_visible [OF ls(1)] by (simp add: chunks_of_correct visible_expand_tabs)
  then show ?thesis using ls(2) by auto
qed

lemma wrapped_lines_visible:
  "list_all2 (wrapped_line width) lines lss \<Longrightarrow> concat (map visible (concat lss)) = concat (map visible lines)"
  by (induction lines lss rule: list_all2_induct) (simp_all add: wrapped_line_visible)

lemma wrap_text_lines:
  assumes "0 < width"
  shows "\<exists>lss r. wrap_text (Some t) width = Inr r \<and> r = join_str ''\<newline>'' (concat lss)
    \<and> list_all2 (wrapped_line width) (splitlines t) lss \<and> visible r = visible t"
proof -
  let ?f = "\<lambda>line. wrap_chunks width True (chunks_of line)"
  let ?lss = "map (\<lambda>line. if ?f line = [] then [[]] else ?f line) (splitlines t)"
  have m: "res_map (textwrap_wrap width) (splitlines t) = Inr (map ?f (splitlines t))"
    by (rule res_map_total) (use assms in \<open>simp add: textwrap_wrap_def\<close>)
  have r: "wrap_text (Some t) width = Inr (join_str ''\<newline>'' (concat ?lss))"
    by (simp add: wrap_text_def m o_def)
  have "wrapped_line width line (if ?f line = [] then [[]] else ?f line)" for line
    unfolding wrapped_line_def using wrap_chunks_laid_out by blast
  then have lines: "list_all2 (wrapped_line width) (splitlines t) ?lss"
    by (simp add: list_all2_conv_all_nth del: if_split)
  have "visible (join_str ''\<newline>'' (concat ?lss)) = visible t"
    using wrapped_lines_visible [OF lines] by (simp only: visible_join visible_splitlines)
  with r lines show ?thesis by blast
qed

text \<open>
  Claim C28. Wrapping a text to a positive width raises nothing and changes only its white space.
  Every line of the text is cut into chunks, which are white space or free of it, meet only
  next to white space or at a hyphen (so words are cut after hyphens only), and have no
  hyphen left between letters; the produced lines are groups of these chunks in order, from
  which only blank chunks are missing, and none is longer than the width, except a chunk
  that is longer by itself.
\<close>

theorem wrap_text_correct:
  assumes "0 < width"
  shows "\<exists>lss r. wrap_text (Some t) width = Inr r \<and> r = join_str ''\<newline>'' (concat lss)
    \<and> visible r = visible t
    \<and> list_all2 (wrapped_line width) (splitlines t) lss
    \<and> list_all (\<lambda>line. concat (chunks_of line) = expand_tabs 0 line \<and> well_cut (chunks_of line)
        \<and> list_all (\<lambda>c. uniform c \<and> hyphen_free c) (chunks_of line)) (splitlines t)"
  using wrap_text_lines [OF assms, of t] chunks_of_correct by (auto simp: list_all_iff)

theorem wrap_text_correct_witness:
  "\<exists>r. wrap_text (Some ''A well-known -12.5 ms; x--yz'') 7 = Inr r
     \<and> visible r = ''Awell-known-12.5ms;x--yz''
     \<and> r = join_str ''\<newline>'' [''A well-'', ''known'', ''-12.5'', ''ms; x--'', ''yz'']"
proof -
  have v: "visible ''A well-known -12.5 ms; x--yz'' = ''Awell-known-12.5ms;x--yz''"
    by code_simp
  have r: "wrap_text (Some ''A well-known -12.5 ms; x--yz'') 7 =
      Inr (join_str ''\<newline>'' [''A well-'', ''known'', ''-12.5'', ''ms; x--'', ''yz''])"
    by code_simp
  from wrap_text_correct [of 7 "''A well-known -12.5 ms; x--yz''"] v r show ?thesis by auto
qed

section \<open>Statistics as text\<close>

definition stats_labels :: "stats \<Rightarrow> (string \<times> pynum option) list" where
  "stats_labels st = [(''Mean'', Some (st_mean st)), (''Median'', Some (st_median st)),
     (''P95'', st_p95 st), (''Min'', Some (st_min st)), (''Max'', Some (st_max st))]"

definition short_stats_cell :: "stats option \<Rightarrow> nat \<Rightarrow> string py" where
  "short_stats_cell stats wrap_width =
     (case stats of None \<Rightarrow> Inr ''-''
      | Some st \<Rightarrow> wrap_text (Some (join_str ''\<newline>''
          (map (\<lambda>(label, v). label @ '': '' @ fmt 4 v) (stats_labels st)))) wrap_width)"

definition stats_summary_line :: "stats option \<Rightarrow> string \<Rightarrow> string" where
  "stats_summary_line stats unit =
     (let suffix = (if unit = [] then [] else '' '' @ unit)
      in case stats of None \<Rightarrow> ''-''
         | Some st \<Rightarrow> join_str ''; ''
             (map (\<lambda>(label, v). label @ '' '' @ fmt 4 v @ suffix) (stats_labels st)))"

section \<open>Table rows\<close>

text \<open>A row whose cells may raise.\<close>

definition row_of :: "string py list \<Rightarrow> string list py" where
  "row_of cells = res_map (\<lambda>c. c) cells"

definition build_summary_table_rows :: "bench_config \<Rightarrow> summary_item list \<Rightarrow> string list list py" where
  "build_summary_table_rows cfg summary = res_map (\<lambda>item. row_of
     [Inr (py_upper (si_compiler item)), Inr (show_int (si_server_threads item)),
      Inr (show_int (si_parallel_bench_processes item)), Inr (show_int (si_runs item)),
      short_stats_cell (si_elapsed_ms_stats item) (table_wrap_main cfg),
      short_stats_cell (si_energy_j_stats item) (table_wrap_main cfg),
      short_stats_cell (si_throughput_mib_s_stats item) (table_wrap_main cfg),
      short_stats_cell (si_downloads_per_process_stats item) (table_wrap_main cfg)]) summary"

definition build_reliability_table_rows :: "bench_config \<Rightarrow> summary_item list \<Rightarrow> string list list py" where
  "build_reliability_table_rows cfg summary = res_map (\<lambda>item. row_of
     [Inr (py_upper (si_compiler item)), Inr (show_int (si_server_threads item)),
      Inr (show_int (si_parallel_bench_processes item)),
      short_stats_cell (si_total_iterations_stats item) (table_wrap_main cfg),
      short_stats_cell (si_success_stats item) (table_wrap_main cfg),
      short_stats_cell (si_failed_stats item) (table_wrap_main cfg)]) summary"

definition build_raw_results_rows :: "bench_result list \<Rightarrow> string list list" where
  "build_raw_results_rows results = map (\<lambda>item.
     [py_upper (br_compiler item), show_int (br_server_threads item),
      show_int (br_parallel_bench_processes item), show_int (br_repetition item),
      fmt 4 (Some (br_elapsed_ms item)), fmt 4 (Some (br_energy_j_raw item)),
      fmt 4 (Some (br_energy_j item)), fmt 4 (Some (br_throughput_mib_s item)),
      show_int (br_success item), show_int (br_failed item)]) results"

text \<open>\<open>next((x for x in summary if ...), None)\<close>\<close>

definition find_row :: "summary_item list \<Rightarrow> string \<Rightarrow> int \<Rightarrow> int \<Rightarrow> summary_item option" where
  "find_row summary compiler server_threads bench_count =
     find (\<lambda>x. si_compiler x = compiler \<and> si_server_threads x = server_threads
            \<and> si_parallel_bench_processes x = bench_count) summary"

definition comparison_cell ::
    "bench_config \<Rightarrow> summary_item option \<Rightarrow> (summary_item \<Rightarrow> stats option) \<Rightarrow> string \<Rightarrow> string py" where
  "comparison_cell cfg row metric unit =
     wrap_text (Some (case row of None \<Rightarrow> ''-'' | Some x \<Rightarrow> stats_summary_line (metric x) unit))
       (table_wrap_comparison cfg)"

definition build_comparison_table_rows :: "bench_config \<Rightarrow> summary_item list \<Rightarrow> int \<Rightarrow> string list list py" where
  "build_comparison_table_rows cfg summary server_threads = res_map (\<lambda>bench_count.
     let gcc_row = find_row summary ''gcc'' server_threads bench_count;
         clang_row = find_row summary ''clang'' server_threads bench_count
     in row_of
       [Inr (show_int bench_count),
        comparison_cell cfg gcc_row si_elapsed_ms_stats ''ms'',
        comparison_cell cfg clang_row si_elapsed_ms_stats ''ms'',
        comparison_cell cfg gcc_row si_energy_j_stats ''J'',
        comparison_cell cfg clang_row si_energy_j_stats ''J'',
        comparison_cell cfg gcc_row si_throughput_mib_s_stats ''MiB/s'',
        comparison_cell cfg clang_row si_throughput_mib_s_stats ''MiB/s'']) (macro_bench_cases cfg)"

section \<open>The tables are complete\<close>

lemma short_stats_cell_total: "0 < width \<Longrightarrow> \<exists>r. short_stats_cell st width = Inr r"
  using wrap_text_lines [of width] by (force simp: short_stats_cell_def split: option.splits)

lemma res_map_shape:
  assumes "\<And>x. x \<in> set xs \<Longrightarrow> \<exists>y. f x = Inr y \<and> Q x y"
  shows "\<exists>ys. res_map f xs = Inr ys \<and> list_all2 Q xs ys"
  using assms
proof (induction xs)
  case (Cons x xs)
  then obtain y ys where "f x = Inr y" "Q x y" "res_map f xs = Inr ys" "list_all2 Q xs ys"
    by (metis list.set_intros)
  then show ?case by simp
qed simp

lemma comparison_cell_total:
  assumes "0 < table_wrap_comparison cfg"
  shows "\<exists>r. comparison_cell cfg row m unit = Inr r"
  using wrap_text_lines [OF assms] by (force simp: comparison_cell_def)

text \<open>
  What a cell of the comparison table shows: the statistic of the first summary line of this
  compiler, thread count and number of clients, or a dash; wrapped to the configured width.
\<close>

definition shown_stats ::
    "summary_item list \<Rightarrow> string \<Rightarrow> int \<Rightarrow> int \<Rightarrow> (summary_item \<Rightarrow> stats option) \<Rightarrow> string \<Rightarrow> string" where
  "shown_stats summary compiler st n metric unit =
     (case filter (\<lambda>x. si_compiler x = compiler \<and> si_server_threads x = st
         \<and> si_parallel_bench_processes x = n) summary of
        [] \<Rightarrow> ''-'' | x # _ \<Rightarrow> stats_summary_line (metric x) unit)"

definition shows_stats :: "bench_config \<Rightarrow> string \<Rightarrow> string \<Rightarrow> bool" where
  "shows_stats cfg cell text \<longleftrightarrow>
     wrap_text (Some text) (table_wrap_comparison cfg) = Inr cell \<and> visible cell = visible text"

lemma find_filter: "find P xs = (case filter P xs of [] \<Rightarrow> None | x # _ \<Rightarrow> Some x)"
  by (induction xs) auto

lemma comparison_cell_shows:
  assumes "0 < table_wrap_comparison cfg"
  shows "\<exists>r. comparison_cell cfg (find_row summary c st n) m unit = Inr r
    \<and> shows_stats cfg r (shown_stats summary c st n m unit)"
proof -
  have "(case find_row summary c st n of None \<Rightarrow> ''-'' | Some x \<Rightarrow> stats_summary_line (m x) unit)
      = shown_stats summary c st n m unit"
    by (simp add: find_row_def find_filter shown_stats_def split: list.splits)
  then show ?thesis
    using wrap_text_lines [OF assms, of "shown_stats summary c st n m unit"]
    by (auto simp: comparison_cell_def shows_stats_def)
qed

text \<open>
  Claim C29. The comparison table has one row per configured number of clients, in order;
  every row has its number of clients and six cells: elapsed time, energy and throughput,
  each of the GCC and then of the Clang summary line for this cell with its unit, wrapped to
  the configured width with nothing but white space changed, or a dash where there is no
  such line.
\<close>

theorem comparison_rows_correct:
  assumes "0 < table_wrap_comparison cfg"
  shows "\<exists>rows. build_comparison_table_rows cfg summary st = Inr rows
    \<and> list_all2 (\<lambda>n row. length row = 7 \<and> row ! 0 = show_int n
        \<and> shows_stats cfg (row ! 1) (shown_stats summary ''gcc'' st n si_elapsed_ms_stats ''ms'')
        \<and> shows_stats cfg (row ! 2) (shown_stats summary ''clang'' st n si_elapsed_ms_stats ''ms'')
        \<and> shows_stats cfg (row ! 3) (shown_stats summary ''gcc'' st n si_energy_j_stats ''J'')
        \<and> shows_stats cfg (row ! 4) (shown_stats summary ''clang'' st n si_energy_j_stats ''J'')
        \<and> shows_stats cfg (row ! 5) (shown_stats summary ''gcc'' st n si_throughput_mib_s_stats ''MiB/s'')
        \<and> shows_stats cfg (row ! 6) (shown_stats summary ''clang'' st n si_throughput_mib_s_stats ''MiB/s''))
      (macro_bench_cases cfg) rows"
  unfolding build_comparison_table_rows_def Let_def
proof (rule res_map_shape)
  fix n
  note cell = comparison_cell_shows [OF assms, of summary _ st n]
  let ?g = "find_row summary ''gcc'' st n" and ?c = "find_row summary ''clang'' st n"
  obtain a where a: "comparison_cell cfg ?g si_elapsed_ms_stats ''ms'' = Inr a"
    "shows_stats cfg a (shown_stats summary ''gcc'' st n si_elapsed_ms_stats ''ms'')" using cell by blast
  obtain b where b: "comparison_cell cfg ?c si_elapsed_ms_stats ''ms'' = Inr b"
    "shows_stats cfg b (shown_stats summary ''clang'' st n si_elapsed_ms_stats ''ms'')" using cell by blast
  obtain d where d: "comparison_cell cfg ?g si_energy_j_stats ''J'' = Inr d"
    "shows_stats cfg d (shown_stats summary ''gcc'' st n si_energy_j_stats ''J'')" using cell by blast
  obtain e where e: "comparison_cell cfg ?c si_energy_j_stats ''J'' = Inr e"
    "shows_stats cfg e (shown_stats summary ''clang'' st n si_energy_j_stats ''J'')" using cell by blast
  obtain f where f: "comparison_cell cfg ?g si_throughput_mib_s_stats ''MiB/s'' = Inr f"
    "shows_stats cfg f (shown_stats summary ''gcc'' st n si_throughput_mib_s_stats ''MiB/s'')" using cell by blast
  obtain h where h: "comparison_cell cfg ?c si_throughput_mib_s_stats ''MiB/s'' = Inr h"
    "shows_stats cfg h (shown_stats summary ''clang'' st n si_throughput_mib_s_stats ''MiB/s'')" using cell by blast
  let ?row = "[show_int n, a, b, d, e, f, h]"
  have "row_of [Inr (show_int n), comparison_cell cfg ?g si_elapsed_ms_stats ''ms'',
        comparison_cell cfg ?c si_elapsed_ms_stats ''ms'', comparison_cell cfg ?g si_energy_j_stats ''J'',
        comparison_cell cfg ?c si_energy_j_stats ''J'', comparison_cell cfg ?g si_throughput_mib_s_stats ''MiB/s'',
        comparison_cell cfg ?c si_throughput_mib_s_stats ''MiB/s''] = Inr ?row"
    by (simp add: row_of_def a(1) b(1) d(1) e(1) f(1) h(1))
  then show "\<exists>row. row_of [Inr (show_int n), comparison_cell cfg ?g si_elapsed_ms_stats ''ms'',
        comparison_cell cfg ?c si_elapsed_ms_stats ''ms'', comparison_cell cfg ?g si_energy_j_stats ''J'',
        comparison_cell cfg ?c si_energy_j_stats ''J'', comparison_cell cfg ?g si_throughput_mib_s_stats ''MiB/s'',
        comparison_cell cfg ?c si_throughput_mib_s_stats ''MiB/s''] = Inr row
      \<and> length row = 7 \<and> row ! 0 = show_int n
      \<and> shows_stats cfg (row ! 1) (shown_stats summary ''gcc'' st n si_elapsed_ms_stats ''ms'')
      \<and> shows_stats cfg (row ! 2) (shown_stats summary ''clang'' st n si_elapsed_ms_stats ''ms'')
      \<and> shows_stats cfg (row ! 3) (shown_stats summary ''gcc'' st n si_energy_j_stats ''J'')
      \<and> shows_stats cfg (row ! 4) (shown_stats summary ''clang'' st n si_energy_j_stats ''J'')
      \<and> shows_stats cfg (row ! 5) (shown_stats summary ''gcc'' st n si_throughput_mib_s_stats ''MiB/s'')
      \<and> shows_stats cfg (row ! 6) (shown_stats summary ''clang'' st n si_throughput_mib_s_stats ''MiB/s'')"
    using a(2) b(2) d(2) e(2) f(2) h(2) by (intro exI [of _ ?row]) (simp del: visible_append)
qed

text \<open>Two summary lines whose statistics differ.\<close>

definition flat_stats :: "rat \<Rightarrow> stats option" where
  "flat_stats x = Some \<lparr>st_count = 1, st_mean = PFlt x, st_median = PFlt x, st_stdev = PFlt 0,
     st_min = PFlt x, st_max = PFlt x, st_p25 = Some (PFlt x), st_p50 = Some (PFlt x), st_p95 = None\<rparr>"

definition flat_line :: "string \<Rightarrow> rat \<Rightarrow> rat \<Rightarrow> rat \<Rightarrow> summary_item" where
  "flat_line compiler elapsed energy rate =
     \<lparr>si_compiler = compiler, si_server_threads = 1, si_parallel_bench_processes = 1, si_runs = 1,
       si_elapsed_s_stats = None, si_elapsed_ms_stats = flat_stats elapsed, si_energy_j_raw_stats = None,
       si_idle_energy_j_estimated_stats = None, si_energy_j_stats = flat_stats energy,
       si_throughput_mib_s_stats = flat_stats rate, si_downloads_per_process_stats = None,
       si_total_iterations_stats = None, si_success_stats = None, si_failed_stats = None\<rparr>"

theorem comparison_rows_correct_witness:
  "\<exists>rows. build_comparison_table_rows (asio_config ''/r'') [flat_line ''clang'' 5 2 40, flat_line ''gcc'' 4 1 50] 1 = Inr rows
    \<and> length rows = 5 \<and> rows ! 0 ! 0 = ''1''
    \<and> visible (rows ! 0 ! 3) = ''Mean1.0000J;Median1.0000J;P95-J;Min1.0000J;Max1.0000J''
    \<and> visible (rows ! 0 ! 4) = ''Mean2.0000J;Median2.0000J;P95-J;Min2.0000J;Max2.0000J''
    \<and> visible (rows ! 1 ! 3) = ''-''"
proof -
  let ?cfg = "asio_config ''/r''" and ?s = "[flat_line ''clang'' 5 2 40, flat_line ''gcc'' 4 1 50]"
  have w: "0 < table_wrap_comparison ?cfg" by (simp add: asio_config_def run_bench_config_def)
  have cases: "length (macro_bench_cases ?cfg) = 5" "macro_bench_cases ?cfg ! 0 = 1" "macro_bench_cases ?cfg ! 1 = 2"
    by (simp_all add: asio_config_def run_bench_config_def)
  have texts: "visible (shown_stats ?s ''gcc'' 1 1 si_energy_j_stats ''J'') = ''Mean1.0000J;Median1.0000J;P95-J;Min1.0000J;Max1.0000J''"
    "visible (shown_stats ?s ''clang'' 1 1 si_energy_j_stats ''J'') = ''Mean2.0000J;Median2.0000J;P95-J;Min2.0000J;Max2.0000J''"
    "visible (shown_stats ?s ''gcc'' 1 2 si_energy_j_stats ''J'') = ''-''" "show_int 1 = ''1''"
    by code_simp+
  obtain rows where rows: "build_comparison_table_rows ?cfg ?s 1 = Inr rows" "length rows = 5"
    "\<forall>i<5. rows ! i ! 0 = show_int (macro_bench_cases ?cfg ! i)
      \<and> shows_stats ?cfg (rows ! i ! 3) (shown_stats ?s ''gcc'' 1 (macro_bench_cases ?cfg ! i) si_energy_j_stats ''J'')
      \<and> shows_stats ?cfg (rows ! i ! 4) (shown_stats ?s ''clang'' 1 (macro_bench_cases ?cfg ! i) si_energy_j_stats ''J'')"
    using comparison_rows_correct [OF w, of ?s 1] cases(1) by (auto simp: list_all2_conv_all_nth)
  from rows(3) [rule_format, of 0] rows(3) [rule_format, of 1] rows(1,2) texts cases(2,3)
  show ?thesis by (intro exI [of _ rows]) (simp add: shows_stats_def)
qed

end
