(* ===== verification/Pdf.thy ===== *)
theory Pdf
  imports Py_IO
begin

text \<open>
  Writing a PDF report: the body of a \<open>with PdfPages(path) as pdf\<close> block adds pages one by
  one, each through a library call that may raise, and reads the machine in between; leaving
  the block, normally or by an exception, writes the pages added so far.  \<open>add_text_page\<close> and
  \<open>add_image_page\<close> are the same code in \<open>scripts/run_bench.py\<close> and \<open>build_master_summary.py\<close>,
  and both cut long tables into parts.
\<close>

section \<open>Bodies\<close>

type_synonym 'e pdf = "page list \<Rightarrow> 'e world \<Rightarrow> unit py \<times> page list \<times> 'e world"

definition pdf_return :: "'e pdf" where
  "pdf_return ps w = (Inr (), ps, w)"

definition pdf_page :: "'e os \<Rightarrow> page \<Rightarrow> 'e pdf" where
  "pdf_page os p ps w =
     (case sys_unit os (Render p) w of (Inl e, w') \<Rightarrow> (Inl e, ps, w') | (Inr _, w') \<Rightarrow> (Inr (), ps @ [p], w'))"

definition pdf_then :: "'e pdf \<Rightarrow> 'e pdf \<Rightarrow> 'e pdf" where
  "pdf_then m n ps w =
     (case m ps w of (Inl e, ps', w') \<Rightarrow> (Inl e, ps', w') | (Inr _, ps', w') \<Rightarrow> n ps' w')"

definition pdf_bind :: "('e, 'a) io \<Rightarrow> ('a \<Rightarrow> 'e pdf) \<Rightarrow> 'e pdf" where
  "pdf_bind m f ps w = (case m w of (Inl e, w') \<Rightarrow> (Inl e, ps, w') | (Inr x, w') \<Rightarrow> f x ps w')"

fun pdf_for :: "'a list \<Rightarrow> ('a \<Rightarrow> 'e pdf) \<Rightarrow> 'e pdf" where
  "pdf_for [] body = pdf_return"
| "pdf_for (x # xs) body = pdf_then (body x) (pdf_for xs body)"

definition with_pdf :: "'e os \<Rightarrow> string \<Rightarrow> 'e pdf \<Rightarrow> ('e, unit) io" where
  "with_pdf os path body w =
     (case body [] w of (r, ps, w') \<Rightarrow>
        (case sys_unit os (Save_pdf path ps) w' of (Inl e, w'') \<Rightarrow> (Inl e, w'') | (Inr _, w'') \<Rightarrow> (r, w'')))"

section \<open>Pages\<close>

definition pdf_text :: "'e os \<Rightarrow> string \<Rightarrow> string list \<Rightarrow> rat \<Rightarrow> 'e pdf" where
  "pdf_text os title lines fontsize = pdf_for (add_text_page title lines fontsize) (pdf_page os)"

definition add_image_page :: "'e os \<Rightarrow> string \<Rightarrow> string \<Rightarrow> 'e pdf" where
  "add_image_page os image_path title =
     pdf_bind (sys_unit os (Read_image image_path)) (\<lambda>_. pdf_page os (Image_page image_path title))"

text \<open>\<open>if image_path.exists(): add_image_page(...)\<close>\<close>

definition pdf_image_if_exists :: "'e os \<Rightarrow> string \<Rightarrow> string \<Rightarrow> 'e pdf" where
  "pdf_image_if_exists os image_path title =
     pdf_bind (sys_bool os (Path_exists image_path))
       (\<lambda>found. if found then add_image_page os image_path title else pdf_return)"

text \<open>\<open>for i in range(0, len(rows), n): ... rows[i:i + n]\<close>; part number \<open>i // n + 1\<close>.\<close>

definition row_chunks :: "nat \<Rightarrow> 'a list \<Rightarrow> 'a list list" where
  "row_chunks n rows = map (\<lambda>k. take n (drop (k * n) rows)) [0..<(length rows + n - 1) div n]"

definition pdf_tables :: "'e os \<Rightarrow> (nat \<Rightarrow> string list list \<Rightarrow> table) \<Rightarrow> nat \<Rightarrow> string list list \<Rightarrow> 'e pdf" where
  "pdf_tables os page_of n rows =
     pdf_for (enumerate 1 (row_chunks n rows)) (\<lambda>(part, chunk). pdf_page os (Table_page (page_of part chunk)))"

lemma row_chunks_Nil [simp]: "row_chunks n [] = []"
  by (cases n) (simp_all add: row_chunks_def)

lemma row_chunks_step:
  assumes "0 < n" "rows \<noteq> []"
  shows "row_chunks n rows = take n rows # row_chunks n (drop n rows)"
proof -
  have "(length rows + n - 1) div n = Suc ((length (drop n rows) + n - 1) div n)"
  proof (cases "n \<le> length rows")
    case True
    then have "length rows + n - 1 = (length (drop n rows) + n - 1) + n" using assms by simp
    with assms(1) show ?thesis by (metis Suc_eq_plus1 div_add_self2 less_not_refl)
  next
    case False
    have "(length rows + n - 1) div n = 1"
    proof (rule div_nat_eqI)
      show "n * 1 \<le> length rows + n - 1" using assms by (cases rows) auto
      show "length rows + n - 1 < n * Suc 1" using False by simp
    qed
    with False assms(1) show ?thesis by simp
  qed
  moreover have "map (\<lambda>k. take n (drop (k * n) rows)) [0..<Suc m]
      = take n rows # map (\<lambda>k. take n (drop (k * n) (drop n rows))) [0..<m]" for m
    by (simp add: upt_conv_Cons map_Suc_upt [symmetric] add.commute comp_def del: upt_Suc)
  ultimately show ?thesis unfolding row_chunks_def by simp
qed

lemma row_chunks_complete:
  assumes "0 < n"
  shows "concat (row_chunks n rows) = rows \<and> (\<forall>c\<in>set (row_chunks n rows). c \<noteq> [] \<and> length c \<le> n)"
proof (induction "length rows" arbitrary: rows rule: less_induct)
  case less
  show ?case
  proof (cases "rows = []")
    case False
    then have "length (drop n rows) < length rows" using assms by simp
    from less [OF this] False assms show ?thesis unfolding row_chunks_step [OF assms False] by auto
  qed simp
qed

section \<open>What a body adds\<close>

text \<open>A body that, from every world in \<open>P\<close>, returns after adding pages in \<open>Q\<close>.\<close>

definition adds :: "('e world \<Rightarrow> bool) \<Rightarrow> 'e pdf \<Rightarrow> (page list \<Rightarrow> bool) \<Rightarrow> bool" where
  "adds P m Q \<longleftrightarrow> (\<forall>ps w. P w \<longrightarrow> (\<exists>qs w'. m ps w = (Inr (), ps @ qs, w') \<and> Q qs \<and> P w'))"

lemma adds_return: "Q [] \<Longrightarrow> adds P pdf_return Q"
  by (auto simp: adds_def pdf_return_def)

lemma adds_page: "returns P (sys_unit os (Render p)) (\<lambda>_. True) \<Longrightarrow> Q [p] \<Longrightarrow> adds P (pdf_page os p) Q"
  unfolding adds_def pdf_page_def returns_def by fastforce

lemma adds_then:
  assumes "adds P m Q" "adds P n R" "\<And>qs rs. Q qs \<Longrightarrow> R rs \<Longrightarrow> S (qs @ rs)"
  shows "adds P (pdf_then m n) S"
  unfolding adds_def
proof (intro allI impI)
  fix ps w assume "P w"
  then obtain qs w1 where 1: "m ps w = (Inr (), ps @ qs, w1)" "Q qs" "P w1"
    using assms(1) unfolding adds_def by blast
  then obtain rs w2 where "n (ps @ qs) w1 = (Inr (), (ps @ qs) @ rs, w2)" "R rs" "P w2"
    using assms(2) unfolding adds_def by blast
  with 1 assms(3) show "\<exists>qs w'. pdf_then m n ps w = (Inr (), ps @ qs, w') \<and> S qs \<and> P w'"
    by (auto simp: pdf_then_def)
qed

lemma adds_bind: "returns P m Q \<Longrightarrow> (\<And>x. Q x \<Longrightarrow> adds P (f x) R) \<Longrightarrow> adds P (pdf_bind m f) R"
  unfolding adds_def pdf_bind_def returns_def by fastforce

lemma adds_weaken: "adds P m Q \<Longrightarrow> (\<And>qs. Q qs \<Longrightarrow> R qs) \<Longrightarrow> adds P m R"
  unfolding adds_def by meson

lemma adds_for:
  assumes "\<And>x. x \<in> set xs \<Longrightarrow> adds P (body x) (Q x)"
  shows "adds P (pdf_for xs body) (\<lambda>qs. \<exists>qss. qs = concat qss \<and> list_all2 Q xs qss)"
  using assms
proof (induction xs)
  case Nil
  then show ?case by (auto intro: adds_return)
next
  case (Cons x xs)
  show ?case
    unfolding pdf_for.simps
  proof (rule adds_then)
    show "adds P (body x) (Q x)" using Cons.prems by simp
    show "adds P (pdf_for xs body) (\<lambda>qs. \<exists>qss. qs = concat qss \<and> list_all2 Q xs qss)"
      by (rule Cons.IH) (use Cons.prems in simp)
  next
    fix qs rs assume "Q x qs" "\<exists>qss. rs = concat qss \<and> list_all2 Q xs qss"
    then show "\<exists>qss. qs @ rs = concat qss \<and> list_all2 Q (x # xs) qss"
      by (metis concat.simps(2) list_all2_Cons)
  qed
qed

end
