(* ===== verification/Reports.thy ===== *)
theory Reports
  imports Report_Text Pdf Healthy
begin

text \<open>
  The PDF reports of a benchmark run (\<open>generate_main_pdf_report\<close> and
  \<open>generate_comparison_pdf_report\<close> of \<open>scripts/run_bench.py\<close>) and the summary on the
  console.  The reports read the dictionary \<open>final\<close> that \<open>main\<close> also stores.
\<close>

section \<open>Data and texts\<close>

record final_data =
  fd_file_served :: string
  fd_host :: string
  fd_ports :: "(string, int) dict"
  fd_cases :: "int list"
  fd_server_threads :: "int list"
  fd_repetitions :: int
  fd_compilers :: "string list"
  fd_build_dirs :: "(string, string) dict"
  fd_idle_baseline_json :: string
  fd_idle_power_w :: pynum
  fd_results :: "bench_result list"

text \<open>\<open>str\<close> of a list of integers and of a dictionary from (plain) names to integers.\<close>

definition show_ints :: "int list \<Rightarrow> string" where
  "show_ints xs = ''['' @ join_str '', '' (map show_int xs) @ '']''"

definition show_port_dict :: "(string, int) dict \<Rightarrow> string" where
  "show_port_dict d = ''{'' @ join_str '', ''
     (map (\<lambda>(k, v). [CHR 0x27] @ k @ [CHR 0x27] @ '': '' @ show_int v) d) @ ''}''"

definition yes_no :: "bool \<Rightarrow> string" where
  "yes_no b = (if b then ''yes'' else ''no'')"

section \<open>Tables\<close>

definition header_style :: "bench_config \<Rightarrow> cell_style" where
  "header_style cfg = \<lparr>cs_bold = True, cs_fontsize = Some (of_nat (table_header_font_size cfg)),
     cs_ha = Some ''center'', cs_va = Some ''center'', cs_height_factor = b64 (135 / 100),
     cs_linewidth = b64 (8 / 10), cs_wrap = True\<rparr>"

definition body_style :: cell_style where
  "body_style = \<lparr>cs_bold = False, cs_fontsize = None, cs_ha = Some ''left'', cs_va = Some ''center'',
     cs_height_factor = b64 (110 / 100), cs_linewidth = b64 (8 / 10), cs_wrap = True\<rparr>"

definition table_page :: "bench_config \<Rightarrow> string \<Rightarrow> string list \<Rightarrow> string list list \<Rightarrow> rat \<Rightarrow> rat \<Rightarrow> rat list \<Rightarrow> table" where
  "table_page cfg title columns rows fontsize scale_y col_widths =
     \<lparr>tb_figsize = (25, b64 (144 / 10)), tb_title = title, tb_title_size = 16, tb_columns = columns,
      tb_rows = rows, tb_fontsize = fontsize, tb_scale_y = scale_y, tb_col_widths = col_widths,
      tb_header_style = header_style cfg, tb_body_style = body_style\<rparr>"

definition add_table_page ::
    "'e os \<Rightarrow> bench_config \<Rightarrow> string \<Rightarrow> string list \<Rightarrow> string list list \<Rightarrow> rat \<Rightarrow> rat \<Rightarrow> rat list \<Rightarrow> 'e pdf" where
  "add_table_page os cfg title columns rows fontsize scale_y col_widths =
     pdf_page os (Table_page (table_page cfg title columns rows fontsize scale_y col_widths))"

text \<open>A table in parts, titled by their number.\<close>

definition part_tables ::
    "'e os \<Rightarrow> bench_config \<Rightarrow> string \<Rightarrow> string list \<Rightarrow> nat \<Rightarrow> rat \<Rightarrow> rat list \<Rightarrow> string list list \<Rightarrow> 'e pdf" where
  "part_tables os cfg name columns n scale_y col_widths rows =
     pdf_tables os (\<lambda>part chunk. table_page cfg (name @ '' (part '' @ show_nat part @ '')'') columns chunk 8
        scale_y col_widths) n rows"

definition hundredths :: "int list \<Rightarrow> rat list" where
  "hundredths ws = map (\<lambda>w. b64 (of_int w / 100)) ws"

definition summary_columns :: "string list" where
  "summary_columns = [''Compiler'', ''Server\<newline>threads'', ''Parallel\<newline>benchmark\<newline>clients'', ''Runs'',
     ''Execution time\<newline>summary (ms)'', ''Net energy\<newline>summary'', ''Throughput\<newline>summary'',
     ''Downloads per\<newline>process summary'']"

definition reliability_columns :: "string list" where
  "reliability_columns = [''Compiler'', ''Server\<newline>threads'', ''Parallel\<newline>benchmark\<newline>clients'',
     ''Total iterations\<newline>summary'', ''Successful\<newline>processes summary'', ''Failed\<newline>processes summary'']"

definition raw_columns :: "string list" where
  "raw_columns = [''Compiler'', ''Server\<newline>threads'', ''Parallel\<newline>benchmark\<newline>clients'', ''Rep.'',
     ''Execution\<newline>time (ms)'', ''Raw\<newline>energy (J)'', ''Net\<newline>energy (J)'', ''Throughput\<newline>(MiB/s)'',
     ''Success'', ''Fail'']"

definition comparison_columns :: "string list" where
  "comparison_columns = [''Parallel\<newline>benchmark\<newline>clients'', ''GCC execution\<newline>time summary (ms)'',
     ''Clang execution\<newline>time summary (ms)'', ''GCC net energy\<newline>summary'', ''Clang net energy\<newline>summary'',
     ''GCC throughput\<newline>summary'', ''Clang throughput\<newline>summary'']"

definition comparison_raw_columns :: "string list" where
  "comparison_raw_columns = [''Compiler'', ''Server\<newline>threads'', ''Parallel\<newline>clients'', ''Rep.'',
     ''Execution\<newline>time (ms)'', ''Net\<newline>energy (J)'', ''Throughput\<newline>(MiB/s)'']"

section \<open>The main report\<close>

definition cover_lines :: "bench_config \<Rightarrow> pynum \<Rightarrow> final_data \<Rightarrow> bool \<Rightarrow> string \<Rightarrow> string list" where
  "cover_lines cfg idle_power_w final_data include_raw_results now =
     [''Main benchmark report'', ''Date: '' @ now, [],
      ''Served file: '' @ fd_file_served final_data,
      ''Host: '' @ fd_host final_data,
      ''Compilers: '' @ py_upper (join_str '', '' (fd_compilers final_data)),
      ''Ports: '' @ show_port_dict (fd_ports final_data),
      ''Parallel client cases: '' @ show_ints (fd_cases final_data),
      ''Server thread counts: '' @ show_ints (fd_server_threads final_data),
      ''Repetitions per case: '' @ show_int (fd_repetitions final_data),
      ''Idle power baseline: '' @ fmt_num 6 idle_power_w @ '' W'',
      ''Case cooldown: '' @ show_int (case_cooldown_seconds cfg) @ '' seconds'',
      ''Raw results included: '' @ yes_no include_raw_results]"

definition plot_titles :: "(string \<times> string) list" where
  "plot_titles = [(''elapsed_time'', ''Total execution time''), (''raw_energy'', ''Raw energy consumption''),
     (''net_energy'', ''Net energy consumption''), (''throughput'', ''Aggregate throughput''),
     (''downloads_per_process'', ''Completed downloads per benchmark process'')]"

definition overview_line :: "summary_item \<Rightarrow> string" where
  "overview_line row =
     ''Server threads = '' @ show_int (si_server_threads row)
     @ '', parallel clients = '' @ show_int (si_parallel_bench_processes row)
     @ '': time -> '' @ stats_summary_line (si_elapsed_ms_stats row) ''ms''
     @ '' | net energy -> '' @ stats_summary_line (si_energy_j_stats row) ''J''
     @ '' | throughput -> '' @ stats_summary_line (si_throughput_mib_s_stats row) ''MiB/s''"

definition compiler_section :: "'e os \<Rightarrow> bench_config \<Rightarrow> summary_item list \<Rightarrow> string \<Rightarrow> 'e pdf" where
  "compiler_section os cfg summary compiler =
     pdf_then
       (pdf_text os (py_upper compiler @ '' overview'')
          ([''Compiler-focused report section for '' @ py_upper compiler @ ''.'', []]
           @ map overview_line (filter (\<lambda>x. si_compiler x = compiler) summary)) 9)
       (pdf_for plot_titles (\<lambda>(prefix, natural_title).
          pdf_image_if_exists os (path_join (plots_dir cfg) (prefix @ ''_'' @ compiler @ ''.png''))
            (natural_title @ '' for '' @ py_upper compiler)))"

definition main_report_body ::
    "'e os \<Rightarrow> bench_config \<Rightarrow> pynum \<Rightarrow> final_data \<Rightarrow> summary_item list \<Rightarrow> bench_result list \<Rightarrow> bool \<Rightarrow> 'e pdf" where
  "main_report_body os cfg idle_power_w final_data summary results include_raw_results =
     pdf_bind (sys_str os Now) (\<lambda>now.
     pdf_then (pdf_text os ''Benchmark report'' (cover_lines cfg idle_power_w final_data include_raw_results now) 11)
     (pdf_bind (io_of (build_summary_table_rows cfg summary)) (\<lambda>summary_rows.
     pdf_then (part_tables os cfg ''Summary table'' summary_columns 3 (table_vertical_scale cfg)
         (hundredths [8, 8, 9, 6, 17, 17, 17, 18]) summary_rows)
     (pdf_bind (io_of (build_reliability_table_rows cfg summary)) (\<lambda>reliability_rows.
     pdf_then (part_tables os cfg ''Reliability table'' reliability_columns 3 (table_vertical_scale cfg)
         (hundredths [10, 9, 10, 24, 23, 24]) reliability_rows)
     (pdf_then (pdf_for (fd_compilers final_data) (compiler_section os cfg summary))
     (if include_raw_results
      then part_tables os cfg ''Raw execution results'' raw_columns 14 (table_raw_vertical_scale cfg)
             (hundredths [8, 8, 9, 6, 11, 11, 11, 12, 7, 7]) (build_raw_results_rows results)
      else pdf_return)))))))"

definition generate_main_pdf_report ::
    "'e os \<Rightarrow> bench_config \<Rightarrow> pynum \<Rightarrow> final_data \<Rightarrow> summary_item list \<Rightarrow> bench_result list \<Rightarrow> string \<Rightarrow> bool \<Rightarrow> ('e, unit) io" where
  "generate_main_pdf_report os cfg idle_power_w final_data summary results output_path include_raw_results =
     with_pdf os output_path
       (main_report_body os cfg idle_power_w final_data summary results include_raw_results)"

section \<open>The comparison report\<close>

definition intro_lines :: "final_data \<Rightarrow> bool \<Rightarrow> string \<Rightarrow> string list" where
  "intro_lines final_data include_raw_results now =
     [''Compiler comparison report'', ''Date: '' @ now, [],
      ''This report directly compares GCC and Clang under equivalent benchmark configurations.'',
      ''Each section groups the comparison by server thread count.'',
      ''Raw results included: '' @ yes_no include_raw_results, [],
      ''Served file: '' @ fd_file_served final_data,
      ''Parallel client cases: '' @ show_ints (fd_cases final_data),
      ''Server thread counts: '' @ show_ints (fd_server_threads final_data),
      ''Repetitions per case: '' @ show_int (fd_repetitions final_data)]"

definition comparison_images :: "(string \<times> string) list" where
  "comparison_images = [(''comparison_elapsed'', ''Mean total execution time''),
     (''comparison_net_energy'', ''Mean net energy consumption''),
     (''comparison_throughput'', ''Mean aggregate throughput'')]"

definition threads_section :: "'e os \<Rightarrow> bench_config \<Rightarrow> summary_item list \<Rightarrow> int \<Rightarrow> 'e pdf" where
  "threads_section os cfg summary server_threads =
     pdf_bind (io_of (build_comparison_table_rows cfg summary server_threads)) (\<lambda>table_rows.
     pdf_then (add_table_page os cfg
         (''GCC vs Clang comparison for '' @ show_int server_threads @ '' server thread(s)'')
         comparison_columns table_rows 8 (table_comparison_vertical_scale cfg)
         (hundredths [8, 15, 15, 15, 15, 16, 16]))
     (pdf_for comparison_images (\<lambda>(stem, title).
        pdf_image_if_exists os
          (path_join (plots_dir cfg) (stem @ ''_threads_'' @ show_int server_threads @ ''.png''))
          (title @ '': GCC vs Clang with '' @ show_int server_threads @ '' server thread(s)''))))"

definition comparison_raw_row :: "bench_result \<Rightarrow> string list" where
  "comparison_raw_row item =
     [py_upper (br_compiler item), show_int (br_server_threads item),
      show_int (br_parallel_bench_processes item), show_int (br_repetition item),
      fmt 4 (Some (br_elapsed_ms item)), fmt 4 (Some (br_energy_j item)),
      fmt 4 (Some (br_throughput_mib_s item))]"

definition comparison_report_body ::
    "'e os \<Rightarrow> bench_config \<Rightarrow> final_data \<Rightarrow> summary_item list \<Rightarrow> bench_result list \<Rightarrow> bool \<Rightarrow> 'e pdf" where
  "comparison_report_body os cfg final_data summary results include_raw_results =
     pdf_bind (sys_str os Now) (\<lambda>now.
     pdf_then (pdf_text os ''Compiler comparison report'' (intro_lines final_data include_raw_results now) 11)
     (pdf_then (pdf_for (server_thread_counts cfg) (threads_section os cfg summary))
     (if include_raw_results
      then part_tables os cfg ''Comparison raw results'' comparison_raw_columns 18
             (table_raw_vertical_scale cfg) (hundredths [10, 9, 10, 6, 13, 13, 14])
             (map comparison_raw_row results)
      else pdf_return)))"

definition generate_comparison_pdf_report ::
    "'e os \<Rightarrow> bench_config \<Rightarrow> final_data \<Rightarrow> summary_item list \<Rightarrow> bench_result list \<Rightarrow> string \<Rightarrow> bool \<Rightarrow> ('e, unit) io" where
  "generate_comparison_pdf_report os cfg final_data summary results output_path include_raw_results =
     with_pdf os output_path (comparison_report_body os cfg final_data summary results include_raw_results)"

section \<open>The console summary\<close>

text \<open>Subscripting a missing statistic (\<open>None\<close>) raises.\<close>

definition console_stats :: "string \<Rightarrow> stats option \<Rightarrow> string py" where
  "console_stats label s =
     (case s of None \<Rightarrow> Inl TypeError
      | Some st \<Rightarrow> Inr (''  '' @ label @ '': mean='' @ fmt_num 6 (st_mean st)
          @ '' median='' @ fmt_num 6 (st_median st) @ '' min='' @ fmt_num 6 (st_min st)
          @ '' max='' @ fmt_num 6 (st_max st)))"

definition print_console_summary :: "summary_item list \<Rightarrow> ('e, unit) io" where
  "print_console_summary summary =
     io_then (sys_log []) (io_then (sys_log ''==== STATISTICAL SUMMARY ===='')
       (io_for summary (\<lambda>item.
          io_then (sys_log (''['' @ si_compiler item @ ''] server_threads='' @ show_int (si_server_threads item)
             @ '' parallel_bench_processes='' @ show_int (si_parallel_bench_processes item)))
          (io_then (io_for [(''time_ms'', si_elapsed_ms_stats item), (''raw_energy_j'', si_energy_j_raw_stats item),
               (''net_energy_j'', si_energy_j_stats item), (''throughput_mib_s'', si_throughput_mib_s_stats item)]
             (\<lambda>(label, s). io_bind (io_of (console_stats label s)) sys_log))
            (sys_log [])))))"

section \<open>The reports are complete\<close>

fun page_tables :: "page \<Rightarrow> table list" where
  "page_tables (Table_page t) = [t]"
| "page_tables _ = []"

text \<open>All rows, in page order, of the tables with the given columns; all texts of the text pages.\<close>

definition table_rows :: "string list \<Rightarrow> page list \<Rightarrow> string list list" where
  "table_rows columns pages =
     concat (map tb_rows (filter (\<lambda>t. tb_columns t = columns) (concat (map page_tables pages))))"

definition page_texts :: "page list \<Rightarrow> string list" where
  "page_texts pages = map item_text (concat (map page_items pages))"

lemma table_rows_simps [simp]:
  "table_rows columns [] = []"
  "table_rows columns (ps @ qs) = table_rows columns ps @ table_rows columns qs"
  "table_rows columns (Table_page t # ps) = (if tb_columns t = columns then tb_rows t else []) @ table_rows columns ps"
  "table_rows columns (Image_page a b # ps) = table_rows columns ps"
  by (simp_all add: table_rows_def)

lemma table_rows_concat: "table_rows columns (concat pss) = concat (map (table_rows columns) pss)"
  by (induction pss) simp_all

lemma page_texts_append [simp]: "page_texts (ps @ qs) = page_texts ps @ page_texts qs"
  by (simp add: page_texts_def)

lemma place_lines_tables: "table_rows columns (place_lines fs y items lines) = []"
  by (induction fs y items lines rule: place_lines.induct) (simp_all add: Let_def table_rows_def)

lemma text_tables: "table_rows columns (add_text_page title lines fs) = []"
  by (simp add: add_text_page_def place_lines_tables)

text \<open>A machine on which the drawing library and the file system answer.\<close>

definition reporting :: "'e os \<Rightarrow> bool" where
  "reporting os \<longleftrightarrow> (\<forall>q e. fst (os_unit os q e) = Inr ()) \<and> (\<forall>e. \<exists>t. fst (os_str os Now e) = Inr t)"

lemma reporting_calls:
  assumes "reporting os"
  shows "returns (extends v) (sys_unit os q) (\<lambda>_. True)" "returns (extends v) (sys_bool os q) (\<lambda>_. True)"
    "returns (extends v) (sys_str os Now) (\<lambda>_. True)"
proof -
  have h: "fst (os_unit os q e) = Inr ()" "\<exists>t. fst (os_str os Now e) = Inr t" for q e
    using assms by (auto simp: reporting_def)
  show "returns (extends v) (sys_unit os q) (\<lambda>_. True)"
    using h(1) by (auto simp: returns_def extends_def sys_unit_def split: prod.splits) (metis fst_conv)
  show "returns (extends v) (sys_str os Now) (\<lambda>_. True)"
    using h(2) by (auto simp: returns_def extends_def sys_str_def split: prod.splits) (metis fst_conv)
qed (auto simp: returns_def extends_def sys_bool_def split: prod.splits)

lemma adds_text:
  assumes "reporting os"
  shows "adds (extends v) (pdf_text os title lines fs) (\<lambda>qs. qs = add_text_page title lines fs)"
proof -
  have pages: "list_all2 (\<lambda>p qs. qs = [p]) ps qss \<Longrightarrow> concat qss = ps" for ps :: "page list" and qss
    by (induction rule: list_all2_induct) auto
  show ?thesis
    unfolding pdf_text_def
    by (rule adds_weaken [OF adds_for [where Q = "\<lambda>p qs. qs = [p]"]])
      (use pages in \<open>auto intro: adds_page reporting_calls [OF assms]\<close>)
qed

lemma adds_image:
  assumes "reporting os"
  shows "adds (extends v) (pdf_image_if_exists os path title) (\<lambda>qs. \<forall>columns. table_rows columns qs = [])"
  unfolding pdf_image_if_exists_def add_image_page_def
  by (rule adds_bind [OF reporting_calls(2) [OF assms]])
    (auto intro!: adds_bind [OF reporting_calls(1) [OF assms]] adds_page adds_return reporting_calls [OF assms])

lemma list_all2_right: "list_all2 (\<lambda>x. R) xs ys \<Longrightarrow> y \<in> set ys \<Longrightarrow> R y"
  by (induction rule: list_all2_induct) auto

lemma adds_no_tables:
  assumes "\<And>x. x \<in> set xs \<Longrightarrow> adds P (body x) (\<lambda>qs. \<forall>columns. table_rows columns qs = [])"
  shows "adds P (pdf_for xs body) (\<lambda>qs. \<forall>columns. table_rows columns qs = [])"
proof (rule adds_weaken [OF adds_for [OF assms]])
  fix qs assume "\<exists>qss. qs = concat qss \<and> list_all2 (\<lambda>x qs. \<forall>columns. table_rows columns qs = []) xs qss"
  then obtain qss where qss: "qs = concat qss" "list_all2 (\<lambda>x qs. \<forall>columns. table_rows columns qs = []) xs qss"
    by blast
  have "\<forall>columns. table_rows columns q = []" if "q \<in> set qss" for q
    using qss(2) that by (rule list_all2_right)
  then show "\<forall>columns. table_rows columns qs = []" by (simp add: qss(1) table_rows_concat)
qed

definition tables_are :: "string list \<Rightarrow> string list list \<Rightarrow> page list \<Rightarrow> bool" where
  "tables_are columns rows pages \<longleftrightarrow> (\<forall>cs. table_rows cs pages = (if cs = columns then rows else []))"

lemma adds_tables:
  assumes "reporting os" "0 < n" "\<And>part chunk. tb_columns (page_of part chunk) = columns \<and> tb_rows (page_of part chunk) = chunk"
  shows "adds (extends v) (pdf_tables os page_of n rows) (tables_are columns rows)"
proof -
  let ?Q = "\<lambda>x qs. qs = [Table_page (page_of (fst x) (snd x))]"
  have rows_of: "table_rows cs (concat qss) = (if cs = columns then concat (map snd xs) else [])"
    if "list_all2 ?Q xs qss" for cs xs qss
    using that by (induction rule: list_all2_induct) (auto simp: assms(3))
  have "adds (extends v) (pdf_tables os page_of n rows)
      (\<lambda>qs. \<exists>qss. qs = concat qss \<and> list_all2 ?Q (enumerate 1 (row_chunks n rows)) qss)"
    unfolding pdf_tables_def
    by (rule adds_for) (auto intro: adds_page reporting_calls [OF assms(1)])
  then show ?thesis
  proof (rule adds_weaken)
    fix qs assume "\<exists>qss. qs = concat qss \<and> list_all2 ?Q (enumerate 1 (row_chunks n rows)) qss"
    then show "tables_are columns rows qs"
      unfolding tables_are_def using rows_of row_chunks_complete [OF assms(2), of rows] by (auto simp: map_snd_enumerate)
  qed
qed

lemma adds_parts:
  assumes "reporting os" "0 < n"
  shows "adds (extends v) (part_tables os cfg name columns n scale ws rows) (tables_are columns rows)"
  unfolding part_tables_def by (rule adds_tables [OF assms]) (simp add: table_page_def)

lemma with_pdf_returns:
  assumes "reporting os" "adds (extends w) body Q"
  shows "\<exists>w' t pages. with_pdf os path body w = (Inr (), w') \<and> Q pages
    \<and> w_trace w' = w_trace w @ t @ [Save_pdf path pages]"
proof -
  have "extends w w" by (rule tr.frame_refl)
  with assms(2) obtain qs w1 where 1: "body [] w = (Inr (), qs, w1)" "Q qs" "extends w w1"
    unfolding adds_def by (metis append_Nil)
  have "fst (os_unit os (Save_pdf path qs) (w_env w1)) = Inr ()" using assms(1) by (simp add: reporting_def)
  with 1 show ?thesis
    by (cases "os_unit os (Save_pdf path qs) (w_env w1)")
      (auto simp: with_pdf_def sys_unit_def extends_def)
qed

lemma columns_distinct:
  "summary_columns \<noteq> reliability_columns" "summary_columns \<noteq> raw_columns"
  "reliability_columns \<noteq> raw_columns" "comparison_columns \<noteq> comparison_raw_columns"
  by (simp_all add: summary_columns_def reliability_columns_def raw_columns_def comparison_columns_def
      comparison_raw_columns_def)

lemma text_texts: "page_texts (add_text_page title lines fs) = title # lines"
  by (simp add: page_texts_def add_text_page_def place_lines_texts item_text_def)

definition overview_of :: "summary_item list \<Rightarrow> string \<Rightarrow> page list \<Rightarrow> bool" where
  "overview_of summary c pages \<longleftrightarrow> (\<forall>cs. table_rows cs pages = [])
     \<and> (\<forall>item\<in>set summary. si_compiler item = c \<longrightarrow> overview_line item \<in> set (page_texts pages))"

lemma adds_compiler_section:
  assumes "reporting os"
  shows "adds (extends v) (compiler_section os cfg summary c) (overview_of summary c)"
  unfolding compiler_section_def
proof (rule adds_then [OF adds_text [OF assms]])
  let ?image = "\<lambda>(prefix, natural_title).
      pdf_image_if_exists os (path_join (plots_dir cfg) (prefix @ ''_'' @ c @ ''.png'')) (natural_title @ '' for '' @ py_upper c)"
  show "adds (extends v) (pdf_for plot_titles ?image) (\<lambda>qs. \<forall>columns. table_rows columns qs = [])"
    by (rule adds_no_tables) (auto intro: adds_image [OF assms])
qed (auto simp: overview_of_def text_tables text_texts)

lemma adds_compilers:
  assumes "reporting os"
  shows "adds (extends v) (pdf_for cs (compiler_section os cfg summary))
    (\<lambda>qs. (\<forall>columns. table_rows columns qs = [])
       \<and> (\<forall>item\<in>set summary. si_compiler item \<in> set cs \<longrightarrow> overview_line item \<in> set (page_texts qs)))"
proof (rule adds_weaken [OF adds_for [OF adds_compiler_section [OF assms]]])
  fix qs assume "\<exists>qss. qs = concat qss \<and> list_all2 (overview_of summary) cs qss"
  then obtain qss where qss: "list_all2 (overview_of summary) cs qss" "qs = concat qss" by blast
  have "(\<forall>columns. table_rows columns (concat qss) = [])
      \<and> (\<forall>item\<in>set summary. si_compiler item \<in> set cs \<longrightarrow> overview_line item \<in> set (page_texts (concat qss)))"
    using qss(1) by (induction rule: list_all2_induct) (auto simp: overview_of_def page_texts_def)
  with qss(2) show "(\<forall>columns. table_rows columns qs = [])
      \<and> (\<forall>item\<in>set summary. si_compiler item \<in> set cs \<longrightarrow> overview_line item \<in> set (page_texts qs))" by simp
qed

lemma row_of_total: "list_all (\<lambda>c. \<exists>s. c = Inr s) cells \<Longrightarrow> \<exists>row. row_of cells = Inr row"
proof (induction cells)
  case (Cons c cells)
  then obtain s row where "c = Inr s" "row_of cells = Inr row" by auto
  then show ?case by (simp add: row_of_def)
qed (simp add: row_of_def)

lemma summary_rows_total:
  assumes "0 < table_wrap_main cfg"
  shows "\<exists>rows. build_summary_table_rows cfg summary = Inr rows \<and> length rows = length summary"
    "\<exists>rows. build_reliability_table_rows cfg summary = Inr rows \<and> length rows = length summary"
proof -
  note cell = short_stats_cell_total [OF assms]
  have "\<exists>rows. build_summary_table_rows cfg summary = Inr rows \<and> list_all2 (\<lambda>_ _. True) summary rows"
    unfolding build_summary_table_rows_def
    by (rule res_map_shape, unfold simp_thms, rule row_of_total) (simp add: cell)
  then show "\<exists>rows. build_summary_table_rows cfg summary = Inr rows \<and> length rows = length summary"
    by (auto dest: list_all2_lengthD)
  have "\<exists>rows. build_reliability_table_rows cfg summary = Inr rows \<and> list_all2 (\<lambda>_ _. True) summary rows"
    unfolding build_reliability_table_rows_def
    by (rule res_map_shape, unfold simp_thms, rule row_of_total) (simp add: cell)
  then show "\<exists>rows. build_reliability_table_rows cfg summary = Inr rows \<and> length rows = length summary"
    by (auto dest: list_all2_lengthD)
qed

lemma adds_raw:
  assumes "reporting os" "0 < n"
  shows "adds (extends v) (if b then part_tables os cfg name columns n scale ws rows else pdf_return)
    (tables_are columns (if b then rows else []))"
  by (cases b) (simp_all add: adds_parts [OF assms] adds_return tables_are_def)

definition main_report_pages :: "final_data \<Rightarrow> summary_item list \<Rightarrow> string list list \<Rightarrow> string list list \<Rightarrow> string list list \<Rightarrow> page list \<Rightarrow> bool" where
  "main_report_pages final_data summary srows rrows raws pages \<longleftrightarrow>
     table_rows summary_columns pages = srows \<and> table_rows reliability_columns pages = rrows
   \<and> table_rows raw_columns pages = raws
   \<and> (\<forall>item\<in>set summary. si_compiler item \<in> set (fd_compilers final_data) \<longrightarrow> overview_line item \<in> set (page_texts pages))"

lemma adds_main_report:
  assumes "reporting os" "build_summary_table_rows cfg summary = Inr srows"
    "build_reliability_table_rows cfg summary = Inr rrows"
  shows "adds (extends v) (main_report_body os cfg idle final_data summary results raw)
    (main_report_pages final_data summary srows rrows (if raw then build_raw_results_rows results else []))"
proof -
  note calls = reporting_calls [OF assms(1)] and parts = adds_parts [OF assms(1)]
  let ?raws = "if raw then build_raw_results_rows results else []"
  let ?C = "\<lambda>qs. (\<forall>columns. table_rows columns qs = [])
       \<and> (\<forall>item\<in>set summary. si_compiler item \<in> set (fd_compilers final_data) \<longrightarrow> overview_line item \<in> set (page_texts qs))"
  let ?tail = "\<lambda>qs. \<exists>us vs. qs = us @ vs \<and> ?C us \<and> tables_are raw_columns ?raws vs"
  let ?rel = "\<lambda>qs. \<exists>us vs. qs = us @ vs \<and> tables_are reliability_columns rrows us \<and> ?tail vs"
  let ?sum = "\<lambda>qs. \<exists>us vs. qs = us @ vs \<and> tables_are summary_columns srows us \<and> ?rel vs"
  have rows: "returns (extends v) (io_of (Inr x)) (\<lambda>y. y = x)" for x :: "string list list"
    by (rule returns_of) simp_all
  have tail: "adds (extends v) (pdf_then (pdf_for (fd_compilers final_data) (compiler_section os cfg summary))
      (if raw then part_tables os cfg ''Raw execution results'' raw_columns 14 (table_raw_vertical_scale cfg)
             (hundredths [8, 8, 9, 6, 11, 11, 11, 12, 7, 7]) (build_raw_results_rows results) else pdf_return)) ?tail"
    by (rule adds_then [OF adds_compilers [OF assms(1)] adds_raw [OF assms(1)]]) (simp, blast)
  have rel: "adds (extends v) (pdf_then (part_tables os cfg ''Reliability table'' reliability_columns 3
      (table_vertical_scale cfg) (hundredths [10, 9, 10, 24, 23, 24]) rrows) m) ?rel"
    if "adds (extends v) m ?tail" for m
    by (rule adds_then [OF parts that]) (simp, blast)
  have sum: "adds (extends v) (pdf_then (part_tables os cfg ''Summary table'' summary_columns 3
      (table_vertical_scale cfg) (hundredths [8, 8, 9, 6, 17, 17, 17, 18]) srows) m) ?sum"
    if "adds (extends v) m ?rel" for m
    by (rule adds_then [OF parts that]) (simp, blast)
  have join: "main_report_pages final_data summary srows rrows ?raws (add_text_page t ls fs @ qs)"
    if "?sum qs" for t ls fs qs
    using that columns_distinct by (auto simp: main_report_pages_def tables_are_def text_tables)
  show ?thesis
    unfolding main_report_body_def assms(2,3)
    by (rule adds_bind [OF calls(3)], rule adds_then [OF adds_text [OF assms(1)]],
        rule adds_bind [OF rows], simp only:, rule sum, rule adds_bind [OF rows], simp only:,
        rule rel, rule tail) (simp only: join)
qed

text \<open>
  Claim C33. The main report is complete: on a machine whose calls succeed it is written, as the
  last call, with pages whose summary and reliability tables hold the rows of all summary
  lines in order, whose raw tables hold all records exactly when they were asked for, and
  whose compiler sections state the statistics of every line of their compiler.
\<close>

theorem main_report_complete:
  assumes "reporting os" "0 < table_wrap_main cfg"
  shows "\<exists>w' t pages srows rrows.
      generate_main_pdf_report os cfg idle final_data summary results path raw w = (Inr (), w')
    \<and> w_trace w' = w_trace w @ t @ [Save_pdf path pages]
    \<and> build_summary_table_rows cfg summary = Inr srows \<and> length srows = length summary
    \<and> build_reliability_table_rows cfg summary = Inr rrows \<and> length rrows = length summary
    \<and> table_rows summary_columns pages = srows \<and> table_rows reliability_columns pages = rrows
    \<and> table_rows raw_columns pages = (if raw then build_raw_results_rows results else [])
    \<and> (\<forall>item\<in>set summary. si_compiler item \<in> set (fd_compilers final_data) \<longrightarrow> overview_line item \<in> set (page_texts pages))"
proof -
  obtain srows rrows where rows: "build_summary_table_rows cfg summary = Inr srows" "length srows = length summary"
    "build_reliability_table_rows cfg summary = Inr rrows" "length rrows = length summary"
    using summary_rows_total [OF assms(2)] by metis
  from with_pdf_returns [OF assms(1) adds_main_report [OF assms(1) rows(1,3)]] rows show ?thesis
    unfolding generate_main_pdf_report_def main_report_pages_def by metis
qed

definition sample_final :: final_data where
  "sample_final = \<lparr>fd_file_served = ''f'', fd_host = ''127.0.0.1'', fd_ports = sim_ports, fd_cases = [1, 2],
     fd_server_threads = [1], fd_repetitions = 2, fd_compilers = [''gcc''], fd_build_dirs = [],
     fd_idle_baseline_json = ''i.json'', fd_idle_power_w = PFlt 1, fd_results = []\<rparr>"

lemma steady_reporting: "reporting steady_os"
  by (simp add: reporting_def steady_os_def)

theorem main_report_complete_witness:
  "\<exists>w' t pages. generate_main_pdf_report steady_os (asio_config ''/r'') (PFlt 1) sample_final [] [sample_result (''gcc'', 1, 2, 0)] ''a.pdf'' True
      steady_world = (Inr (), w')
    \<and> w_trace w' = t @ [Save_pdf ''a.pdf'' pages] \<and> length (table_rows raw_columns pages) = 1"
proof -
  have "0 < table_wrap_main (asio_config ''/r'')" by (simp add: asio_config_def run_bench_config_def)
  from main_report_complete [OF steady_reporting this, of "PFlt 1" sample_final "[]" "[sample_result (''gcc'', 1, 2, 0)]" "''a.pdf''" True steady_world]
  obtain w' t pages where r: "generate_main_pdf_report steady_os (asio_config ''/r'') (PFlt 1) sample_final [] [sample_result (''gcc'', 1, 2, 0)] ''a.pdf'' True
      steady_world = (Inr (), w')" "w_trace w' = w_trace steady_world @ t @ [Save_pdf ''a.pdf'' pages]"
    "table_rows raw_columns pages = build_raw_results_rows [sample_result (''gcc'', 1, 2, 0)]"
    by auto
  from r(3) have "length (table_rows raw_columns pages) = 1" by (simp add: build_raw_results_rows_def)
  moreover from r(2) have "w_trace w' = (w_trace steady_world @ t) @ [Save_pdf ''a.pdf'' pages]" by simp
  ultimately show ?thesis using r(1) by blast
qed

section \<open>The comparison report is complete\<close>

lemma comparison_rows_total:
  assumes "0 < table_wrap_comparison cfg"
  shows "\<exists>rows. build_comparison_table_rows cfg summary st = Inr rows"
proof -
  have cell: "\<exists>r. comparison_cell cfg row m unit = Inr r" for row m unit
    using comparison_cell_total [OF assms] by blast
  have "\<exists>rows. build_comparison_table_rows cfg summary st = Inr rows
      \<and> list_all2 (\<lambda>_ _. True) (macro_bench_cases cfg) rows"
    unfolding build_comparison_table_rows_def Let_def
    by (rule res_map_shape, unfold simp_thms, rule row_of_total) (simp add: cell)
  then show ?thesis by blast
qed

lemma adds_threads_section:
  assumes "reporting os" "0 < table_wrap_comparison cfg"
  shows "adds (extends v) (threads_section os cfg summary st)
    (\<lambda>qs. \<exists>rows. build_comparison_table_rows cfg summary st = Inr rows \<and> tables_are comparison_columns rows qs)"
proof -
  note calls = reporting_calls [OF assms(1)]
  obtain rows where rows: "build_comparison_table_rows cfg summary st = Inr rows"
    using comparison_rows_total [OF assms(2)] by blast
  have get: "returns (extends v) (io_of (Inr rows)) (\<lambda>y. y = rows)" by (rule returns_of) simp_all
  let ?image = "\<lambda>(stem, title). pdf_image_if_exists os
      (path_join (plots_dir cfg) (stem @ ''_threads_'' @ show_int st @ ''.png''))
      (title @ '': GCC vs Clang with '' @ show_int st @ '' server thread(s)'')"
  have table: "adds (extends v) (add_table_page os cfg t comparison_columns rows fs sc ws) (tables_are comparison_columns rows)"
    for t fs sc ws
    unfolding add_table_page_def
    by (rule adds_page [OF calls(1)]) (simp add: tables_are_def table_page_def)
  have images: "adds (extends v) (pdf_for comparison_images ?image) (\<lambda>qs. \<forall>columns. table_rows columns qs = [])"
    by (rule adds_no_tables) (auto intro: adds_image [OF assms(1)])
  show ?thesis
    unfolding threads_section_def rows
    by (rule adds_bind [OF get], simp only:, rule adds_then [OF table images]) (simp add: tables_are_def)
qed

lemma adds_threads:
  assumes "reporting os" "0 < table_wrap_comparison cfg"
  shows "adds (extends v) (pdf_for sts (threads_section os cfg summary))
    (\<lambda>qs. \<exists>rowss. list_all2 (\<lambda>st rows. build_comparison_table_rows cfg summary st = Inr rows) sts rowss
       \<and> tables_are comparison_columns (concat rowss) qs)"
proof (rule adds_weaken [OF adds_for [OF adds_threads_section [OF assms]]])
  let ?Q = "\<lambda>st qs. \<exists>rows. build_comparison_table_rows cfg summary st = Inr rows \<and> tables_are comparison_columns rows qs"
  fix qs assume "\<exists>qss. qs = concat qss \<and> list_all2 ?Q sts qss"
  then obtain qss where qss: "list_all2 ?Q sts qss" "qs = concat qss" by blast
  have "\<exists>rowss. list_all2 (\<lambda>st rows. build_comparison_table_rows cfg summary st = Inr rows) sts rowss
       \<and> tables_are comparison_columns (concat rowss) (concat qss)"
    using qss(1)
  proof (induction rule: list_all2_induct)
    case Nil
    show ?case by (rule exI [of _ "[]"]) (simp add: tables_are_def)
  next
    case (Cons st sts q qs)
    then obtain rows rowss where "build_comparison_table_rows cfg summary st = Inr rows"
      "tables_are comparison_columns rows q"
      "list_all2 (\<lambda>st rows. build_comparison_table_rows cfg summary st = Inr rows) sts rowss"
      "tables_are comparison_columns (concat rowss) (concat qs)" by blast
    then show ?case by (intro exI [of _ "rows # rowss"]) (simp add: tables_are_def)
  qed
  with qss(2) show "\<exists>rowss. list_all2 (\<lambda>st rows. build_comparison_table_rows cfg summary st = Inr rows) sts rowss
       \<and> tables_are comparison_columns (concat rowss) qs" by simp
qed

definition comparison_report_pages :: "bench_config \<Rightarrow> summary_item list \<Rightarrow> string list list \<Rightarrow> page list \<Rightarrow> bool" where
  "comparison_report_pages cfg summary raws pages \<longleftrightarrow>
     (\<exists>rowss. list_all2 (\<lambda>st rows. build_comparison_table_rows cfg summary st = Inr rows) (server_thread_counts cfg) rowss
       \<and> table_rows comparison_columns pages = concat rowss) \<and> table_rows comparison_raw_columns pages = raws"

lemma adds_comparison_report:
  assumes "reporting os" "0 < table_wrap_comparison cfg"
  shows "adds (extends v) (comparison_report_body os cfg final_data summary results raw)
    (comparison_report_pages cfg summary (if raw then map comparison_raw_row results else []))"
proof -
  let ?raws = "if raw then map comparison_raw_row results else []"
  let ?T = "\<lambda>qs. \<exists>rowss. list_all2 (\<lambda>st rows. build_comparison_table_rows cfg summary st = Inr rows)
        (server_thread_counts cfg) rowss \<and> tables_are comparison_columns (concat rowss) qs"
  let ?tail = "\<lambda>qs. \<exists>us vs. qs = us @ vs \<and> ?T us \<and> tables_are comparison_raw_columns ?raws vs"
  have tail: "adds (extends v) (pdf_then (pdf_for (server_thread_counts cfg) (threads_section os cfg summary))
      (if raw then part_tables os cfg ''Comparison raw results'' comparison_raw_columns 18
          (table_raw_vertical_scale cfg) (hundredths [10, 9, 10, 6, 13, 13, 14])
          (map comparison_raw_row results) else pdf_return)) ?tail"
    by (rule adds_then [OF adds_threads [OF assms] adds_raw [OF assms(1)]]) (simp, blast)
  have join: "comparison_report_pages cfg summary ?raws (add_text_page t ls fs @ qs)" if "?tail qs" for t ls fs qs
    using that columns_distinct by (auto simp: comparison_report_pages_def tables_are_def text_tables)
  show "adds (extends v) (comparison_report_body os cfg final_data summary results raw) (comparison_report_pages cfg summary ?raws)"
    unfolding comparison_report_body_def
    by (rule adds_bind [OF reporting_calls(3) [OF assms(1)]], rule adds_then [OF adds_text [OF assms(1)] tail])
      (simp only: join)
qed

text \<open>
  Claim C34. The comparison report is complete: it is written with the comparison table of every
  configured thread count, in order, and with the rows of all records exactly when they were
  asked for.
\<close>

theorem comparison_report_complete:
  assumes "reporting os" "0 < table_wrap_comparison cfg"
  shows "\<exists>w' t pages rowss.
      generate_comparison_pdf_report os cfg final_data summary results path raw w = (Inr (), w')
    \<and> w_trace w' = w_trace w @ t @ [Save_pdf path pages]
    \<and> list_all2 (\<lambda>st rows. build_comparison_table_rows cfg summary st = Inr rows) (server_thread_counts cfg) rowss
    \<and> table_rows comparison_columns pages = concat rowss
    \<and> table_rows comparison_raw_columns pages = (if raw then map comparison_raw_row results else [])"
proof -
  from with_pdf_returns [OF assms(1) adds_comparison_report [OF assms]] show ?thesis
    unfolding generate_comparison_pdf_report_def comparison_report_pages_def by metis
qed

theorem comparison_report_complete_witness:
  "\<exists>w'. generate_comparison_pdf_report steady_os (asio_config ''/r'') sample_final [] [] ''c.pdf'' False steady_world = (Inr (), w')"
proof -
  have "0 < table_wrap_comparison (asio_config ''/r'')" by (simp add: asio_config_def run_bench_config_def)
  from comparison_report_complete [OF steady_reporting this] show ?thesis by blast
qed

end
