(* ===== verification/Program.thy ===== *)
theory Program
  imports Plots Reports
begin

text \<open>
  \<open>main\<close> of \<open>scripts/run_bench.py\<close>: all campaigns one after the other, then the stored
  results, the plots, the reports and the console summary; and the six copies of the script.
\<close>

section \<open>main\<close>

definition names_json :: "string list \<Rightarrow> pyval" where
  "names_json xs = VList (map VStr xs)"

definition ints_json :: "int list \<Rightarrow> pyval" where
  "ints_json xs = VList (map (\<lambda>i. VNum (PInt i)) xs)"

text \<open>The fields that the raw and the summary file share, with the one that differs at the end.\<close>

definition run_json :: "final_data \<Rightarrow> string \<Rightarrow> pyval list \<Rightarrow> pyval" where
  "run_json d field items = VDict
     [(''file_served'', VStr (fd_file_served d)), (''host'', VStr (fd_host d)),
      (''ports'', VDict (map (\<lambda>(k, p). (k, VNum (PInt p))) (fd_ports d))),
      (''cases'', ints_json (fd_cases d)), (''server_threads'', ints_json (fd_server_threads d)),
      (''repetitions'', VNum (PInt (fd_repetitions d))), (''compilers'', names_json (fd_compilers d)),
      (''build_dirs'', VDict (map (\<lambda>(k, v). (k, VStr v)) (fd_build_dirs d))),
      (''idle_baseline_json'', VStr (fd_idle_baseline_json d)),
      (''idle_power_w'', VNum (fd_idle_power_w d)), (field, VList items)]"

definition final_of :: "bench_config \<Rightarrow> pynum \<Rightarrow> (string, int) dict \<Rightarrow> bench_result list \<Rightarrow> final_data" where
  "final_of cfg idle_power_w ports all_results =
     \<lparr>fd_file_served = file_to_serve cfg, fd_host = host cfg, fd_ports = ports,
      fd_cases = macro_bench_cases cfg, fd_server_threads = server_thread_counts cfg,
      fd_repetitions = macro_repetitions cfg, fd_compilers = compilers cfg, fd_build_dirs = build_dirs cfg,
      fd_idle_baseline_json = idle_baseline_json cfg, fd_idle_power_w = idle_power_w, fd_results = all_results\<rparr>"

definition get_ports :: "('e, (string, int) dict) io" where
  "get_ports w = (Inr (w_ports w), w)"

type_synonym 'e campaign = "string \<Rightarrow> int \<Rightarrow> ('e, bench_result list) io"

definition all_campaigns :: "bench_config \<Rightarrow> 'e campaign \<Rightarrow> ('e, bench_result list) io" where
  "all_campaigns cfg campaign =
     io_try
       (io_bind (io_map (\<lambda>compiler. io_map (campaign compiler) (server_thread_counts cfg)) (compilers cfg))
          (\<lambda>rsss. io_return (concat (concat rsss))))
       (\<lambda>e. if e = KeyboardInterrupt then io_then (log_msg cfg ''Interrupted by user.'') (io_raise e)
            else io_raise e)"

definition write_reports ::
    "'e os \<Rightarrow> bench_config \<Rightarrow> pynum \<Rightarrow> final_data \<Rightarrow> summary_item list \<Rightarrow> bench_result list \<Rightarrow> ('e, unit) io" where
  "write_reports os cfg idle_power_w final summary all_results =
     io_then (io_when (generate_plots_on cfg) (generate_plots os cfg all_results summary))
     (io_then (io_when (generate_pdf_on cfg)
        (io_then (generate_main_pdf_report os cfg idle_power_w final summary all_results (main_pdf_with_raw cfg) True)
           (generate_main_pdf_report os cfg idle_power_w final summary all_results (main_pdf_no_raw cfg) False)))
     (io_then (io_when (generate_comparison_pdf_on cfg)
        (io_then (generate_comparison_pdf_report os cfg final summary all_results (comparison_pdf_with_raw cfg) True)
           (generate_comparison_pdf_report os cfg final summary all_results (comparison_pdf_no_raw cfg) False)))
       (io_when (print_final_summary cfg) (print_console_summary summary))))"

definition final_messages :: "bench_config \<Rightarrow> string list" where
  "final_messages cfg =
     [''Done.'', ''Raw JSON: '' @ final_results cfg, ''Summary JSON: '' @ summary_results cfg,
      ''CSV: '' @ csv_results cfg,
      ''Main PDF report with raw results: '' @ main_pdf_with_raw cfg,
      ''Main PDF report without raw results: '' @ main_pdf_no_raw cfg,
      ''Comparison PDF report with raw results: '' @ comparison_pdf_with_raw cfg,
      ''Comparison PDF report without raw results: '' @ comparison_pdf_no_raw cfg,
      ''Plots directory: '' @ plots_dir cfg, ''Logs directory: '' @ logs_dir cfg]"

definition publish :: "'e os \<Rightarrow> bench_config \<Rightarrow> pynum \<Rightarrow> bench_result list \<Rightarrow> ('e, unit) io" where
  "publish os cfg idle_power_w all_results =
     io_bind get_ports (\<lambda>ports.
     let final = final_of cfg idle_power_w ports all_results in
     io_then (sys_unit os (Dump_json (final_results cfg)
        (run_json final ''results'' (map (\<lambda>r. VDict (result_json r)) all_results))))
     (io_bind (io_of (summarize_results all_results)) (\<lambda>summary.
      io_then (sys_unit os (Dump_json (summary_results cfg)
        (run_json final ''summary'' (map (\<lambda>s. VDict (summary_item_json s)) summary))))
      (io_then (write_csv os cfg all_results)
      (io_then (write_reports os cfg idle_power_w final summary all_results)
        (io_for (final_messages cfg) (log_msg cfg)))))))"

definition main_program :: "'e os \<Rightarrow> bench_config \<Rightarrow> pynum \<Rightarrow> 'e campaign \<Rightarrow> ('e, unit) io" where
  "main_program os cfg idle_power_w campaign =
     io_then (ensure_results_dir os cfg)
       (io_bind (all_campaigns cfg campaign) (publish os cfg idle_power_w))"

section \<open>The six scripts\<close>

text \<open>
  Each copy reads the idle power when it is loaded (\<open>IDLE_POWER_W = load_idle_power_w()\<close>) and
  runs its campaigns with its own constants; only \<open>async-berkeley\<close> has its own case runner.
\<close>

definition asio_campaign :: "nat \<Rightarrow> 'e os \<Rightarrow> string \<Rightarrow> pynum \<Rightarrow> 'e campaign" where
  "asio_campaign fuel os root_dir idle =
     run_campaign fuel os (asio_config root_dir) (standard_case os (asio_config root_dir) idle)"

definition bsd_sockets_campaign :: "nat \<Rightarrow> 'e os \<Rightarrow> string \<Rightarrow> pynum \<Rightarrow> 'e campaign" where
  "bsd_sockets_campaign fuel os root_dir idle =
     run_campaign fuel os (bsd_sockets_config root_dir) (standard_case os (bsd_sockets_config root_dir) idle)"

definition bsd_sockets_v_campaign :: "nat \<Rightarrow> 'e os \<Rightarrow> string \<Rightarrow> pynum \<Rightarrow> 'e campaign" where
  "bsd_sockets_v_campaign fuel os root_dir idle =
     run_campaign fuel os (bsd_sockets_v_config root_dir) (standard_case os (bsd_sockets_v_config root_dir) idle)"

definition capy_corosio_campaign :: "nat \<Rightarrow> 'e os \<Rightarrow> string \<Rightarrow> pynum \<Rightarrow> 'e campaign" where
  "capy_corosio_campaign fuel os root_dir idle =
     run_campaign fuel os (capy_corosio_config root_dir) (standard_case os (capy_corosio_config root_dir) idle)"

definition taps_asio_campaign :: "nat \<Rightarrow> 'e os \<Rightarrow> string \<Rightarrow> pynum \<Rightarrow> 'e campaign" where
  "taps_asio_campaign fuel os root_dir idle =
     run_campaign fuel os (taps_asio_config root_dir) (standard_case os (taps_asio_config root_dir) idle)"

definition async_berkeley_campaign :: "nat \<Rightarrow> 'e os \<Rightarrow> string \<Rightarrow> pynum \<Rightarrow> 'e campaign" where
  "async_berkeley_campaign fuel os root_dir idle =
     run_campaign fuel os (async_berkeley_config root_dir) (async_case os (async_berkeley_config root_dir) idle)"

definition asio_main :: "nat \<Rightarrow> 'e os \<Rightarrow> string \<Rightarrow> pynum \<Rightarrow> ('e, unit) io" where
  "asio_main fuel os root_dir idle = main_program os (asio_config root_dir) idle (asio_campaign fuel os root_dir idle)"

definition bsd_sockets_main :: "nat \<Rightarrow> 'e os \<Rightarrow> string \<Rightarrow> pynum \<Rightarrow> ('e, unit) io" where
  "bsd_sockets_main fuel os root_dir idle =
     main_program os (bsd_sockets_config root_dir) idle (bsd_sockets_campaign fuel os root_dir idle)"

definition bsd_sockets_v_main :: "nat \<Rightarrow> 'e os \<Rightarrow> string \<Rightarrow> pynum \<Rightarrow> ('e, unit) io" where
  "bsd_sockets_v_main fuel os root_dir idle =
     main_program os (bsd_sockets_v_config root_dir) idle (bsd_sockets_v_campaign fuel os root_dir idle)"

definition capy_corosio_main :: "nat \<Rightarrow> 'e os \<Rightarrow> string \<Rightarrow> pynum \<Rightarrow> ('e, unit) io" where
  "capy_corosio_main fuel os root_dir idle =
     main_program os (capy_corosio_config root_dir) idle (capy_corosio_campaign fuel os root_dir idle)"

definition taps_asio_main :: "nat \<Rightarrow> 'e os \<Rightarrow> string \<Rightarrow> pynum \<Rightarrow> ('e, unit) io" where
  "taps_asio_main fuel os root_dir idle =
     main_program os (taps_asio_config root_dir) idle (taps_asio_campaign fuel os root_dir idle)"

definition async_berkeley_main :: "nat \<Rightarrow> 'e os \<Rightarrow> string \<Rightarrow> pynum \<Rightarrow> ('e, unit) io" where
  "async_berkeley_main fuel os root_dir idle =
     main_program os (async_berkeley_config root_dir) idle (async_berkeley_campaign fuel os root_dir idle)"

definition run_script ::
    "'e os \<Rightarrow> bench_config \<Rightarrow> (pynum \<Rightarrow> ('e, unit) io) \<Rightarrow> ('e, unit) io" where
  "run_script os cfg main = io_bind (load_idle_power_w os cfg) main"

section \<open>An aborted run stores nothing\<close>

definition stores_results :: "call \<Rightarrow> bool" where
  "stores_results c = (case c of Dump_json _ _ \<Rightarrow> True | Write_csv _ _ _ \<Rightarrow> True | Draw _ \<Rightarrow> True
     | Render _ \<Rightarrow> True | Save_pdf _ _ \<Rightarrow> True | _ \<Rightarrow> False)"

definition no_results :: "'e world \<Rightarrow> 'e world \<Rightarrow> bool" where
  "no_results w w' \<longleftrightarrow> (\<exists>t. w_trace w' = w_trace w @ t \<and> (\<forall>c\<in>set t. \<not> stores_results c))"

interpretation nr: frame no_results
proof
  show "no_results w w" for w :: "'e world" by (simp add: no_results_def)
  show "no_results u w" if "no_results u v" "no_results v w" for u v w :: "'e world"
    using that unfolding no_results_def by (metis Un_iff append_assoc set_append)
qed

lemma nr_calls:
  "\<not> stores_results c \<Longrightarrow> keeps no_results (sys_unit os c)"
  "\<not> stores_results c \<Longrightarrow> keeps no_results (sys_bool os c)"
  "\<not> stores_results c \<Longrightarrow> keeps no_results (sys_int os c)"
  "\<not> stores_results c \<Longrightarrow> keeps no_results (sys_str os c)"
  "\<not> stores_results c \<Longrightarrow> keeps no_results (sys_json os c)"
  "keeps no_results (sys_clock os)" "keeps no_results (sys_log m)" "keeps no_results (sys_open os path)"
  "keeps no_results (close_if_open fd)" "keeps no_results (get_port compiler)"
  "keeps no_results (set_port compiler p)"
  by (auto simp: keeps_def no_results_def sys_unit_def sys_bool_def sys_int_def sys_str_def sys_json_def
      sys_clock_def sys_log_def sys_open_def sys_close_def close_if_open_def get_port_def set_port_def
      stores_results_def Let_def split: prod.splits sum.splits option.splits)

lemma nr_log: "keeps no_results (log_msg cfg m)"
  unfolding log_msg_def by (intro nr.keeps_when nr_calls)

lemmas nr_rules = nr.keeps_rules nr_calls nr_log

lemma nr_ports:
  "keeps no_results (can_bind_port os h p)" "keeps no_results (is_port_open os h p)"
  "keeps no_results (kill_processes_on_port os cfg p)"
  by (auto simp: can_bind_port_def is_port_open_def kill_processes_on_port_def kill_by_pid_def
      run_optional_command_def Let_def stores_results_def intro!: nr_rules)

lemma nr_first_bindable: "keeps no_results (first_bindable os h e ps)"
  by (induction ps) (auto intro!: nr_rules nr_ports)

lemma nr_server:
  "keeps no_results (start_server os cfg c st)" "keeps no_results (stop_process os t pid)"
  "keeps no_results (server_failure os cfg c st p m)"
  by (auto simp: start_server_def prepare_server_port_def find_free_port_def stop_process_def
      signal_group_def server_failure_def read_text_file_def stores_results_def
      intro!: nr_rules nr_ports nr_first_bindable split: prod.splits)

lemma nr_stop_server: "keeps no_results (stop_server os cfg proc so se port)"
  by (auto simp: stop_server_def stores_results_def intro!: nr_rules nr_ports nr_server split: option.splits)

lemma nr_wait_loop: "keeps no_results (wait_loop n os cfg proc h p c st tm start)"
  by (induction n) (auto simp: stores_results_def intro!: nr_rules nr_ports nr_server)

lemma nr_wait: "keeps no_results (wait_for_server n os cfg proc h p c st)"
  unfolding wait_for_server_def by (intro nr_rules nr_wait_loop)

lemma nr_start_bench: "keeps no_results (start_bench_instance os cfg c st n rep i port)"
  by (auto simp: start_bench_instance_def Let_def stores_results_def intro!: nr_rules)

lemma nr_stop_bench: "keeps no_results (stop_bench_process os pid)"
  unfolding stop_bench_process_def by (intro nr_rules nr_server)

lemma nr_run_instances:
  "keeps no_results (run_instances os (\<lambda>i. start_bench_instance os cfg c st n rep i port) num)"
  unfolding run_instances_def stop_and_close_def
  by (auto split: prod.splits option.splits simp: stores_results_def
      intro!: nr_rules nr_stop_bench nr_start_bench nr.keeps_start_instances)

lemma nr_measured_run: "keeps no_results (measured_run os cfg c st n rep port)"
  unfolding measured_run_def read_energy_def read_max_energy_def energy_delta_j_def read_int_file_def
  by (auto simp: stores_results_def intro!: nr_rules nr_run_instances)

lemma nr_tally: "keeps no_results (tally_outputs os paths t)" "keeps no_results (tally_async os paths u)"
  by (induction paths arbitrary: t u)
    (auto simp: parse_benchmark_json_def parse_benchmark_json_async_def stores_results_def
      intro!: nr_rules split: prod.splits)

lemma nr_cases:
  "keeps no_results (standard_case os cfg idle c st n rep bytes port)"
  "keeps no_results (async_case os cfg idle c st n rep bytes port)"
  unfolding standard_case_def async_case_def run_macro_bench_case_def run_macro_bench_case_async_def Let_def
  by (auto intro!: nr_rules nr_measured_run nr_tally split: prod.splits)

lemma nr_run_cases:
  assumes "\<And>n rep. keeps no_results (rc c st n rep bytes port)"
  shows "keeps no_results (run_cases os cfg rc c st bytes port)"
  unfolding run_cases_def run_case_series_def run_repetition_def case_level_cache_trash_def
    settle_between_cases_def
  by (auto simp: stores_results_def intro!: nr_rules assms)

lemma nr_campaign:
  assumes "rc = standard_case os cfg idle \<or> rc = async_case os cfg idle"
  shows "keeps no_results (run_campaign fuel os cfg rc c st)"
proof -
  have "keeps no_results (run_cases os cfg rc c st bytes port)" for bytes port
    by (rule nr_run_cases) (use assms nr_cases in auto)
  then show ?thesis
    unfolding run_campaign_def get_file_size_def
    by (auto simp: stores_results_def intro!: nr_rules nr_server nr_wait nr_stop_server split: prod.splits)
qed

text \<open>A loop that collects results fails with the first element that fails.\<close>

lemma io_map_fails:
  "io_map f xs w = (Inr ys, w1) \<Longrightarrow> f x w1 = (Inl e, w2) \<Longrightarrow> io_map f (xs @ x # zs) w = (Inl e, w2)"
  by (induction xs arbitrary: w ys) (auto simp: io_bind_def io_return_def split: prod.splits sum.splits)

lemma campaigns_fail:
  assumes "compilers cfg = cs @ c # cs'" "server_thread_counts cfg = ts @ st # ts'"
    and "io_map (\<lambda>c. io_map (campaign c) (server_thread_counts cfg)) cs w = (Inr done1, w1)"
    and "io_map (campaign c) ts w1 = (Inr done2, w2)"
    and "campaign c st w2 = (Inl e, w3)"
  shows "all_campaigns cfg campaign w =
    (Inl e, if e = KeyboardInterrupt then snd (log_msg cfg ''Interrupted by user.'' w3) else w3)"
proof -
  have "io_map (campaign c) (server_thread_counts cfg) w1 = (Inl e, w3)"
    using io_map_fails [OF assms(4,5)] assms(2) by simp
  from io_map_fails [where f = "\<lambda>c. io_map (campaign c) (server_thread_counts cfg)", OF assms(3) this]
  have "io_map (\<lambda>c. io_map (campaign c) (server_thread_counts cfg)) (compilers cfg) w = (Inl e, w3)"
    using assms(1) by simp
  then show ?thesis
    by (simp add: all_campaigns_def io_try_def io_bind_def io_then_def io_raise_def log_msg_def io_when_def
        io_return_def sys_log_def split: prod.splits)
qed

text \<open>
  Claim C32. Nothing is stored when a campaign fails: whichever campaign of the loop over
  compilers and thread counts is the first to raise (its exception, or the user's interrupt),
  \<open>main\<close> ends with the same exception at that point, an interrupt after the message
  that reports it, and has written neither results nor summary, table, plot or report, in
  all six scripts.
\<close>

theorem aborted_run_stores_nothing:
  assumes "rc = standard_case os cfg idle \<or> rc = async_case os cfg idle"
    and "ensure_results_dir os cfg w = (Inr (), w1)"
    and "compilers cfg = cs @ c # cs'" "server_thread_counts cfg = ts @ st # ts'"
    and "io_map (\<lambda>c. io_map (run_campaign fuel os cfg rc c) (server_thread_counts cfg)) cs w1 = (Inr done1, w2)"
    and "io_map (run_campaign fuel os cfg rc c) ts w2 = (Inr done2, w3)"
    and "run_campaign fuel os cfg rc c st w3 = (Inl e, w4)"
  shows "\<exists>w'. main_program os cfg idle (run_campaign fuel os cfg rc) w = (Inl e, w')
    \<and> w' = (if e = KeyboardInterrupt then snd (log_msg cfg ''Interrupted by user.'' w4) else w4)
    \<and> (\<exists>t. w_trace w' = w_trace w @ t \<and> (\<forall>c\<in>set t. \<not> stores_results c))"
proof (intro exI conjI)
  let ?w' = "if e = KeyboardInterrupt then snd (log_msg cfg ''Interrupted by user.'' w4) else w4"
  have before: "io_then (ensure_results_dir os cfg) (all_campaigns cfg (run_campaign fuel os cfg rc)) w = (Inl e, ?w')"
    using campaigns_fail [OF assms(3-7)] assms(2) by (simp add: io_then_def io_bind_def)
  then show "main_program os cfg idle (run_campaign fuel os cfg rc) w = (Inl e, ?w')"
    by (auto simp: main_program_def io_then_def io_bind_def split: prod.splits sum.splits)
  have "keeps no_results (io_then (ensure_results_dir os cfg) (all_campaigns cfg (run_campaign fuel os cfg rc)))"
    unfolding all_campaigns_def ensure_results_dir_def
    by (auto simp: stores_results_def intro!: nr_rules nr_campaign [OF assms(1)])
  from keepsD [OF this before]
  show "w_trace ?w' = w_trace w @ drop (length (w_trace w)) (w_trace ?w')"
    "\<forall>c\<in>set (drop (length (w_trace w)) (w_trace ?w')). \<not> stores_results c"
    by (auto simp: no_results_def)
qed (rule refl)

text \<open>A machine whose user interrupts the first pause.\<close>

definition tired_os :: "unit os" where
  "tired_os = steady_os\<lparr>os_unit := (\<lambda>q e. (case q of Sleep _ \<Rightarrow> Inl KeyboardInterrupt | _ \<Rightarrow> Inr (), e))\<rparr>"

lemma tired_calls:
  "\<not> (\<exists>d. c = Sleep d) \<Longrightarrow> sys_unit tired_os c w = (Inr (), logged c () w)"
  "sys_unit tired_os (Sleep d) w = (Inl KeyboardInterrupt, logged (Sleep d) () w)"
  "sys_int tired_os c w = (Inr 100, logged c () w)"
  "sys_str tired_os (Run cmd) w = (Inr [], logged (Run cmd) () w)"
  by (auto simp: sys_unit_def sys_int_def sys_str_def tired_os_def steady_os_def split: call.splits)

lemma tired_start:
  assumes "w_ports w = sim_ports"
  shows "\<exists>w'. start_server tired_os (asio_config r) ''gcc'' st w = (Inl KeyboardInterrupt, w')"
proof -
  have "get_server_bin (asio_config r) ''gcc'' = Inr ''./build-gcc/tcpserver/tcpserver''"
    by (simp add: get_server_bin_def get_build_dir_def asio_config_def run_bench_config_def path_join_def)
  moreover have "get_port ''gcc'' w = (Inr 8120, w)" using assms by (simp add: get_port_def sim_ports_def)
  ultimately show ?thesis
    by (simp add: start_server_def prepare_server_port_def kill_processes_on_port_def run_optional_command_def
        io_defs tired_calls)
qed

lemma asio_talks: "\<not> quiet (asio_config r)"
  by (simp add: asio_config_def run_bench_config_def)

lemma tired_campaign:
  assumes "w_ports w = sim_ports"
  shows "\<exists>w'. run_campaign fuel tired_os (asio_config r) rc ''gcc'' st w = (Inl KeyboardInterrupt, w')"
proof -
  let ?m = "''Starting server for '' @ ''gcc'' @ '' on port '' @ show_int 8120 @ '' with '' @ show_int st @ '' threads...''"
  let ?w = "logged (Log ?m) () (logged (Get_size (file_to_serve (asio_config r))) () w)"
  have "get_port ''gcc'' (logged c e w) = (Inr 8120, logged c e w)" for c e using assms by (simp add: get_port_def sim_ports_def)
  then show ?thesis
    using asio_talks tired_start [of ?w r st] assms
    by (auto simp: run_campaign_def get_file_size_def log_msg_def sys_log_def io_defs tired_calls)
qed

theorem aborted_run_stores_nothing_witness:
  "\<exists>w' t. asio_main 601 tired_os ''/r'' (PFlt 1) steady_world = (Inl KeyboardInterrupt, w')
    \<and> w_trace w' = w_trace steady_world @ t \<and> (\<forall>c\<in>set t. \<not> stores_results c)
    \<and> last (w_trace w') = Log ''Interrupted by user.''"
proof -
  let ?cfg = "asio_config ''/r''" let ?rc = "standard_case tired_os ?cfg (PFlt 1)"
  obtain w1 where w1: "ensure_results_dir tired_os ?cfg steady_world = (Inr (), w1)" "w_ports w1 = sim_ports"
    by (auto simp: ensure_results_dir_def io_defs tired_calls steady_world_def)
  obtain w2 where w2: "run_campaign 601 tired_os ?cfg ?rc ''gcc'' 1 w1 = (Inl KeyboardInterrupt, w2)"
    using tired_campaign [OF w1(2)] by blast
  have lists: "compilers ?cfg = [] @ ''gcc'' # tl (compilers ?cfg)"
    "server_thread_counts ?cfg = [] @ 1 # tl (server_thread_counts ?cfg)"
    by (simp_all add: asio_config_def run_bench_config_def)
  have none: "io_map f [] w = (Inr [], w)" for f :: "'x \<Rightarrow> (unit, 'y) io" and w
    by (simp add: io_return_def)
  obtain w' where w': "main_program tired_os ?cfg (PFlt 1) (run_campaign 601 tired_os ?cfg ?rc) steady_world
      = (Inl KeyboardInterrupt, w')" "w' = snd (log_msg ?cfg ''Interrupted by user.'' w2)"
    "\<exists>t. w_trace w' = w_trace steady_world @ t \<and> (\<forall>c\<in>set t. \<not> stores_results c)"
    using aborted_run_stores_nothing [OF disjI1 [OF refl] w1(1) lists none none w2] by auto
  have "last (w_trace w') = Log ''Interrupted by user.''"
    using w'(2) asio_talks by (simp add: log_msg_def io_when_def sys_log_def)
  with w'(1,3) show ?thesis by (auto simp: asio_main_def asio_campaign_def)
qed

end
