(* ===== verification/Complete_Run.thy ===== *)
theory Complete_Run
  imports Program
begin

text \<open>
  A whole benchmark run on a machine where nothing goes wrong: \<open>main\<close> returns, has a record of
  every combination of compiler, threads, clients and repetition, and stores the records, the
  summary and the table in this order.
\<close>

section \<open>Every stage returns\<close>

lemma compute_stats_total: "int (length xs) \<le> 2 ^ 53 \<Longrightarrow> \<exists>s. compute_stats xs = Inr s"
proof (cases "xs = []")
  case False
  assume n: "int (length xs) \<le> 2 ^ 53"
  obtain y ys where xs: "xs = y # ys" using False by (cases xs) auto
  have srt: "sort_key num_val xs \<noteq> []" "int (length (sort_key num_val xs)) \<le> 2 ^ 53" using False n by simp_all
  obtain a b c where p: "percentile (sort_key num_val xs) (PInt 25) = Inr a"
    "percentile (sort_key num_val xs) (PInt 50) = Inr b" "percentile (sort_key num_val xs) (PInt 95) = Inr c"
    using percentile_total [OF _ _ srt, of 25] percentile_total [OF _ _ srt, of 50] percentile_total [OF _ _ srt, of 95]
    by auto
  obtain m where m: "stat_mean xs = Inr m" using False unfolding stat_mean_def Let_def by (metis (full_types))
  have "\<exists>q. num_div u (PInt 2) = Inr q" for u by (rule num_div_total) simp
  then obtain md where md: "stat_median xs = Inr md"
    using False unfolding stat_median_def Let_def by (cases "odd (length xs)") (auto simp: xs)
  obtain sd where sd: "(if 1 < length xs then stat_stdev xs else Inr (PFlt 0)) = Inr sd"
    by (cases "1 < length xs") (auto simp: stat_stdev_def)
  obtain mn mx where mm: "py_min num_val xs = Inr mn" "py_max num_val xs = Inr mx"
    by (simp add: py_min_def py_max_def xs)
  show ?thesis
    unfolding compute_stats_def Let_def m md sd mm p res_bind_Inr using False by simp
qed (simp add: compute_stats_def)

lemma summarize_group_any:
  assumes "int (length items) \<le> 2 ^ 53"
  shows "\<exists>s. summarize_group (k, items) = Inr s"
proof -
  have "\<exists>s. compute_stats (map f items) = Inr s" for f
    by (rule compute_stats_total) (simp only: length_map assms)
  then obtain S where "\<And>f. compute_stats (map f items) = Inr (S f)" by metis
  then show ?thesis by (cases k) (simp add: summarize_group_def)
qed

lemma summarize_results_any:
  assumes "int (length results) \<le> 2 ^ 53"
  shows "\<exists>items. summarize_results results = Inr items"
proof -
  have "\<exists>s. summarize_group g = Inr s" if "g \<in> set (group_by case_key results)" for g
  proof -
    have "snd g = filter (\<lambda>r. case_key r = fst g) results"
      using that py_group.grp_mem_iff [of "fst g" "snd g" case_key results] by simp
    then have "length (snd g) \<le> length results" by simp
    with assms have "int (length (snd g)) \<le> 2 ^ 53" by linarith
    from summarize_group_any [OF this, of "fst g"] show ?thesis by simp
  qed
  then obtain S where "\<And>g. g \<in> set (group_by case_key results) \<Longrightarrow> summarize_group g = Inr (S g)" by metis
  then have "summarize_results results = Inr (map S (sort_key fst (group_by case_key results)))"
    unfolding summarize_results_def by (intro res_map_total) simp
  then show ?thesis ..
qed

lemma summary_has_stats:
  assumes "summarize_results results = Inr items" "s \<in> set items"
  shows "si_elapsed_ms_stats s \<noteq> None" "si_energy_j_raw_stats s \<noteq> None" "si_energy_j_stats s \<noteq> None"
    "si_throughput_mib_s_stats s \<noteq> None"
proof -
  let ?ys = "filter (\<lambda>r. case_key r = item_key s) results"
  note lines = summarize_results_lines [OF assms(1)]
  have "item_key s \<in> case_key ` set results" using lines(2) assms(2) by auto
  then have ys: "?ys \<noteq> []" by (auto simp: filter_empty_conv)
  have raw: "metric_pair br_energy_j_raw si_energy_j_raw_stats"
    by (auto simp: metric_pair_def summarize_group_def res_bind_eq_Inr split: prod.splits)
  have some: "g s \<noteq> None" if "metric_pair f g" for f g
  proof
    assume "g s = None"
    with that lines(3) [OF assms(2)] have "compute_stats (map f ?ys) = Inr None"
      unfolding metric_pair_def by metis
    with ys compute_stats_None show False by fastforce
  qed
  show "si_elapsed_ms_stats s \<noteq> None" "si_energy_j_raw_stats s \<noteq> None" "si_energy_j_stats s \<noteq> None"
    "si_throughput_mib_s_stats s \<noteq> None"
    using some plotted_pairs raw by blast+
qed

lemma returns_io: 
  assumes "reporting os"
  shows "returns (extends v) (log_msg cfg m) (\<lambda>_. True)" "returns (extends v) (sys_log m) (\<lambda>_. True)"
proof -
  show log: "returns (extends v) (sys_log m) (\<lambda>_. True)" for m
    by (auto simp: returns_def extends_def sys_log_def)
  show "returns (extends v) (log_msg cfg m) (\<lambda>_. True)"
    unfolding log_msg_def by (intro returns_when log)
qed

lemma returns_plots:
  assumes "reporting os"
  shows "returns (extends v) (generate_plots os cfg results summary) (\<lambda>_. True)"
proof -
  note calls = reporting_calls [OF assms]
  have mean: "\<exists>ps. mean_points cfg f rows = Inr ps" for f rows
  proof -
    let ?F = "\<lambda>n. res_bind (stat_mean (selected_runs f rows n)) (\<lambda>m. Inr (n, m))"
    let ?ns = "filter (\<lambda>n. selected_runs f rows n \<noteq> []) (macro_bench_cases cfg)"
    have "\<exists>y. ?F n = Inr y \<and> True" if "n \<in> set ?ns" for n
      using that by (auto simp: stat_mean_def Let_def)
    then have "\<exists>ys. res_map ?F ?ns = Inr ys \<and> list_all2 (\<lambda>_ _. True) ?ns ys" by (rule res_map_shape)
    then show ?thesis unfolding mean_points_def by blast
  qed
  have "\<exists>ds. scatter_series cfg results c f st = Inr ds \<and> True" for c f st
    using mean [of f "plotted_rows results c st"] by (auto simp: scatter_series_def Let_def)
  then have dss: "\<exists>dss. res_map (scatter_series cfg results c f) sts = Inr dss" for c f sts
    using res_map_shape [of sts "scatter_series cfg results c f" "\<lambda>_ _. True"] by blast
  have io: "returns (extends v) (io_of r) (\<lambda>_. True)" if "\<exists>x. r = Inr x" for r :: "draw list list py"
    using that by (auto intro: returns_of)
  have "returns (extends v) (make_per_run_scatter_with_mean os cfg results c f label name) (\<lambda>_. True)"
    for c f label name
    unfolding make_per_run_scatter_with_mean_def
    by (rule returns_bind [OF io [OF dss]]) (rule calls)
  moreover have "returns (extends v) (make_compiler_comparison_plot os cfg summary st g label name) (\<lambda>_. True)"
    for st g label name
    unfolding make_compiler_comparison_plot_def by (rule calls)
  ultimately show ?thesis
    unfolding generate_plots_def by (intro returns_then returns_for) (auto split: prod.splits)
qed

lemma returns_console:
  assumes "reporting os" "summarize_results results = Inr items"
  shows "returns (extends v) (print_console_summary items) (\<lambda>_. True)"
proof -
  note log = returns_io [OF assms(1)]
  have "returns (extends v) (io_bind (io_of (console_stats label st)) sys_log) (\<lambda>_. True)" if "st \<noteq> None" for label st
    using that by (auto simp: console_stats_def intro!: returns_bind returns_of log)
  then show ?thesis
    unfolding print_console_summary_def
    by (intro returns_then returns_for log) (use summary_has_stats [OF assms(2)] in auto)
qed

lemma returns_pdf:
  assumes "reporting os" "\<And>w. adds (extends w) body Q"
  shows "returns (extends v) (with_pdf os path body) (\<lambda>_. True)"
  unfolding returns_def
proof (intro allI impI)
  fix w assume "extends v w"
  obtain w' t pages where "with_pdf os path body w = (Inr (), w')" "w_trace w' = w_trace w @ t @ [Save_pdf path pages]"
    using with_pdf_returns [OF assms, of path] by blast
  with \<open>extends v w\<close> show "\<exists>x w'. with_pdf os path body w = (Inr x, w') \<and> True \<and> extends v w'"
    by (auto simp: extends_def)
qed

lemma returns_write_reports:
  assumes "reporting os" "summarize_results results = Inr items"
    and "0 < table_wrap_main cfg" "0 < table_wrap_comparison cfg"
  shows "returns (extends v) (write_reports os cfg idle final items results) (\<lambda>_. True)"
proof -
  obtain srows rrows where rows: "build_summary_table_rows cfg items = Inr srows"
    "build_reliability_table_rows cfg items = Inr rrows"
    using summary_rows_total [OF assms(3)] by metis
  have main: "returns (extends v) (generate_main_pdf_report os cfg idle final items results path raw) (\<lambda>_. True)"
    for path raw
    unfolding generate_main_pdf_report_def
    by (rule returns_pdf [OF assms(1) adds_main_report [OF assms(1) rows]])
  have comparison: "returns (extends v) (generate_comparison_pdf_report os cfg final items results path raw) (\<lambda>_. True)"
    for path raw
    unfolding generate_comparison_pdf_report_def
    by (rule returns_pdf [OF assms(1) adds_comparison_report [OF assms(1,4)]])
  show ?thesis
    unfolding write_reports_def
    by (intro returns_then returns_when main comparison returns_plots [OF assms(1)] returns_console [OF assms(1,2)])
qed

definition stored_calls :: "bench_config \<Rightarrow> final_data \<Rightarrow> summary_item list \<Rightarrow> bench_result list \<Rightarrow> call list" where
  "stored_calls cfg final items results =
     [Dump_json (final_results cfg) (run_json final ''results'' (map (\<lambda>r. VDict (result_json r)) results)),
      Dump_json (summary_results cfg) (run_json final ''summary'' (map (\<lambda>s. VDict (summary_item_json s)) items)),
      Write_csv (csv_results cfg) csv_fieldnames (map (\<lambda>r. csv_row (result_json r)) results)]"

lemma reporting_unit: "reporting os \<Longrightarrow> \<exists>e. sys_unit os q w = (Inr (), logged q e w)"
  by (cases "os_unit os q (w_env w)") (auto simp: reporting_def sys_unit_def dest!: spec [of _ q] spec [of _ "w_env w"])

lemma publish_returns:
  assumes "reporting os" "summarize_results results = Inr items"
    and "0 < table_wrap_main cfg" "0 < table_wrap_comparison cfg"
  shows "\<exists>w' t. publish os cfg idle results w = (Inr (), w')
    \<and> w_trace w' = w_trace w @ stored_calls cfg (final_of cfg idle (w_ports w) results) items results @ t"
proof -
  let ?final = "final_of cfg idle (w_ports w) results"
  let ?d1 = "Dump_json (final_results cfg) (run_json ?final ''results'' (map (\<lambda>r. VDict (result_json r)) results))"
  let ?d2 = "Dump_json (summary_results cfg) (run_json ?final ''summary'' (map (\<lambda>s. VDict (summary_item_json s)) items))"
  let ?d3 = "Write_csv (csv_results cfg) csv_fieldnames (map (\<lambda>r. csv_row (result_json r)) results)"
  obtain e1 where 1: "sys_unit os ?d1 w = (Inr (), logged ?d1 e1 w)" using reporting_unit [OF assms(1)] by blast
  let ?w1 = "logged ?d1 e1 w"
  obtain e2 where 2: "sys_unit os ?d2 ?w1 = (Inr (), logged ?d2 e2 ?w1)" using reporting_unit [OF assms(1)] by blast
  let ?w2 = "logged ?d2 e2 ?w1"
  obtain e3 where 3: "sys_unit os ?d3 ?w2 = (Inr (), logged ?d3 e3 ?w2)" using reporting_unit [OF assms(1)] by blast
  let ?w3 = "logged ?d3 e3 ?w2"
  have "returns (extends ?w3) (io_then (write_reports os cfg idle ?final items results)
      (io_for (final_messages cfg) (log_msg cfg))) (\<lambda>_. True)"
    by (intro returns_then returns_write_reports [OF assms] returns_for returns_io [OF assms(1)])
  from returnsD [OF this tr.frame_refl] obtain u w' where rest: "io_then (write_reports os cfg idle ?final items results)
      (io_for (final_messages cfg) (log_msg cfg)) ?w3 = (Inr u, w')" "extends ?w3 w'" by auto
  have "publish os cfg idle results w = (Inr (), w')"
    using 1 2 3 rest(1) by (simp add: publish_def get_ports_def write_csv_def io_bind_def io_then_def io_of_def assms(2) Let_def)
  then show ?thesis using rest(2) by (auto simp: extends_def stored_calls_def)
qed

section \<open>The campaigns\<close>

lemma returns_map_each:
  assumes "\<And>x. x \<in> set xs \<Longrightarrow> returns P (f x) (Q x)"
  shows "returns P (io_map f xs) (list_all2 Q xs)"
  using assms
proof (induction xs)
  case Nil
  then show ?case by (simp add: returns_return)
next
  case (Cons x xs)
  then show ?case unfolding io_map.simps
    by (intro returns_bind [of P "f x" "Q x"] returns_bind [of P "io_map f xs" "list_all2 Q xs"] returns_return) auto
qed

definition run_labels :: "bench_result list \<Rightarrow> (string \<times> int \<times> int \<times> int) list" where
  "run_labels rs = map (\<lambda>r. (br_compiler r, br_server_threads r, br_parallel_bench_processes r, br_repetition r)) rs"

lemma healthy_campaign_labels:
  fixes os :: "'e os"
  assumes "healthy os cfg c" "dict_get ports c = Some port" "0 < fuel"
  shows "returns (ports_are ports) (run_campaign fuel os cfg (standard_case os cfg idle) c st)
    (\<lambda>rs. run_labels rs = [(c, st, n, rep). n \<leftarrow> macro_bench_cases cfg, rep \<leftarrow> [0..macro_repetitions cfg - 1]])"
  unfolding returns_def
proof (intro allI impI)
  fix w :: "'e world" assume w: "ports_are ports w"
  obtain n where n: "fuel = Suc n" using assms(3) by (cases fuel) auto
  obtain rs w' where rs: "run_campaign fuel os cfg (standard_case os cfg idle) c st w = (Inr rs, w')" "ports_are ports w'"
    using returnsD [OF healthy_campaign [OF assms(1,2)] w] unfolding n by blast
  obtain b p w1 w2 where "run_cases os cfg (standard_case os cfg idle) c st b p w1 = (Inr rs, w2)"
    using run_campaign_cases [OF rs(1)] by blast
  with rs std.run_cases_order show "\<exists>x w'. run_campaign fuel os cfg (standard_case os cfg idle) c st w = (Inr x, w')
      \<and> run_labels x = [(c, st, n, rep). n \<leftarrow> macro_bench_cases cfg, rep \<leftarrow> [0..macro_repetitions cfg - 1]]
      \<and> ports_are ports w'" unfolding run_labels_def by blast
qed

lemma labels_nested:
  "list_all2 (\<lambda>x rs. run_labels rs = F x) xs rss \<Longrightarrow> run_labels (concat rss) = concat (map F xs)"
  by (induction rule: list_all2_induct) (auto simp: run_labels_def)

lemma concat_twice: "concat (concat xsss) = concat (map concat xsss)"
  by (induction xsss) simp_all

lemma returns_campaigns:
  assumes "\<And>c. c \<in> set (compilers cfg) \<Longrightarrow> healthy os cfg c \<and> dict_get ports c \<noteq> None" "0 < fuel"
  shows "returns (ports_are ports) (all_campaigns cfg (run_campaign fuel os cfg (standard_case os cfg idle)))
    (\<lambda>rs. run_labels rs = grid (compilers cfg) (server_thread_counts cfg) (macro_bench_cases cfg) [0..macro_repetitions cfg - 1])"
proof -
  let ?cell = "\<lambda>c st. [(c, st, n, rep). n \<leftarrow> macro_bench_cases cfg, rep \<leftarrow> [0..macro_repetitions cfg - 1]]"
  let ?camp = "run_campaign fuel os cfg (standard_case os cfg idle)"
  have threads: "returns (ports_are ports) (io_map (?camp c) (server_thread_counts cfg))
      (\<lambda>rss. run_labels (concat rss) = concat (map (?cell c) (server_thread_counts cfg)))"
    if "c \<in> set (compilers cfg)" for c
  proof -
    from that have "healthy os cfg c \<and> dict_get ports c \<noteq> None" by (rule assms(1))
    then obtain port where port: "healthy os cfg c" "dict_get ports c = Some port" by auto
    show ?thesis
      by (rule returns_weaken [OF returns_map_each [OF healthy_campaign_labels [OF port assms(2)]]])
        (rule labels_nested)
  qed
  have "returns (ports_are ports) (io_map (\<lambda>c. io_map (?camp c) (server_thread_counts cfg)) (compilers cfg))
      (list_all2 (\<lambda>c rss. run_labels (concat rss) = concat (map (?cell c) (server_thread_counts cfg))) (compilers cfg))"
    by (rule returns_map_each) (rule threads)
  then have "returns (ports_are ports) (io_map (\<lambda>c. io_map (?camp c) (server_thread_counts cfg)) (compilers cfg))
      (\<lambda>rsss. run_labels (concat (map concat rsss))
        = concat (map (\<lambda>c. concat (map (?cell c) (server_thread_counts cfg))) (compilers cfg)))"
    by (rule returns_weaken) (rule labels_nested, simp add: list.rel_map)
  then show ?thesis
    unfolding all_campaigns_def
    by (intro returns_try) (rule returns_bind, assumption, rule returns_return, simp add: grid_def concat_twice)
qed

lemma summary_lines_runs:
  assumes "summarize_results results = Inr items" "s \<in> set items"
  shows "si_runs s = int (length (filter (\<lambda>r. case_key r = item_key s) results))"
proof -
  have "si_runs x = int (length ys)" if "summarize_group (k, ys) = Inr x" for k ys x
    using that by (auto simp: summarize_group_def res_bind_eq_Inr split: prod.splits)
  from this [OF summarize_results_lines(3) [OF assms]] show ?thesis .
qed

definition run_size :: "bench_config \<Rightarrow> int" where
  "run_size cfg = int (length (compilers cfg)) * (int (length (server_thread_counts cfg))
     * (int (length (macro_bench_cases cfg)) * max 0 (macro_repetitions cfg)))"

lemma length_grid: "length (grid cs ts ns reps) = length cs * (length ts * (length ns * length reps))"
  by (simp add: grid_def length_concat comp_def sum_list_triv)

lemma main_completes_trace:
  assumes "\<forall>c\<in>set (compilers cfg). healthy os cfg c \<and> dict_get (w_ports w) c \<noteq> None" "reporting os"
    and "0 < table_wrap_main cfg" "0 < table_wrap_comparison cfg" "run_size cfg \<le> 2 ^ 53" "0 < fuel"
  shows "\<exists>rs items w' t1 t2.
      main_program os cfg idle (run_campaign fuel os cfg (standard_case os cfg idle)) w = (Inr (), w')
    \<and> run_labels rs = grid (compilers cfg) (server_thread_counts cfg) (macro_bench_cases cfg) [0..macro_repetitions cfg - 1]
    \<and> int (length rs) = run_size cfg \<and> summarize_results rs = Inr items
    \<and> w_trace w' = w_trace w @ t1 @ stored_calls cfg (final_of cfg idle (w_ports w) rs) items rs @ t2"
proof -
  let ?camp = "run_campaign fuel os cfg (standard_case os cfg idle)" and ?P = "\<lambda>v. ports_are (w_ports w) v \<and> extends w v"
  let ?grid = "grid (compilers cfg) (server_thread_counts cfg) (macro_bench_cases cfg) [0..macro_repetitions cfg - 1]"
  have dirs: "\<exists>w1. ensure_results_dir os cfg w = (Inr (), w1) \<and> ports_are (w_ports w) w1 \<and> extends w w1"
  proof -
    have unit: "returns ?P (sys_unit os q) (\<lambda>_. True)" for q
      unfolding returns_def
    proof (intro allI impI)
      fix v assume v: "?P v"
      obtain e where "sys_unit os q v = (Inr (), logged q e v)" using reporting_unit [OF assms(2)] by blast
      with v show "\<exists>x v'. sys_unit os q v = (Inr x, v') \<and> True \<and> ?P v'"
        by (auto simp: ports_are_def extends_def)
    qed
    have "returns ?P (ensure_results_dir os cfg) (\<lambda>_. True)"
      unfolding ensure_results_dir_def by (intro returns_for returns_then unit)
    from returnsD [OF this, of w] show ?thesis by (auto simp: ports_are_def extends_def)
  qed
  then obtain w1 where w1: "ensure_results_dir os cfg w = (Inr (), w1)" "ports_are (w_ports w) w1" "extends w w1" by blast
  obtain rs w2 where w2: "all_campaigns cfg ?camp w1 = (Inr rs, w2)" "run_labels rs = ?grid" "ports_are (w_ports w) w2"
    using returnsD [OF returns_campaigns [OF bspec [OF assms(1)] assms(6)] w1(2)] by blast
  have "keeps no_results (all_campaigns cfg ?camp)"
    unfolding all_campaigns_def by (auto intro!: nr_rules nr_campaign)
  from keepsD [OF this w2(1)] w1(3) obtain t1 where t1: "w_trace w2 = w_trace w @ t1"
    by (auto simp: extends_def no_results_def)
  have "length rs = length ?grid" using arg_cong [OF w2(2), of length] by (simp add: run_labels_def)
  then have len: "int (length rs) = run_size cfg" by (simp add: length_grid run_size_def)
  then obtain items where items: "summarize_results rs = Inr items"
    using summarize_results_any [of rs] assms(5) by auto
  obtain w' t2 where "publish os cfg idle rs w2 = (Inr (), w')"
    "w_trace w' = w_trace w2 @ stored_calls cfg (final_of cfg idle (w_ports w2) rs) items rs @ t2"
    using publish_returns [OF assms(2) items assms(3,4), of idle w2] by blast
  moreover from this have "main_program os cfg idle ?camp w = (Inr (), w')"
    using w1(1) w2(1) by (simp add: main_program_def io_then_def io_bind_def)
  ultimately show ?thesis
    using w2(2,3) len items t1 unfolding ports_are_def by (metis append_assoc)
qed

lemma grid_lines:
  assumes "summarize_results rs = Inr items" "run_labels rs = grid cs ts ns reps" "reps \<noteq> []"
    and "distinct cs" "distinct ts" "distinct ns" "distinct reps"
  shows "set (map item_key items) = set cs \<times> set ts \<times> set ns"
    and "s \<in> set items \<Longrightarrow> si_runs s = int (length reps)"
proof -
  have "case_key ` set rs = (\<lambda>(c, t, n, rep). (c, t, n)) ` set (run_labels rs)"
    by (auto simp: case_key_def image_image run_labels_def)
  also have "\<dots> = set cs \<times> set ts \<times> set ns"
    unfolding assms(2) set_grid using assms(3) by (force simp: neq_Nil_conv)
  finally show keys: "set (map item_key items) = set cs \<times> set ts \<times> set ns"
    using summarize_results_lines(2) [OF assms(1)] by simp
  assume s: "s \<in> set items"
  obtain c t n where k: "item_key s = (c, t, n)" by (cases "item_key s")
  then have "(c, t, n) \<in> set cs \<times> set ts \<times> set ns" using s keys by (metis imageI list.set_map)
  then have mem: "c \<in> set cs" "t \<in> set ts" "n \<in> set ns" by auto
  have "length (filter (\<lambda>r. case_key r = item_key s) rs)
      = length (filter (\<lambda>(c', t', n', rep). (c', t', n') = (c, t, n)) (run_labels rs))"
    by (simp add: filter_map comp_def case_key_def k run_labels_def)
  also have "\<dots> = length reps" unfolding assms(2) by (rule grid_cell [OF assms(4-7) mem])
  finally show "si_runs s = int (length reps)" using summary_lines_runs [OF assms(1) s] by simp
qed

text \<open>
  Claim C2. A complete run: when every compiler's binaries and ports are in order and no call fails,
  \<open>main\<close> returns; it has one record per compiler, thread count, number of clients and
  repetition, in loop order, one summary line per combination over all its repetitions, and it
  stores the records, the summary and the CSV table, in this order, after all the campaigns.
\<close>

theorem main_completes:
  assumes "\<forall>c\<in>set (compilers cfg). healthy os cfg c \<and> dict_get (w_ports w) c \<noteq> None" "reporting os"
    and "0 < table_wrap_main cfg" "0 < table_wrap_comparison cfg" "run_size cfg \<le> 2 ^ 53" "0 < fuel"
    and "distinct (compilers cfg)" "distinct (server_thread_counts cfg)" "distinct (macro_bench_cases cfg)"
    and "0 < macro_repetitions cfg"
  shows "\<exists>rs items w' t1 t2.
      main_program os cfg idle (run_campaign fuel os cfg (standard_case os cfg idle)) w = (Inr (), w')
    \<and> run_labels rs = grid (compilers cfg) (server_thread_counts cfg) (macro_bench_cases cfg) [0..macro_repetitions cfg - 1]
    \<and> int (length rs) = run_size cfg \<and> summarize_results rs = Inr items
    \<and> sorted_wrt (<) (map item_key items)
    \<and> set (map item_key items) = set (compilers cfg) \<times> set (server_thread_counts cfg) \<times> set (macro_bench_cases cfg)
    \<and> (\<forall>s\<in>set items. si_runs s = macro_repetitions cfg)
    \<and> w_trace w' = w_trace w @ t1 @ stored_calls cfg (final_of cfg idle (w_ports w) rs) items rs @ t2"
proof -
  obtain rs items w' t1 t2 where run:
    "main_program os cfg idle (run_campaign fuel os cfg (standard_case os cfg idle)) w = (Inr (), w')"
    "run_labels rs = grid (compilers cfg) (server_thread_counts cfg) (macro_bench_cases cfg) [0..macro_repetitions cfg - 1]"
    "int (length rs) = run_size cfg" "summarize_results rs = Inr items"
    "w_trace w' = w_trace w @ t1 @ stored_calls cfg (final_of cfg idle (w_ports w) rs) items rs @ t2"
    using main_completes_trace [OF assms(1-6), of idle] by blast
  have "[0..macro_repetitions cfg - 1] \<noteq> []" using assms(10) by simp
  note lines = grid_lines [OF run(4,2) this assms(7-9)]
  have "si_runs s = macro_repetitions cfg" if "s \<in> set items" for s
    using lines(2) [OF _ that] assms(10) by simp
  moreover have "set (map item_key items) = set (compilers cfg) \<times> set (server_thread_counts cfg) \<times> set (macro_bench_cases cfg)"
    using lines(1) by simp
  ultimately show ?thesis using run summarize_results_lines(1) [OF run(4)] by blast
qed

lemma steady_clang: "healthy steady_os (asio_config root_dir) ''clang''"
proof -
  have n: "py_int_str (py_strip ''123456'') = Inr 123456" by code_simp
  have dirs: "build_dirs (asio_config root_dir) = [(''gcc'', ''./build-gcc''), (''clang'', ''./build-clang'')]"
    by (simp add: asio_config_def run_bench_config_def)
  show ?thesis
    by (simp add: healthy_def steady_os_def n get_server_bin_def get_bench_bin_def get_build_dir_def dirs)
qed

theorem main_completes_witness:
  "\<exists>rs w' t1 t2 items. asio_main 601 steady_os ''/r'' (PFlt 1) steady_world = (Inr (), w') \<and> length rs = 1000
    \<and> set (map item_key items) = {''gcc'', ''clang''} \<times> {1, 2, 4, 8} \<times> {1, 2, 4, 8, 16}
    \<and> w_trace w' = t1 @ stored_calls (asio_config ''/r'') (final_of (asio_config ''/r'') (PFlt 1) sim_ports rs) items rs @ t2"
proof -
  let ?cfg = "asio_config ''/r''"
  have h: "\<forall>c\<in>set (compilers ?cfg). healthy steady_os ?cfg c \<and> dict_get (w_ports steady_world) c \<noteq> None"
    using steady_healthy steady_clang by (simp add: steady_world_def sim_ports_def)
  have wraps: "0 < table_wrap_main ?cfg" "0 < table_wrap_comparison ?cfg"
    by (simp_all add: asio_config_def run_bench_config_def)
  have sz: "run_size ?cfg = 1000" by (simp add: run_size_def)
  obtain rs items w' t1 t2 where run:
    "main_program steady_os ?cfg (PFlt 1) (run_campaign 601 steady_os ?cfg (standard_case steady_os ?cfg (PFlt 1))) steady_world
      = (Inr (), w')"
    "int (length rs) = run_size ?cfg"
    "set (map item_key items) = set (compilers ?cfg) \<times> set (server_thread_counts ?cfg) \<times> set (macro_bench_cases ?cfg)"
    "w_trace w' = w_trace steady_world @ t1 @ stored_calls ?cfg (final_of ?cfg (PFlt 1) (w_ports steady_world) rs) items rs @ t2"
    using main_completes [OF h steady_reporting wraps, of 601 "PFlt 1"] unfolding sz by auto
  have "length rs = 1000" using run(2) by (simp add: sz)
  moreover have "set (map item_key items) = {''gcc'', ''clang''} \<times> {1, 2, 4, 8} \<times> {1, 2, 4, 8, 16}"
    unfolding run(3) asio_config_simps by simp
  moreover have "w_trace w' = t1 @ stored_calls ?cfg (final_of ?cfg (PFlt 1) sim_ports rs) items rs @ t2"
    using run(4) by (simp add: steady_world_def)
  moreover have "asio_main 601 steady_os ''/r'' (PFlt 1) steady_world = (Inr (), w')"
    using run(1) by (simp add: asio_main_def asio_campaign_def)
  ultimately show ?thesis by blast
qed

end
