(* ===== verification/Master_Correct.thy ===== *)
theory Master_Correct
  imports Master Complete_Run
begin

text \<open>
  Correctness of the master summary's data: the shape of the rows and the round trip from the
  summary that a benchmark script stores.
\<close>

section \<open>The schema of the rows\<close>

definition base_fields :: "string list" where
  "base_fields = [''library'', ''library_id'', ''compiler'', ''server_threads'', ''parallel_bench_processes'', ''runs'',
     ''file_served'', ''host'', ''repetitions'', ''configured_port'', ''available_compilers'']"

definition stat_fields :: "string list" where
  "stat_fields = concat (map (\<lambda>p. map (stat_field p) stat_keys) stat_prefixes)"

definition row_schema :: "string list" where
  "row_schema = base_fields @ stat_fields @ map fst rate_fields"

lemma schema_distinct: "distinct row_schema"
  by code_simp

definition add_key :: "string \<Rightarrow> string list \<Rightarrow> string list" where
  "add_key k ks = (if k \<in> set ks then ks else ks @ [k])"

lemma keys_dict_set: "dict_keys (dict_set k v d) = add_key k (dict_keys d)"
  by (simp add: dict_keys_set add_key_def)

lemma fold_add_key: "distinct (ks @ xs) \<Longrightarrow> fold add_key xs ks = ks @ xs"
  by (induction xs arbitrary: ks) (auto simp: add_key_def)

lemma res_fold_keys:
  assumes "\<And>x a b. f x a = Inr b \<Longrightarrow> dict_keys b = g x (dict_keys a)"
  shows "res_fold f xs a = Inr b \<Longrightarrow> dict_keys b = fold g xs (dict_keys a)"
  by (induction xs arbitrary: a) (auto simp: res_bind_eq_Inr dest: assms)

lemma fold_put_keys: "dict_keys (fold (\<lambda>x. dict_set (f x) (h x)) xs row) = fold (\<lambda>x. add_key (f x)) xs (dict_keys row)"
  by (induction xs arbitrary: row) (simp_all add: keys_dict_set)

lemma flatten_keys:
  assumes "flatten_stats p st row = Inr r"
  shows "dict_keys r = fold (\<lambda>key. add_key (stat_field p key)) stat_keys (dict_keys row)"
proof (cases "truthy st")
  case True
  with assms have "res_fold (\<lambda>key row. res_bind (val_get st key VNone) (\<lambda>v. Inr (dict_set (stat_field p key) v row))) stat_keys row = Inr r"
    by (simp add: flatten_stats_def)
  then show ?thesis by (rule res_fold_keys [rotated]) (auto simp: res_bind_eq_Inr keys_dict_set)
next
  case False
  with assms show ?thesis by (auto simp: flatten_stats_def fold_put_keys)
qed

lemma fold_nested: "fold (\<lambda>p ks. fold (\<lambda>k. g (h p k)) (xs p) ks) ps ks = fold g (concat (map (\<lambda>p. map (h p) (xs p)) ps)) ks"
  by (induction ps arbitrary: ks) (simp_all add: fold_map comp_def)

lemma ensure_elapsed_keys:
  assumes "\<forall>k\<in>set stat_keys. stat_field ''elapsed_ms'' k \<in> set (dict_keys row)"
  shows "ensure_elapsed_ms_fields row = Inr r \<Longrightarrow> dict_keys r = dict_keys row"
proof -
  let ?f = "\<lambda>key row. if row_get row (stat_field ''elapsed_ms'' key) = VNone \<and> row_get row (stat_field ''elapsed_s'' key) \<noteq> VNone
       then res_bind (times_1000 (row_get row (stat_field ''elapsed_s'' key))) (\<lambda>v.
              Inr (dict_set (stat_field ''elapsed_ms'' key) v row))
       else Inr row"
  have "res_fold ?f ks a = Inr r \<Longrightarrow> set ks \<subseteq> set stat_keys \<Longrightarrow> dict_keys a = dict_keys row \<Longrightarrow> dict_keys r = dict_keys row" for ks a
  proof (induction ks arbitrary: a)
    case (Cons k ks)
    then obtain b where b: "?f k a = Inr b" "res_fold ?f ks b = Inr r" by (auto simp: res_bind_eq_Inr)
    have "stat_field ''elapsed_ms'' k \<in> set (dict_keys a)" using assms Cons.prems(2,3) by auto
    with b(1) have "dict_keys b = dict_keys a" by (auto simp: res_bind_eq_Inr keys_dict_set add_key_def split: if_splits)
    with Cons b(2) show ?case by simp
  qed simp
  then show "ensure_elapsed_ms_fields row = Inr r \<Longrightarrow> dict_keys r = dict_keys row"
    unfolding ensure_elapsed_ms_fields_def by blast
qed

lemma base_row_keys: "base_row info item = Inr row \<Longrightarrow> dict_keys row = base_fields"
  by (auto simp: base_row_def res_bind_eq_Inr base_fields_def)

lemma master_row_schema:
  assumes "master_row info item = Inr row"
  shows "dict_keys row = row_schema"
proof -
  obtain r0 r1 r2 where r: "base_row info item = Inr r0"
    "res_fold (\<lambda>p row. res_bind (val_get item (p @ ''_stats'') VNone) (\<lambda>st. flatten_stats p st row)) stat_prefixes r0 = Inr r1"
    "ensure_elapsed_ms_fields r1 = Inr r2" "add_rates r2 = Inr row"
    using assms by (auto simp: master_row_def res_bind_eq_Inr)
  have "dict_keys r1 = fold (\<lambda>p ks. fold (\<lambda>key. add_key (stat_field p key)) stat_keys ks) stat_prefixes (dict_keys r0)"
    using r(2) by (rule res_fold_keys [rotated]) (auto simp: res_bind_eq_Inr dest: flatten_keys)
  also have "\<dots> = fold add_key stat_fields base_fields"
    using fold_nested [of add_key stat_field "\<lambda>_. stat_keys" stat_prefixes base_fields]
    by (simp only: base_row_keys [OF r(1)] stat_fields_def)
  also have "\<dots> = base_fields @ stat_fields"
    by (rule fold_add_key) (use schema_distinct in \<open>auto simp: row_schema_def\<close>)
  finally have k1: "dict_keys r1 = base_fields @ stat_fields" .
  have "\<forall>k\<in>set stat_keys. stat_field ''elapsed_ms'' k \<in> set (dict_keys r1)"
    by (auto simp: k1 stat_fields_def stat_prefixes_def)
  from ensure_elapsed_keys [OF this r(3)] have k2: "dict_keys r2 = base_fields @ stat_fields" by (simp add: k1)
  have "dict_keys row = fold (\<lambda>(f, _, _). add_key f) rate_fields (dict_keys r2)"
    using r(4) unfolding add_rates_def
    by (rule res_fold_keys [rotated]) (auto simp: res_bind_eq_Inr keys_dict_set)
  also have "\<dots> = fold add_key (map fst rate_fields) (base_fields @ stat_fields)"
    by (simp add: k2 fold_map comp_def case_prod_beta')
  also have "\<dots> = row_schema"
    using fold_add_key [of "base_fields @ stat_fields" "map fst rate_fields"] schema_distinct
    by (simp add: row_schema_def)
  finally show ?thesis .
qed

lemma res_map_mem: "res_map f xs = Inr ys \<Longrightarrow> y \<in> set ys \<Longrightarrow> \<exists>x\<in>set xs. f x = Inr y"
  by (induction xs arbitrary: ys) (auto simp: res_bind_eq_Inr)

lemma file_rows_schema: "file_rows path data = Inr rows \<Longrightarrow> row \<in> set rows \<Longrightarrow> dict_keys row = row_schema"
  by (auto simp: file_rows_def res_bind_eq_Inr dest!: res_map_mem intro: master_row_schema)

lemma with_keys_props:
  "with_keys key xs = Inr kxs \<Longrightarrow> map snd kxs = xs \<and> (\<forall>(k, x)\<in>set kxs. key x = Inr k)"
  unfolding with_keys_def
  by (induction xs arbitrary: kxs) (auto simp: res_bind_eq_Inr)

lemma sort_rows_props:
  assumes "sort_rows rows = Inr sorted_rows"
  shows "mset sorted_rows = mset rows \<and> (\<exists>keys. res_map row_sort_key sorted_rows = Inr keys \<and> sorted keys)"
proof -
  obtain keyed where k: "with_keys row_sort_key rows = Inr keyed" "sorted_rows = map snd (sort_key fst keyed)"
    using assms by (auto simp: sort_rows_def res_bind_eq_Inr py_sort_by_def split: if_splits)
  note p = with_keys_props [OF k(1)]
  have "res_map row_sort_key (map snd ps) = Inr (map fst ps)" if "\<forall>(k, x)\<in>set ps. row_sort_key x = Inr k" for ps
    using that by (induction ps) auto
  from this [of "sort_key fst keyed"] p have "res_map row_sort_key sorted_rows = Inr (map fst (sort_key fst keyed))"
    unfolding k(2) by simp
  moreover have "mset sorted_rows = mset rows" using p by (metis k(2) mset_map mset_sort)
  ultimately show ?thesis by auto
qed

lemma io_map_mem: "io_map f xs w = (Inr ys, w') \<Longrightarrow> y \<in> set ys \<Longrightarrow> \<exists>x\<in>set xs. \<exists>v v'. f x v = (Inr y, v')"
proof (induction xs arbitrary: w ys)
  case (Cons x xs)
  then obtain z w1 zs where "f x w = (Inr z, w1)" "io_map f xs w1 = (Inr zs, w')" "ys = z # zs"
    by (auto simp: io_bind_def io_return_def split: prod.splits sum.splits)
  with Cons show ?case by auto
qed (simp add: io_return_def)

lemma io_map_rows:
  assumes "io_map (\<lambda>path. io_bind (sys_json os (Load_json path)) (\<lambda>data. io_of (file_rows path data))) files w = (Inr rowss, w')"
    and "rows \<in> set rowss"
  shows "\<exists>path data. file_rows path data = Inr rows"
proof -
  obtain path v v' where run: "io_bind (sys_json os (Load_json path)) (\<lambda>data. io_of (file_rows path data)) v = (Inr rows, v')"
    using io_map_mem [OF assms] by blast
  obtain r v1 where "sys_json os (Load_json path) v = (r, v1)" by fastforce
  with run show ?thesis by (cases r) (auto simp: io_bind_def io_of_def)
qed

lemma build_master_rows_props:
  assumes "build_master_rows os files w = (Inr rows, w')"
  shows "(\<forall>row\<in>set rows. dict_keys row = row_schema) \<and> (\<exists>keys. res_map row_sort_key rows = Inr keys \<and> sorted keys)"
proof -
  obtain rowss where rowss:
    "io_map (\<lambda>path. io_bind (sys_json os (Load_json path)) (\<lambda>data. io_of (file_rows path data))) files w = (Inr rowss, w')"
    "sort_rows (concat rowss) = Inr rows"
    using assms by (auto simp: build_master_rows_def io_bind_def io_of_def split: prod.splits sum.splits)
  have "\<forall>row\<in>set (concat rowss). dict_keys row = row_schema"
    using io_map_rows [OF rowss(1)] file_rows_schema by simp blast
  with sort_rows_props [OF rowss(2)] show ?thesis by (metis mset_eq_setD)
qed

text \<open>
  Claim C38. Every row of the master table has the same 104 columns in the same order, whatever the
  summary files contain, the rows are sorted by library, compiler, threads and clients, and
  writing them as CSV therefore never meets an unknown field.
\<close>

theorem master_rows_typed:
  assumes "build_master_rows os files w = (Inr rows, w')"
  shows "(\<forall>row\<in>set rows. dict_keys row = row_schema) \<and> distinct row_schema \<and> length row_schema = 104
    \<and> (\<exists>keys. res_map row_sort_key rows = Inr keys \<and> sorted keys)
    \<and> (rows \<noteq> [] \<longrightarrow> write_master_csv os rows path
        = io_then (ensure_parent_dir os path) (sys_unit os (Write_csv path row_schema rows)))"
proof -
  have len: "length row_schema = 104" by code_simp
  note p = build_master_rows_props [OF assms]
  have "write_master_csv os rows path = io_then (ensure_parent_dir os path) (sys_unit os (Write_csv path row_schema rows))"
    if "rows \<noteq> []"
  proof -
    have "dict_keys (hd rows) = row_schema" using p that by simp
    moreover have "list_all (\<lambda>row. list_all (\<lambda>k. k \<in> set row_schema) (dict_keys row)) rows"
      using p by (simp add: list_all_iff)
    ultimately show ?thesis using that by (simp add: write_master_csv_def Let_def)
  qed
  with p schema_distinct len show ?thesis by blast
qed

section \<open>Reading a summary back\<close>

definition stat_sources :: "(string \<times> (summary_item \<Rightarrow> stats option)) list" where
  "stat_sources = [(''elapsed_s'', si_elapsed_s_stats), (''elapsed_ms'', si_elapsed_ms_stats),
     (''energy_j_raw'', si_energy_j_raw_stats), (''idle_energy_j_estimated'', si_idle_energy_j_estimated_stats),
     (''energy_j'', si_energy_j_stats), (''throughput_mib_s'', si_throughput_mib_s_stats),
     (''downloads_per_process'', si_downloads_per_process_stats), (''total_iterations'', si_total_iterations_stats),
     (''success'', si_success_stats), (''failed'', si_failed_stats)]"

definition stats_dict :: "stats \<Rightarrow> pydict" where
  "stats_dict st = (case stats_json (Some st) of VDict d \<Rightarrow> d | _ \<Rightarrow> [])"

definition full_stats :: "stats \<Rightarrow> bool" where
  "full_stats st \<longleftrightarrow> st_p25 st \<noteq> None \<and> st_p50 st \<noteq> None \<and> st_p95 st \<noteq> None"

definition full_item :: "summary_item \<Rightarrow> bool" where
  "full_item s \<longleftrightarrow> (\<forall>(p, g)\<in>set stat_sources. \<exists>st. g s = Some st \<and> full_stats st)"

lemma percentile_some: "percentile xs p = Inr r \<Longrightarrow> xs \<noteq> [] \<Longrightarrow> r \<noteq> None"
  by (auto simp: percentile_def Let_def res_bind_eq_Inr split: if_splits)

lemma compute_stats_full: "compute_stats xs = Inr r \<Longrightarrow> xs \<noteq> [] \<Longrightarrow> \<exists>st. r = Some st \<and> full_stats st"
  by (auto simp: compute_stats_def Let_def res_bind_eq_Inr full_stats_def dest!: percentile_some)

lemma group_stats:
  assumes "summarize_group (k, ys) = Inr s"
  shows "compute_stats (map br_elapsed_s ys) = Inr (si_elapsed_s_stats s)
    \<and> compute_stats (map br_elapsed_ms ys) = Inr (si_elapsed_ms_stats s)
    \<and> compute_stats (map br_energy_j_raw ys) = Inr (si_energy_j_raw_stats s)
    \<and> compute_stats (map br_idle_energy_j_estimated ys) = Inr (si_idle_energy_j_estimated_stats s)
    \<and> compute_stats (map br_energy_j ys) = Inr (si_energy_j_stats s)
    \<and> compute_stats (map br_throughput_mib_s ys) = Inr (si_throughput_mib_s_stats s)
    \<and> compute_stats (map br_downloads_per_process ys) = Inr (si_downloads_per_process_stats s)
    \<and> compute_stats (map br_total_iterations ys) = Inr (si_total_iterations_stats s)
    \<and> compute_stats (map (\<lambda>x. PInt (br_success x)) ys) = Inr (si_success_stats s)
    \<and> compute_stats (map (\<lambda>x. PInt (br_failed x)) ys) = Inr (si_failed_stats s)"
  using assms by (cases k) (clarsimp simp: summarize_group_def res_bind_eq_Inr)

lemma summary_full:
  assumes "summarize_results results = Inr items" "s \<in> set items"
  shows "full_item s"
proof -
  let ?ys = "filter (\<lambda>r. case_key r = item_key s) results"
  note lines = summarize_results_lines [OF assms(1)]
  have "item_key s \<in> case_key ` set results" using lines(2) assms(2) by auto
  then have "?ys \<noteq> []" by (auto simp: filter_empty_conv)
  then have full: "compute_stats (map f ?ys) = Inr r \<Longrightarrow> \<exists>st. r = Some st \<and> full_stats st" for f r
    using compute_stats_full by simp
  have "list_all (\<lambda>(p, g). \<exists>f. compute_stats (map f ?ys) = Inr (g s)) stat_sources"
    using group_stats [OF lines(3) [OF assms(2)]]
    unfolding stat_sources_def by (simp only: list.pred_inject prod.case simp_thms) blast
  then have "\<exists>f. compute_stats (map f ?ys) = Inr (g s)" if "(p, g) \<in> set stat_sources" for p g
    using that by (auto simp: list_all_iff)
  with full show ?thesis unfolding full_item_def by fastforce
qed

lemma stats_dict_values: "full_stats st \<Longrightarrow> k \<in> set stat_keys \<Longrightarrow> row_get (stats_dict st) k \<noteq> VNone"
  by (auto simp: full_stats_def stats_dict_def stats_json_def stat_keys_def row_get_def)

definition put_all :: "(string \<times> pyval) list \<Rightarrow> pydict \<Rightarrow> pydict" where
  "put_all kvs row = fold (\<lambda>(k, v). dict_set k v) kvs row"

definition stat_pairs :: "string \<Rightarrow> stats \<Rightarrow> (string \<times> pyval) list" where
  "stat_pairs p st = map (\<lambda>k. (stat_field p k, row_get (stats_dict st) k)) stat_keys"

lemma flatten_full: "flatten_stats p (stats_json (Some st)) row = Inr (put_all (stat_pairs p st) row)"
proof -
  have d: "stats_json (Some st) = VDict (stats_dict st)" "stats_dict st \<noteq> []"
    by (simp_all add: stats_dict_def stats_json_def)
  have "res_fold (\<lambda>key row. res_bind (val_get (VDict e) key VNone) (\<lambda>v. Inr (dict_set (stat_field p key) v row))) ks row
      = Inr (put_all (map (\<lambda>k. (stat_field p k, row_get e k)) ks) row)" for e ks
    by (induction ks arbitrary: row) (simp_all add: put_all_def row_get_def)
  then show ?thesis by (simp add: flatten_stats_def d stat_pairs_def)
qed

definition all_pairs :: "summary_item \<Rightarrow> (string \<times> pyval) list" where
  "all_pairs s = concat (map (\<lambda>(p, g). stat_pairs p (the (g s))) stat_sources)"

lemma summary_item_get:
  "list_all (\<lambda>(p, g). val_get (VDict (summary_item_json s)) (p @ ''_stats'') VNone = Inr (stats_json (g s))) stat_sources"
  by (simp add: stat_sources_def summary_item_json_def)

lemma prefix_loop:
  assumes "full_item s"
  shows "res_fold (\<lambda>p row. res_bind (val_get (VDict (summary_item_json s)) (p @ ''_stats'') VNone) (\<lambda>st. flatten_stats p st row))
      stat_prefixes row = Inr (put_all (all_pairs s) row)"
proof -
  have get: "val_get (VDict (summary_item_json s)) (p @ ''_stats'') VNone = Inr (stats_json (g s))"
    if "(p, g) \<in> set stat_sources" for p g
    using summary_item_get that by (auto simp: list_all_iff)
  have "res_fold (\<lambda>p row. res_bind (val_get (VDict (summary_item_json s)) (p @ ''_stats'') VNone) (\<lambda>st. flatten_stats p st row))
      (map fst src) row = Inr (put_all (concat (map (\<lambda>(p, g). stat_pairs p (the (g s))) src)) row)"
    if "set src \<subseteq> set stat_sources" for src
    using that
  proof (induction src arbitrary: row)
    case Nil
    show ?case by (simp add: put_all_def)
  next
    case (Cons pg src)
    obtain p g where pg: "pg = (p, g)" by (cases pg)
    with Cons.prems have mem: "(p, g) \<in> set stat_sources" by simp
    obtain st where "g s = Some st" using assms mem unfolding full_item_def by auto
    then have "flatten_stats p (stats_json (g s)) row = Inr (put_all (stat_pairs p (the (g s))) row)" for row
      by (simp add: flatten_full)
    with Cons get [OF mem] show ?case by (simp add: pg put_all_def)
  qed
  from this [of stat_sources] show ?thesis
    unfolding all_pairs_def by (simp add: stat_sources_def stat_prefixes_def)
qed

lemma put_all_get: "dict_get (put_all kvs row) k = (case map_of (rev kvs) k of None \<Rightarrow> dict_get row k | Some v \<Rightarrow> Some v)"
  unfolding put_all_def by (induction kvs arbitrary: row) (auto simp: dict.get_put map_add_def split: option.splits)

lemma put_all_value:
  assumes "distinct (map fst kvs)" "(k, v) \<in> set kvs"
  shows "row_get (put_all kvs row) k = v"
proof -
  have "map_of (rev kvs) k = Some v" using assms by (simp add: rev_map [symmetric])
  then show ?thesis by (simp add: row_get_def put_all_get)
qed

lemma put_all_other: "k \<notin> fst ` set kvs \<Longrightarrow> row_get (put_all kvs row) k = row_get row k"
proof -
  assume "k \<notin> fst ` set kvs"
  then have "map_of (rev kvs) k = None" by (simp add: map_of_eq_None_iff)
  then show ?thesis by (simp add: row_get_def put_all_get)
qed

lemma all_pairs_fields: "map fst (all_pairs s) = stat_fields"
  by (simp add: all_pairs_def stat_pairs_def stat_fields_def stat_sources_def stat_prefixes_def comp_def)

lemma all_pairs_value:
  assumes "(p, g) \<in> set stat_sources" "k \<in> set stat_keys"
  shows "row_get (put_all (all_pairs s) row) (stat_field p k) = row_get (stats_dict (the (g s))) k"
proof (rule put_all_value)
  show "distinct (map fst (all_pairs s))"
    using schema_distinct by (simp add: all_pairs_fields row_schema_def)
  show "(stat_field p k, row_get (stats_dict (the (g s))) k) \<in> set (all_pairs s)"
    using assms by (auto simp: all_pairs_def stat_pairs_def)
qed

lemma ensure_elapsed_same:
  assumes "\<And>k. k \<in> set stat_keys \<Longrightarrow> row_get row (stat_field ''elapsed_ms'' k) \<noteq> VNone"
  shows "ensure_elapsed_ms_fields row = Inr row"
proof -
  let ?f = "\<lambda>key row. if row_get row (stat_field ''elapsed_ms'' key) = VNone \<and> row_get row (stat_field ''elapsed_s'' key) \<noteq> VNone
       then res_bind (times_1000 (row_get row (stat_field ''elapsed_s'' key))) (\<lambda>v.
              Inr (dict_set (stat_field ''elapsed_ms'' key) v row))
       else Inr row"
  have "set ks \<subseteq> set stat_keys \<Longrightarrow> res_fold ?f ks row = Inr row" for ks
    by (induction ks) (use assms in auto)
  then show ?thesis unfolding ensure_elapsed_ms_fields_def by blast
qed

lemma row_get_set: "row_get (dict_set k v row) k' = (if k' = k then v else row_get row k')"
  by (simp add: row_get_def dict.get_put)

lemma row_get_Cons: "row_get ((a, v) # row) k = (if a = k then v else row_get row k)"
  by (simp add: row_get_def)

text \<open>What a row of the master table keeps of a stored summary line.\<close>

definition reads_back :: "string \<Rightarrow> final_data \<Rightarrow> summary_item \<Rightarrow> pydict \<Rightarrow> bool" where
  "reads_back path d s row \<longleftrightarrow>
     row_get row ''library'' = VStr (library_display_name (infer_library_name path))
   \<and> row_get row ''library_id'' = VStr (infer_library_name path)
   \<and> row_get row ''compiler'' = VStr (si_compiler s)
   \<and> row_get row ''server_threads'' = VNum (PInt (si_server_threads s))
   \<and> row_get row ''parallel_bench_processes'' = VNum (PInt (si_parallel_bench_processes s))
   \<and> row_get row ''runs'' = VNum (PInt (si_runs s))
   \<and> row_get row ''configured_port'' = (case dict_get (fd_ports d) (si_compiler s) of None \<Rightarrow> VNone | Some p \<Rightarrow> VNum (PInt p))
   \<and> (\<forall>(p, g)\<in>set stat_sources. \<forall>k\<in>set stat_keys. val_get (stats_json (g s)) k VNone = Inr (row_get row (stat_field p k)))
   \<and> (\<forall>(f, num, den)\<in>set rate_fields. safe_div (row_get row num) (row_get row den) = Inr (row_get row f))"

lemma safe_div_nums: "\<exists>v. safe_div (VNum a) (VNum b) = Inr v"
  using num_div_total [of b a] by (cases "num_val b = 0") (auto simp: safe_div_def none_or_zero_def)

lemma res_fold_put:
  assumes "\<And>x row. x \<in> set xs \<Longrightarrow> (\<forall>k. k \<notin> key ` set xs \<longrightarrow> row_get row k = row_get row0 k) \<Longrightarrow> f x row = Inr (dict_set (key x) (val x) row)"
    and "\<forall>k. k \<notin> key ` set xs \<longrightarrow> row_get row k = row_get row0 k"
  shows "res_fold f xs row = Inr (put_all (map (\<lambda>x. (key x, val x)) xs) row)"
proof -
  have "res_fold f ys row = Inr (put_all (map (\<lambda>x. (key x, val x)) ys) row)" if "set ys \<subseteq> set xs"
    "\<forall>k. k \<notin> key ` set xs \<longrightarrow> row_get row k = row_get row0 k" for ys row
    using that
  proof (induction ys arbitrary: row)
    case (Cons y ys)
    then have "f y row = Inr (dict_set (key y) (val y) row)" by (intro assms(1)) auto
    moreover have "\<forall>k. k \<notin> key ` set xs \<longrightarrow> row_get (dict_set (key y) (val y) row) k = row_get row0 k"
      using Cons.prems by (auto simp: row_get_set)
    ultimately show ?case using Cons by (simp add: put_all_def)
  qed (simp add: put_all_def)
  with assms(2) show ?thesis by blast
qed

lemma schema_parts:
  shows "k \<in> set base_fields \<Longrightarrow> k \<notin> set stat_fields \<union> fst ` set rate_fields"
    and "k \<in> set stat_fields \<Longrightarrow> k \<notin> fst ` set rate_fields"
  using schema_distinct unfolding row_schema_def by auto

lemma rate_inputs: "list_all (\<lambda>(f, num, den). num \<in> set stat_fields \<and> den \<in> set stat_fields) rate_fields"
  by code_simp

definition rate_value :: "pydict \<Rightarrow> string \<times> string \<times> string \<Rightarrow> pyval" where
  "rate_value row = (\<lambda>(f, num, den). projr (safe_div (row_get row num) (row_get row den)))"

lemma add_rates_put:
  assumes "\<And>f num den. (f, num, den) \<in> set rate_fields \<Longrightarrow> \<exists>v. safe_div (row_get row num) (row_get row den) = Inr v"
  shows "add_rates row = Inr (put_all (map (\<lambda>x. (fst x, rate_value row x)) rate_fields) row)"
  unfolding add_rates_def
proof (rule res_fold_put [where row0 = row])
  fix x r assume x: "x \<in> set rate_fields" and r: "\<forall>k. k \<notin> fst ` set rate_fields \<longrightarrow> row_get r k = row_get row k"
  obtain f num den where p: "x = (f, num, den)" by (cases x)
  have "num \<in> set stat_fields" "den \<in> set stat_fields" using rate_inputs x p by (auto simp: list_all_iff)
  with r schema_parts(2) have "row_get r num = row_get row num" "row_get r den = row_get row den" by blast+
  moreover obtain v where "safe_div (row_get row num) (row_get row den) = Inr v" using assms x p by blast
  ultimately show "(case x of (field, num, den) \<Rightarrow> \<lambda>row. res_bind (safe_div (row_get row num) (row_get row den)) (\<lambda>v. Inr (dict_set field v row))) r
      = Inr (dict_set (fst x) (rate_value row x) r)"
    by (simp add: p rate_value_def)
qed simp

lemma mean_is_number: "row_get (stats_dict st) ''mean'' = VNum (st_mean st)" "row_get (stats_dict st) ''median'' = VNum (st_median st)"
  by (simp_all add: stats_dict_def stats_json_def row_get_def)

lemma rate_sources:
  "list_all (\<lambda>(f, num, den). list_all (\<lambda>x. x \<in> (\<lambda>(p, k). stat_field p k) ` set (List.product (map fst stat_sources) [''mean'', ''median'']))
     [num, den]) rate_fields"
  by code_simp

lemma rate_source:
  assumes "(f, num, den) \<in> set rate_fields" "x \<in> {num, den}"
  obtains p k where "x = stat_field p k" "p \<in> fst ` set stat_sources" "k \<in> {''mean'', ''median''}"
proof -
  have "\<forall>x\<in>{num, den}. x \<in> (\<lambda>(p, k). stat_field p k) ` set (List.product (map fst stat_sources) [''mean'', ''median''])"
    using bspec [OF rate_sources [unfolded list_all_iff] assms(1)] by simp
  with assms(2) that show thesis by auto
qed

lemma stat_number:
  assumes "p \<in> fst ` set stat_sources" "k \<in> {''mean'', ''median''}"
  shows "\<exists>a. row_get (put_all (all_pairs s) row) (stat_field p k) = VNum a"
proof -
  obtain g where g: "(p, g) \<in> set stat_sources" using assms(1) by auto
  have "k \<in> set stat_keys" using assms(2) by (auto simp: stat_keys_def)
  from all_pairs_value [OF g this] assms(2) mean_is_number show ?thesis by auto
qed

lemma stats_json_get: "val_get (stats_json (Some st)) k VNone = Inr (row_get (stats_dict st) k)"
proof -
  have "stats_json (Some st) = VDict (stats_dict st)" by (simp add: stats_dict_def stats_json_def)
  then show ?thesis by (simp add: row_get_def)
qed

lemma mapped_get: "dict_get (map (\<lambda>(k, p). (k, F p)) d) k = map_option F (dict_get d k)"
  by (induction d) auto

lemma names_text: "res_map text_of (map VStr xs) = Inr xs"
  by (induction xs) simp_all

lemma available_total: "\<exists>v. available_compilers (names_json cs) = Inr v"
  by (simp add: available_compilers_def names_json_def names_text)

definition run_info :: "string \<Rightarrow> final_data \<Rightarrow> file_info" where
  "run_info path d = \<lparr>fi_library_id = infer_library_name path, fi_file_served = VStr (fd_file_served d),
     fi_host = VStr (fd_host d), fi_repetitions = VNum (PInt (fd_repetitions d)),
     fi_ports = VDict (map (\<lambda>(k, p). (k, VNum (PInt p))) (fd_ports d)), fi_compilers = names_json (fd_compilers d)\<rparr>"

lemma file_rows_run: "file_rows path (run_json d ''summary'' items) = res_map (master_row (run_info path d)) items"
  by (simp add: file_rows_def run_json_def run_info_def)

lemma base_row_run:
  "\<exists>row. base_row (run_info path d) (VDict (summary_item_json s)) = Inr row
   \<and> row_get row ''library'' = VStr (library_display_name (infer_library_name path))
   \<and> row_get row ''library_id'' = VStr (infer_library_name path)
   \<and> row_get row ''compiler'' = VStr (si_compiler s)
   \<and> row_get row ''server_threads'' = VNum (PInt (si_server_threads s))
   \<and> row_get row ''parallel_bench_processes'' = VNum (PInt (si_parallel_bench_processes s))
   \<and> row_get row ''runs'' = VNum (PInt (si_runs s))
   \<and> row_get row ''configured_port'' = (case dict_get (fd_ports d) (si_compiler s) of None \<Rightarrow> VNone | Some p \<Rightarrow> VNum (PInt p))"
proof -
  obtain v where v: "available_compilers (names_json (fd_compilers d)) = Inr v" using available_total by blast
  have port: "configured_port (fi_ports (run_info path d)) (VStr c)
      = Inr (case dict_get (fd_ports d) c of None \<Rightarrow> VNone | Some p \<Rightarrow> VNum (PInt p))" for c
    by (simp add: configured_port_def run_info_def row_get_def mapped_get split: option.splits)
  have get: "val_get (VDict (summary_item_json s)) ''compiler'' VNone = Inr (VStr (si_compiler s))"
    "val_get (VDict (summary_item_json s)) ''server_threads'' VNone = Inr (VNum (PInt (si_server_threads s)))"
    "val_get (VDict (summary_item_json s)) ''parallel_bench_processes'' VNone = Inr (VNum (PInt (si_parallel_bench_processes s)))"
    "val_get (VDict (summary_item_json s)) ''runs'' VNone = Inr (VNum (PInt (si_runs s)))"
    by (simp_all add: summary_item_json_def)
  have info: "fi_compilers (run_info path d) = names_json (fd_compilers d)" "fi_library_id (run_info path d) = infer_library_name path"
    by (simp_all add: run_info_def)
  show ?thesis
    by (simp add: base_row_def get port v info row_get_Cons del: val_get.simps)
qed

lemma master_row_run:
  assumes "full_item s"
  shows "\<exists>row. master_row (run_info path d) (VDict (summary_item_json s)) = Inr row \<and> reads_back path d s row"
proof -
  obtain r0 where r0: "base_row (run_info path d) (VDict (summary_item_json s)) = Inr r0"
    and base: "row_get r0 ''library'' = VStr (library_display_name (infer_library_name path))"
      "row_get r0 ''library_id'' = VStr (infer_library_name path)"
      "row_get r0 ''compiler'' = VStr (si_compiler s)"
      "row_get r0 ''server_threads'' = VNum (PInt (si_server_threads s))"
      "row_get r0 ''parallel_bench_processes'' = VNum (PInt (si_parallel_bench_processes s))"
      "row_get r0 ''runs'' = VNum (PInt (si_runs s))"
      "row_get r0 ''configured_port'' = (case dict_get (fd_ports d) (si_compiler s) of None \<Rightarrow> VNone | Some p \<Rightarrow> VNum (PInt p))"
    using base_row_run by blast
  let ?r1 = "put_all (all_pairs s) r0"
  let ?r2 = "put_all (map (\<lambda>x. (fst x, rate_value ?r1 x)) rate_fields) ?r1"
  have stat: "row_get ?r1 (stat_field p k) = row_get (stats_dict (the (g s))) k"
    if "(p, g) \<in> set stat_sources" "k \<in> set stat_keys" for p g k
    by (rule all_pairs_value [OF that])
  have "(''elapsed_ms'', si_elapsed_ms_stats) \<in> set stat_sources" by (simp add: stat_sources_def)
  with assms have ms: "full_stats (the (si_elapsed_ms_stats s))" by (auto simp: full_item_def)
  have ms_values: "row_get ?r1 (stat_field ''elapsed_ms'' k) \<noteq> VNone" if "k \<in> set stat_keys" for k
    unfolding stat [OF \<open>(''elapsed_ms'', si_elapsed_ms_stats) \<in> set stat_sources\<close> that] by (rule stats_dict_values [OF ms that])
  have "ensure_elapsed_ms_fields ?r1 = Inr ?r1"
    by (rule ensure_elapsed_same) (rule ms_values)
  moreover have rates: "\<exists>v. safe_div (row_get ?r1 num) (row_get ?r1 den) = Inr v" if "(f, num, den) \<in> set rate_fields" for f num den
  proof -
    have num: "\<exists>a. row_get ?r1 x = VNum a" if x: "x \<in> {num, den}" for x
    proof (rule rate_source [OF \<open>(f, num, den) \<in> set rate_fields\<close> x])
      fix p k assume "x = stat_field p k" "p \<in> fst ` set stat_sources" "k \<in> {''mean'', ''median''}"
      then show ?thesis using stat_number by simp
    qed
    from num [of num] num [of den] obtain a b where "row_get ?r1 num = VNum a" "row_get ?r1 den = VNum b" by auto
    then show ?thesis using safe_div_nums [of a b] by simp
  qed
  ultimately have row: "master_row (run_info path d) (VDict (summary_item_json s)) = Inr ?r2"
    by (simp add: master_row_def r0 prefix_loop [OF assms] add_rates_put del: val_get.simps)
  have names: "fst ` set (all_pairs s) = set stat_fields" "fst ` set (map (\<lambda>x. (fst x, rate_value ?r1 x)) rate_fields) = fst ` set rate_fields"
    using all_pairs_fields [of s] by (metis list.set_map, force)
  have keep1: "row_get ?r2 k = row_get r0 k" if "k \<in> set base_fields" for k
    using schema_parts(1) [OF that] names by (simp add: put_all_other)
  have keep2: "row_get ?r2 k = row_get ?r1 k" if "k \<in> set stat_fields" for k
    using schema_parts(2) [OF that] names by (simp add: put_all_other)
  have "val_get (stats_json (g s)) k VNone = Inr (row_get ?r2 (stat_field p k))"
    if mem: "(p, g) \<in> set stat_sources" and k: "k \<in> set stat_keys" for p g k
  proof -
    have "stat_field p k \<in> set stat_fields"
      using mem k all_pairs_fields [of s] by (force simp: stat_fields_def stat_sources_def stat_prefixes_def)
    then have "row_get ?r2 (stat_field p k) = row_get (stats_dict (the (g s))) k" using keep2 stat [OF mem k] by simp
    moreover obtain st where "g s = Some st" using bspec [OF assms [unfolded full_item_def] mem] by auto
    ultimately show ?thesis by (simp only: stats_json_get option.sel)
  qed
  moreover have "safe_div (row_get ?r2 num) (row_get ?r2 den) = Inr (row_get ?r2 f)"
    if "(f, num, den) \<in> set rate_fields" for f num den
  proof -
    have "num \<in> set stat_fields" "den \<in> set stat_fields" using rate_inputs that by (auto simp: list_all_iff)
    moreover have "row_get ?r2 f = rate_value ?r1 (f, num, den)"
    proof (rule put_all_value)
      have "distinct (map fst rate_fields)" using schema_distinct by (simp add: row_schema_def)
      then show "distinct (map fst (map (\<lambda>x. (fst x, rate_value ?r1 x)) rate_fields))" by (simp add: comp_def)
      show "(f, rate_value ?r1 (f, num, den)) \<in> set (map (\<lambda>x. (fst x, rate_value ?r1 x)) rate_fields)"
        using that by force
    qed
    ultimately show ?thesis using rates [OF that] keep2 by (auto simp: rate_value_def)
  qed
  ultimately have "reads_back path d s ?r2"
    unfolding reads_back_def using base by (auto simp: keep1 base_fields_def)
  with row show ?thesis by blast
qed

lemma file_rows_stored:
  assumes "summarize_results results = Inr items"
  shows "\<exists>rows. file_rows path (run_json d ''summary'' (map (\<lambda>s. VDict (summary_item_json s)) items)) = Inr rows
    \<and> list_all2 (reads_back path d) items rows"
proof -
  have "\<exists>rows. res_map (master_row (run_info path d)) (map (\<lambda>s. VDict (summary_item_json s)) ss) = Inr rows
      \<and> list_all2 (reads_back path d) ss rows" if "\<forall>s\<in>set ss. full_item s" for ss
    using that
  proof (induction ss)
    case (Cons s ss)
    then obtain row rows where "master_row (run_info path d) (VDict (summary_item_json s)) = Inr row" "reads_back path d s row"
      "res_map (master_row (run_info path d)) (map (\<lambda>s. VDict (summary_item_json s)) ss) = Inr rows"
      "list_all2 (reads_back path d) ss rows"
      using master_row_run [of s path d] by auto
    then show ?case by simp
  qed simp
  then show ?thesis using summary_full [OF assms] by (simp add: file_rows_run)
qed

definition case_row :: "pydict \<Rightarrow> bool" where
  "case_row row \<longleftrightarrow> (\<exists>l c t n. row_get row ''library_id'' = VStr l \<and> row_get row ''compiler'' = VStr c
     \<and> row_get row ''server_threads'' = VNum t \<and> row_get row ''parallel_bench_processes'' = VNum n)"

lemma reads_back_case_row: "reads_back path d s row \<Longrightarrow> case_row row"
  by (auto simp: reads_back_def case_row_def)

lemma case_row_key:
  assumes "case_row row"
  shows "\<exists>a l c t n. row_sort_key row = Inr [KNum a, KStr l, KStr c, KNum t, KNum n]"
proof -
  obtain l c t n where "row_get row ''library_id'' = VStr l" "row_get row ''compiler'' = VStr c"
     "row_get row ''server_threads'' = VNum t" "row_get row ''parallel_bench_processes'' = VNum n"
    using assms unfolding case_row_def by blast
  moreover have "text_key (VStr c) = Inr (KStr c)" by (simp add: text_key_def)
  ultimately show ?thesis by (simp add: row_sort_key_def number_key_def)
qed

lemma sort_rows_total:
  assumes "\<forall>row\<in>set rows. case_row row"
  shows "\<exists>rs. sort_rows rows = Inr rs"
proof -
  define K where "K row = projr (row_sort_key row)" for row
  have K: "row_sort_key row = Inr (K row) \<and> (\<exists>a l c t n. K row = [KNum a, KStr l, KStr c, KNum t, KNum n])"
    if "row \<in> set rows" for row
    using case_row_key [of row] assms that unfolding K_def by fastforce
  have "res_map (\<lambda>x. res_bind (row_sort_key x) (\<lambda>k. Inr (k, x))) rows = Inr (map (\<lambda>row. (K row, row)) rows)"
    by (rule res_map_total) (use K in simp)
  moreover have "comparable (K r) (K r')" if "r \<in> set rows" "r' \<in> set rows" for r r'
  proof -
    from K [OF that(1)] obtain a l c t n where "K r = [KNum a, KStr l, KStr c, KNum t, KNum n]" by blast
    moreover from K [OF that(2)] obtain a l c t n where "K r' = [KNum a, KStr l, KStr c, KNum t, KNum n]" by blast
    ultimately show ?thesis by simp
  qed
  ultimately show ?thesis
    by (simp add: sort_rows_def with_keys_def py_sort_by_def list_all_iff)
qed

text \<open>The files of runs: each holds the stored summary of a run.\<close>

definition holds_summary :: "'e os \<Rightarrow> string \<times> final_data \<times> summary_item list \<Rightarrow> bool" where
  "holds_summary os = (\<lambda>(path, d, items). (\<exists>results. summarize_results results = Inr items)
     \<and> (\<forall>e. fst (os_json os (Load_json path) e) = Inr (run_json d ''summary'' (map (\<lambda>s. VDict (summary_item_json s)) items))))"

lemma io_map_step: "f x w = (Inr y, w1) \<Longrightarrow> io_map f xs w1 = (Inr ys, w2) \<Longrightarrow> io_map f (x # xs) w = (Inr (y # ys), w2)"
  by (simp add: io_bind_def io_return_def)

lemma list_all2_hd: "list_all2 P xs ys \<Longrightarrow> xs \<noteq> [] \<Longrightarrow> ys \<noteq> [] \<and> P (hd xs) (hd ys)"
  by (cases xs; cases ys) auto

lemma stored_rows:
  assumes "\<forall>run\<in>set runs. holds_summary os run"
  shows "\<exists>rows rowss w'. build_master_rows os (map fst runs) w = (Inr rows, w') \<and> mset rows = mset (concat rowss)
    \<and> list_all2 (\<lambda>(path, d, items). list_all2 (reads_back path d) items) runs rowss"
proof -
  let ?read = "\<lambda>path. io_bind (sys_json os (Load_json path)) (\<lambda>data. io_of (file_rows path data))"
  have "\<exists>rowss w'. io_map ?read (map fst runs) w = (Inr rowss, w')
      \<and> list_all2 (\<lambda>(path, d, items). list_all2 (reads_back path d) items) runs rowss"
    using assms
  proof (induction runs arbitrary: w)
    case Nil
    then show ?case by (simp add: io_return_def)
  next
    case (Cons run runs)
    obtain path d items where run: "run = (path, d, items)" by (cases run)
    with Cons.prems obtain results where res: "summarize_results results = Inr items"
      and js: "\<And>e. fst (os_json os (Load_json path) e) = Inr (run_json d ''summary'' (map (\<lambda>s. VDict (summary_item_json s)) items))"
      by (auto simp: holds_summary_def)
    obtain e where e: "os_json os (Load_json path) (w_env w) = (Inr (run_json d ''summary'' (map (\<lambda>s. VDict (summary_item_json s)) items)), e)"
      using js by (metis prod.collapse)
    obtain rows where rows: "file_rows path (run_json d ''summary'' (map (\<lambda>s. VDict (summary_item_json s)) items)) = Inr rows"
      "list_all2 (reads_back path d) items rows" using file_rows_stored [OF res] by blast
    have "?read path w = (Inr rows, logged (Load_json path) e w)"
      by (simp add: io_bind_def io_of_def sys_json_def e rows(1))
    moreover obtain rowss w' where "io_map ?read (map fst runs) (logged (Load_json path) e w) = (Inr rowss, w')"
      "list_all2 (\<lambda>(path, d, items). list_all2 (reads_back path d) items) runs rowss"
      using Cons by fastforce
    ultimately have "io_map ?read (map fst (run # runs)) w = (Inr (rows # rowss), w')"
      unfolding run list.map fst_conv by (intro io_map_step)
    moreover have "list_all2 (\<lambda>(path, d, items). list_all2 (reads_back path d) items) (run # runs) (rows # rowss)"
      using rows(2) \<open>list_all2 _ runs rowss\<close> by (simp add: run)
    ultimately show ?case by blast
  qed
  then obtain rowss w' where 1: "io_map ?read (map fst runs) w = (Inr rowss, w')"
    and 2: "list_all2 (\<lambda>(path, d, items). list_all2 (reads_back path d) items) runs rowss" by blast
  have "\<forall>row\<in>set (concat rowss). case_row row"
    using 2
  proof (induction rule: list_all2_induct)
    case (Cons run runs rows rowss)
    obtain path d items where "list_all2 (reads_back path d) items rows" using Cons(1) by (cases run) auto
    then have "\<forall>row\<in>set rows. case_row row"
      by (induction rule: list_all2_induct) (auto intro: reads_back_case_row)
    with Cons(3) show ?case by auto
  qed simp
  from sort_rows_total [OF this] obtain rows where 3: "sort_rows (concat rowss) = Inr rows" by blast
  then have "mset rows = mset (concat rowss)" using sort_rows_props by blast
  moreover have "build_master_rows os (map fst runs) w = (Inr rows, w')"
    by (simp add: build_master_rows_def io_bind_def io_of_def 1 3)
  ultimately show ?thesis using 2 by blast
qed

text \<open>
  Claim C9. What the benchmark scripts store is read back: from the summary files of any runs the
  master table is built without an exception and has one row per summary line, that holds the
  line's case, the port of its compiler and all ninety statistics unchanged, and the derived
  rates are the quotients of its statistics.
\<close>

theorem summaries_read_back:
  assumes "\<forall>run\<in>set runs. holds_summary os run"
  shows "\<exists>rows rowss w'. build_master_rows os (map fst runs) w = (Inr rows, w') \<and> mset rows = mset (concat rowss)
    \<and> list_all2 (\<lambda>(path, d, items). list_all2 (reads_back path d) items) runs rowss"
  using stored_rows [OF assms] .

definition lab_os :: "summary_item list \<Rightarrow> sim os" where
  "lab_os items = sim_os\<lparr>os_json := (\<lambda>c s. (Inr (run_json sample_final ''summary'' (map (\<lambda>s. VDict (summary_item_json s)) items)), s))\<rparr>"

lemma lab_holds: "summarize_results sample_results = Inr items \<Longrightarrow> holds_summary (lab_os items) (path, sample_final, items)"
  by (auto simp: holds_summary_def lab_os_def)

lemma sample_items: "\<exists>items. summarize_results sample_results = Inr items \<and> items \<noteq> []"
proof -
  obtain items where items: "summarize_results sample_results = Inr items"
    using summarize_results_any [of sample_results] by (auto simp: sample_results_length)
  with summarize_results_lines(2) [OF items] sample_results_length show ?thesis
    by (cases sample_results) auto
qed

theorem summaries_read_back_witness:
  "\<exists>items rows row w'. summarize_results sample_results = Inr items
    \<and> build_master_rows (lab_os items) [''asio_summary.json''] (sim_world sim_start []) = (Inr rows, w')
    \<and> row \<in> set rows \<and> reads_back ''asio_summary.json'' sample_final (hd items) row"
proof -
  obtain items where items: "summarize_results sample_results = Inr items" "items \<noteq> []"
    using sample_items by blast
  from summaries_read_back [of "[(''asio_summary.json'', sample_final, items)]" "lab_os items" "sim_world sim_start []"] lab_holds [OF items(1)]
  obtain rows rs w' where "build_master_rows (lab_os items) [''asio_summary.json''] (sim_world sim_start []) = (Inr rows, w')"
    "mset rows = mset rs" "list_all2 (reads_back ''asio_summary.json'' sample_final) items rs"
    by (auto simp: list_all2_Cons1)
  moreover from this items(2) have "hd rs \<in> set rows" "reads_back ''asio_summary.json'' sample_final (hd items) (hd rs)"
    using list_all2_hd [OF _ items(2)] by (metis hd_in_set mset_eq_setD, blast)
  ultimately show ?thesis using items(1) by blast
qed

theorem master_rows_typed_witness:
  "\<exists>items rows w'. build_master_rows (lab_os items) [''asio_summary.json''] (sim_world sim_start []) = (Inr rows, w')
    \<and> rows \<noteq> [] \<and> (\<forall>row\<in>set rows. dict_keys row = row_schema)"
proof -
  obtain items where items: "summarize_results sample_results = Inr items" "items \<noteq> []"
    using sample_items by blast
  from stored_rows [of "[(''asio_summary.json'', sample_final, items)]" "lab_os items" "sim_world sim_start []"] lab_holds [OF items(1)]
  obtain rows rs w' where r: "build_master_rows (lab_os items) [''asio_summary.json''] (sim_world sim_start []) = (Inr rows, w')"
    "mset rows = mset rs" "list_all2 (reads_back ''asio_summary.json'' sample_final) items rs"
    by (auto simp: list_all2_Cons1)
  have "rows \<noteq> []" using list_all2_hd [OF r(3) items(2)] r(2) by auto
  with r(1) master_rows_typed [OF r(1)] show ?thesis by blast
qed

end
