(* ===== verification/Master_Best.thy ===== *)
theory Master_Best
  imports Master_Correct
begin

text \<open>
  Correctness of \<open>build_best_by_case\<close>: the winners of every case, with ties and missing values, and
  an observation on \<open>ensure_elapsed_ms_fields\<close>.
\<close>

section \<open>The best library per case\<close>

lemma max_by_first:
  "\<exists>us vs. m # xs = us @ max_by f m xs # vs \<and> (\<forall>u\<in>set us. f u < f (max_by f m xs))"
proof (induction xs arbitrary: m)
  case Nil
  show ?case by (intro exI [of _ "[]"]) simp
next
  case (Cons y xs)
  define z where "z = (if f m < f y then y else m)"
  obtain us vs where z: "z # xs = us @ max_by f z xs # vs" "\<forall>u\<in>set us. f u < f (max_by f z xs)"
    using Cons.IH by blast
  have top: "f z \<le> f (max_by f z xs)" by (rule max_by_ge) simp
  have r: "max_by f m (y # xs) = max_by f z xs" by (simp add: z_def)
  consider "f m < f y" | "\<not> f m < f y" "us = []" | u us' where "\<not> f m < f y" "us = u # us'" by (cases us) auto
  then show ?case
  proof cases
    case 1
    then have "m # y # xs = (m # us) @ max_by f z xs # vs" using z(1) by (simp add: z_def)
    moreover have "f m < f (max_by f z xs)" using 1 top by (simp add: z_def)
    ultimately show ?thesis unfolding r using z(2) by (metis set_ConsD)
  next
    case 2
    then have "m = max_by f z xs" using z(1) by (auto simp: z_def)
    then show ?thesis unfolding r by (metis append_Nil empty_iff list.set(1))
  next
    case 3
    then have "m # y # xs = (m # y # us') @ max_by f z xs # vs" "f m < f (max_by f z xs)"
      using z by (auto simp: z_def)
    moreover from this 3 have "\<forall>u\<in>set (m # y # us'). f u < f (max_by f z xs)" using z(2) by auto
    ultimately show ?thesis unfolding r by blast
  qed
qed

text \<open>The first row with the smallest (largest) value; rows without a value lose to all others.\<close>

definition value_of :: "string \<Rightarrow> pydict \<Rightarrow> rat option" where
  "value_of field row = projr (metric_of field row)"

definition first_lowest :: "string \<Rightarrow> pydict list \<Rightarrow> pydict \<Rightarrow> bool" where
  "first_lowest field items row \<longleftrightarrow> (\<exists>us vs. items = us @ row # vs
     \<and> (\<forall>u\<in>set us. or_inf (value_of field row) < or_inf (value_of field u))
     \<and> (\<forall>u\<in>set items. or_inf (value_of field row) \<le> or_inf (value_of field u)))"

definition first_highest :: "string \<Rightarrow> pydict list \<Rightarrow> pydict \<Rightarrow> bool" where
  "first_highest field items row \<longleftrightarrow> (\<exists>us vs. items = us @ row # vs
     \<and> (\<forall>u\<in>set us. or_minus_inf (value_of field u) < or_minus_inf (value_of field row))
     \<and> (\<forall>u\<in>set items. or_minus_inf (value_of field u) \<le> or_minus_inf (value_of field row)))"

lemma keyed_values:
  assumes "with_keys (metric_of field) items = Inr keyed"
  shows "items = map snd keyed" "p \<in> set keyed \<Longrightarrow> fst p = value_of field (snd p)"
  using with_keys_props [OF assms] by (auto simp: value_of_def)

lemma lowest_first:
  assumes "lowest field items = Inr row"
  shows "first_lowest field items row"
proof -
  obtain keyed best where k: "with_keys (metric_of field) items = Inr keyed"
    "py_min (\<lambda>p. or_inf (fst p)) keyed = Inr best" "row = snd best"
    using assms by (auto simp: lowest_def res_bind_eq_Inr)
  note vals = keyed_values [OF k(1)]
  obtain p ps where ps: "keyed = p # ps" "best = min_by (\<lambda>p. or_inf (fst p)) p ps"
    using k(2) by (auto simp: py_min_def split: list.splits)
  obtain us vs where us: "keyed = us @ best # vs" "\<forall>u\<in>set us. or_inf (fst best) < or_inf (fst u)"
    using min_by_first [of p ps "\<lambda>p. or_inf (fst p)"] unfolding ps by blast
  have "\<forall>u\<in>set keyed. or_inf (fst best) \<le> or_inf (fst u)"
    using min_by_all [of p ps "\<lambda>p. or_inf (fst p)"] unfolding ps by simp
  with us vals k(3) show ?thesis
    unfolding first_lowest_def by (intro exI [of _ "map snd us"] exI [of _ "map snd vs"]) auto
qed

lemma highest_first:
  assumes "highest field items = Inr row"
  shows "first_highest field items row"
proof -
  obtain keyed best where k: "with_keys (metric_of field) items = Inr keyed"
    "py_max (\<lambda>p. or_minus_inf (fst p)) keyed = Inr best" "row = snd best"
    using assms by (auto simp: highest_def res_bind_eq_Inr)
  note vals = keyed_values [OF k(1)]
  obtain p ps where ps: "keyed = p # ps" "best = max_by (\<lambda>p. or_minus_inf (fst p)) p ps"
    using k(2) by (auto simp: py_max_def split: list.splits)
  obtain us vs where us: "keyed = us @ best # vs" "\<forall>u\<in>set us. or_minus_inf (fst u) < or_minus_inf (fst best)"
    using max_by_first [of p ps "\<lambda>p. or_minus_inf (fst p)"] unfolding ps by blast
  have "\<forall>u\<in>set keyed. or_minus_inf (fst u) \<le> or_minus_inf (fst best)"
    using max_by_all [of p ps "\<lambda>p. or_minus_inf (fst p)"] unfolding ps by simp
  with us vals k(3) show ?thesis
    unfolding first_highest_def by (intro exI [of _ "map snd us"] exI [of _ "map snd vs"]) auto
qed

text \<open>An entry names the winners among the rows of its case and repeats their values.\<close>

definition names_winners :: "pydict list \<Rightarrow> pydict \<Rightarrow> bool" where
  "names_winners items entry \<longleftrightarrow>
     (\<exists>row. first_lowest ''elapsed_ms_mean'' items row \<and> row_get entry ''best_time_library_id'' = row_get row ''library_id''
        \<and> row_get entry ''best_time_elapsed_ms_mean'' = row_get row ''elapsed_ms_mean'')
   \<and> (\<exists>row. first_lowest ''energy_j_mean'' items row \<and> row_get entry ''best_energy_library_id'' = row_get row ''library_id''
        \<and> row_get entry ''best_energy_j_mean'' = row_get row ''energy_j_mean'')
   \<and> (\<exists>row. first_highest ''throughput_mib_s_mean'' items row \<and> row_get entry ''best_throughput_library_id'' = row_get row ''library_id''
        \<and> row_get entry ''best_throughput_mib_s_mean'' = row_get row ''throughput_mib_s_mean'')
   \<and> (\<exists>row. first_highest ''throughput_per_joule_mean'' items row \<and> row_get entry ''best_efficiency_library_id'' = row_get row ''library_id''
        \<and> row_get entry ''best_throughput_per_joule_mean'' = row_get row ''throughput_per_joule_mean'')"

lemma best_entry_winners:
  assumes "best_entry items = Inr entry"
  shows "names_winners items entry" "case_labels entry = case_labels (hd items)"
proof -
  obtain t e th ef where w: "lowest ''elapsed_ms_mean'' items = Inr t" "lowest ''energy_j_mean'' items = Inr e"
    "highest ''throughput_mib_s_mean'' items = Inr th" "highest ''throughput_per_joule_mean'' items = Inr ef"
    using assms by (auto simp: best_entry_def Let_def res_bind_eq_Inr)
  let ?fields = "\<lambda>n v row. [(''best_'' @ n @ ''_library'', row_get row ''library''),
     (''best_'' @ n @ ''_library_id'', row_get row ''library_id''), (''best_'' @ v, row_get row v)]"
  have entry: "entry = [(''compiler'', row_get (hd items) ''compiler''), (''server_threads'', row_get (hd items) ''server_threads''),
      (''parallel_bench_processes'', row_get (hd items) ''parallel_bench_processes''),
      (''best_time_library'', row_get t ''library''), (''best_time_library_id'', row_get t ''library_id''),
      (''best_time_elapsed_ms_mean'', row_get t ''elapsed_ms_mean'')]
      @ ?fields ''energy'' ''energy_j_mean'' e @ ?fields ''throughput'' ''throughput_mib_s_mean'' th
      @ ?fields ''efficiency'' ''throughput_per_joule_mean'' ef"
    using assms unfolding best_entry_def by (simp add: Let_def w)
  note first = lowest_first [OF w(1)] lowest_first [OF w(2)] highest_first [OF w(3)] highest_first [OF w(4)]
  show "names_winners items entry" unfolding names_winners_def
    by (intro conjI; rule exI, rule conjI, rule first; simp add: entry row_get_Cons)
  show "case_labels entry = case_labels (hd items)"
    by (simp add: case_labels_def entry row_get_Cons)
qed

lemma keyed_group:
  "with_keys f xs = Inr keyed \<Longrightarrow> map snd (filter (\<lambda>p. fst p = k) keyed) = filter (\<lambda>x. f x = Inr k) xs"
  unfolding with_keys_def by (induction xs arbitrary: keyed) (auto simp: res_bind_eq_Inr)

lemma best_by_case_groups:
  assumes "build_best_by_case rows = Inr entries"
  shows "\<exists>keys. distinct keys \<and> sorted keys \<and> set keys = {k. \<exists>row\<in>set rows. case_labels row = Inr k}
    \<and> list_all2 (\<lambda>k entry. best_entry (filter (\<lambda>row. case_labels row = Inr k) rows) = Inr entry) keys entries"
proof -
  obtain keyed groups where k: "with_keys case_labels rows = Inr keyed" "groups = sort_key fst (group_by fst keyed)"
    "res_map (\<lambda>(_, items). best_entry (map snd items)) groups = Inr entries"
    using assms by (auto simp: build_best_by_case_def py_sort_by_def res_bind_eq_Inr split: if_splits)
  note p = with_keys_props [OF k(1)]
  let ?keys = "map fst groups"
  have "distinct ?keys"
    using sorted_key_distinct_strict [of fst "group_by fst keyed"] group_by_distinct [of fst keyed]
    by (simp add: k(2) dict_keys_def strict_sorted_iff)
  moreover have "sorted ?keys" by (simp add: k(2))
  moreover have "set ?keys = {k. \<exists>row\<in>set rows. case_labels row = Inr k}"
  proof -
    have "set ?keys = fst ` set keyed" using group_by_keys [of fst keyed] by (simp add: k(2) dict_keys_def)
    also have "\<dots> = {k. \<exists>row\<in>set rows. case_labels row = Inr k}" using p by force
    finally show ?thesis .
  qed
  moreover have "list_all2 (\<lambda>k entry. best_entry (filter (\<lambda>row. case_labels row = Inr k) rows) = Inr entry) ?keys entries"
  proof (rule list_all2_all_nthI)
    show len: "length ?keys = length entries" using res_map_length [OF k(3)] by simp
    fix i assume i: "i < length ?keys"
    obtain c items where g: "groups ! i = (c, items)" by (cases "groups ! i")
    then have "(c, items) \<in> set (group_by fst keyed)" using i k(2) by (metis length_map nth_mem set_sort)
    then have "items = filter (\<lambda>p. fst p = c) keyed"
      using py_group.grp_mem_iff [of c items fst keyed] by simp
    then have "map snd items = filter (\<lambda>row. case_labels row = Inr c) rows" using keyed_group [OF k(1)] by simp
    then show "best_entry (filter (\<lambda>row. case_labels row = Inr (?keys ! i)) rows) = Inr (entries ! i)"
      using res_map_nth [OF k(3), of i] i g by simp
  qed
  ultimately show ?thesis by blast
qed

text \<open>
  Claim C13. \<open>build_best_by_case\<close> has one entry per case that occurs, in the order of the cases, and each
  names the winners among the rows of exactly its case: the first row with the smallest mean time
  and energy and the first with the largest mean throughput and throughput per joule, where a row
  without a value never wins over one that has it.
\<close>

theorem best_by_case_optimal:
  assumes "build_best_by_case rows = Inr entries"
  shows "\<exists>keys. distinct keys \<and> sorted keys \<and> set keys = {k. \<exists>row\<in>set rows. case_labels row = Inr k}
    \<and> list_all2 (\<lambda>k entry. case_labels entry = Inr k
        \<and> names_winners (filter (\<lambda>row. case_labels row = Inr k) rows) entry) keys entries"
proof -
  obtain keys where keys: "distinct keys" "sorted keys" "set keys = {k. \<exists>row\<in>set rows. case_labels row = Inr k}"
    "list_all2 (\<lambda>k entry. best_entry (filter (\<lambda>row. case_labels row = Inr k) rows) = Inr entry) keys entries"
    using best_by_case_groups [OF assms] by blast
  have "case_labels entry = Inr k \<and> names_winners (filter (\<lambda>row. case_labels row = Inr k) rows) entry"
    if "k \<in> set keys" "best_entry (filter (\<lambda>row. case_labels row = Inr k) rows) = Inr entry" for k entry
  proof -
    have "filter (\<lambda>row. case_labels row = Inr k) rows \<noteq> []" using that(1) keys(3) by (auto simp: filter_empty_conv)
    from hd_in_set [OF this] have "case_labels (hd (filter (\<lambda>row. case_labels row = Inr k) rows)) = Inr k" by simp
    with best_entry_winners [OF that(2)] show ?thesis by simp
  qed
  then have "list_all2 (\<lambda>k entry. case_labels entry = Inr k
      \<and> names_winners (filter (\<lambda>row. case_labels row = Inr k) rows) entry) keys entries"
    by (rule list.rel_mono_strong [OF keys(4)])
  with keys show ?thesis by blast
qed

definition measured_row :: "string \<Rightarrow> string \<Rightarrow> int \<Rightarrow> rat \<Rightarrow> pydict" where
  "measured_row l c t ms = [(''library'', VStr l), (''library_id'', VStr l), (''compiler'', VStr c), (''server_threads'', VNum (PInt t)),
     (''parallel_bench_processes'', VNum (PInt 1)), (''elapsed_ms_mean'', VNum (PFlt ms)), (''energy_j_mean'', VNone)]"

theorem best_by_case_optimal_witness:
  "\<exists>e1 e2. build_best_by_case [measured_row ''asio'' ''gcc'' 2 5, measured_row ''x'' ''gcc'' 1 7, measured_row ''taps-asio'' ''gcc'' 2 4] = Inr [e1, e2]
    \<and> row_get e2 ''best_time_library_id'' = VStr ''taps-asio'' \<and> case_labels e1 = Inr [KStr ''gcc'', KNum 1, KNum 1]"
proof -
  let ?rows = "[measured_row ''asio'' ''gcc'' 2 5, measured_row ''x'' ''gcc'' 1 7, measured_row ''taps-asio'' ''gcc'' 2 4]"
  have run: "(case build_best_by_case ?rows of Inr [e1, e2] \<Rightarrow> row_get e2 ''best_time_library_id'' = VStr ''taps-asio''
      \<and> row_get e1 ''best_time_library_id'' = VStr ''x'' | _ \<Rightarrow> False)" by code_simp
  then obtain e1 e2 where e: "build_best_by_case ?rows = Inr [e1, e2]" "row_get e2 ''best_time_library_id'' = VStr ''taps-asio''"
    by (auto split: sum.splits list.splits)
  from best_by_case_optimal [OF e(1)] obtain keys where keys: "sorted keys" "distinct keys"
    "set keys = {k. \<exists>row\<in>set ?rows. case_labels row = Inr k}" "list_all2 (\<lambda>k entry. case_labels entry = Inr k
        \<and> names_winners (filter (\<lambda>row. case_labels row = Inr k) ?rows) entry) keys [e1, e2]" by blast
  have labels: "case_labels (measured_row l ''gcc'' t ms) = Inr [KStr ''gcc'', KNum (of_int t), KNum 1]" for l t ms
    by (simp add: case_labels_def measured_row_def row_get_def)
  obtain k1 k2 where k: "keys = [k1, k2]" "case_labels e1 = Inr k1" using keys(4) by (auto simp: list_all2_Cons2 simp del: filter.simps)
  have "set keys = {[KStr ''gcc'', KNum 2, KNum 1], [KStr ''gcc'', KNum 1, KNum 1]}"
    by (auto simp: keys(3) labels)
  then have "k1 = [KStr ''gcc'', KNum 1, KNum 1]"
    using keys(1,2) by (auto simp: k doubleton_eq_iff less_eq_key_val_def less_key_val_def)
  with e k show ?thesis by blast
qed

text \<open>
  A missing mean time in milliseconds is filled in from the seconds, and so is the number of
  runs: \<open>ensure_elapsed_ms_fields\<close> multiplies the count by 1000 as well.
\<close>

theorem elapsed_count_scaled:
  "ensure_elapsed_ms_fields [(''elapsed_s_count'', VNum (PInt 5)), (''elapsed_s_mean'', VNum (PInt 2))]
   = Inr [(''elapsed_s_count'', VNum (PInt 5)), (''elapsed_s_mean'', VNum (PInt 2)),
          (''elapsed_ms_count'', VNum (PFlt 5000)), (''elapsed_ms_mean'', VNum (PFlt 2000))]"
  by code_simp

end
