(* ===== verification/Py_Repr.thy ===== *)
theory Py_Repr
  imports Py_Text
begin

text \<open>
  \<open>str\<close> and \<open>repr\<close> of the values that reach the labels, titles and texts of the master
  report: \<open>None\<close>, booleans, numbers and strings.  The scripts only label plots with integers
  and names, but a summary file may hold any number, so a float is printed as Python does:
  the shortest decimal that reads back as the same binary64 value.
\<close>

section \<open>Floats\<close>

text \<open>The exponent \<open>e\<close> with \<open>10 ^ e \<le> x < 10 ^ (e + 1)\<close>, for a positive \<open>x\<close>.\<close>

definition dec_exponent :: "rat \<Rightarrow> int" where
  "dec_exponent x =
     (if 1 \<le> x then int (length (show_pos \<lfloor>x\<rfloor>)) - 1
      else - int (length (show_pos (\<lceil>1 / x\<rceil> - 1))))"

definition scale10 :: "int \<Rightarrow> rat \<Rightarrow> rat" where
  "scale10 k x = (if 0 \<le> k then x * 10 ^ nat k else x / 10 ^ nat (- k))"

text \<open>
  The decimals with \<open>n\<close> digits next to \<open>x\<close> that read back as \<open>x\<close>, as a pair of digits \<open>d\<close> and
  exponent \<open>k\<close> (the value is \<open>d * 10 ^ k\<close>), the nearer one first.
\<close>

definition digit_candidates :: "nat \<Rightarrow> rat \<Rightarrow> (int \<times> int) list" where
  "digit_candidates n x =
     (let k = dec_exponent x - int n + 1; s = scale10 (- k) x
      in filter (\<lambda>(d, k). b64 (scale10 k (of_int d)) = x)
           (map (\<lambda>d. (d, k)) (if s - of_int \<lfloor>s\<rfloor> \<le> of_int \<lceil>s\<rceil> - s then [\<lfloor>s\<rfloor>, \<lceil>s\<rceil>] else [\<lceil>s\<rceil>, \<lfloor>s\<rfloor>])))"

text \<open>Seventeen digits are always enough for a binary64 value.\<close>

fun shortest_among :: "rat \<Rightarrow> nat list \<Rightarrow> int \<times> int" where
  "shortest_among x [] = (0, 0)"
| "shortest_among x (n # ns) = (case digit_candidates n x of [] \<Rightarrow> shortest_among x ns | c # cs \<Rightarrow> c)"

definition shortest_digits :: "rat \<Rightarrow> int \<times> int" where
  "shortest_digits x = shortest_among x [1..<18]"

text \<open>
  The digits without trailing zeros and the position of the decimal point relative to their
  start; fixed notation for positions from -3 to 16, an exponent of at least two digits
  otherwise.
\<close>

definition place_point :: "string \<Rightarrow> int \<Rightarrow> string" where
  "place_point ds p =
     (if - 4 < p \<and> p \<le> 16 then
        (if p \<le> 0 then ''0.'' @ replicate (nat (- p)) CHR ''0'' @ ds
         else if int (length ds) \<le> p then ds @ replicate (nat p - length ds) CHR ''0'' @ ''.0''
         else take (nat p) ds @ ''.'' @ drop (nat p) ds)
      else take 1 ds @ (if length ds = 1 then [] else ''.'' @ drop 1 ds)
        @ ''e'' @ (if p - 1 < 0 then ''-'' else ''+'') @ pad_left 2 (show_pos \<bar>p - 1\<bar>))"

definition repr_float :: "rat \<Rightarrow> string" where
  "repr_float x =
     (if x = 0 then ''0.0''
      else case shortest_digits \<bar>x\<bar> of (d, k) \<Rightarrow>
        let ds = show_pos d
        in (if x < 0 then ''-'' else []) @
           place_point (rev (dropWhile (\<lambda>c. c = CHR ''0'') (rev ds))) (int (length ds) + k))"

lemma repr_float_examples:
  "repr_float (b64 (1 / 10)) = ''0.1''" "repr_float 4 = ''4.0''" "repr_float (- 5 / 2) = ''-2.5''"
  "repr_float (b64 (123 / 10 ^ 7)) = ''1.23e-05''"
  by code_simp+

section \<open>Values\<close>

definition show_num :: "pynum \<Rightarrow> string" where
  "show_num a = (case a of PInt i \<Rightarrow> show_int i | PFlt x \<Rightarrow> repr_float x)"

text \<open>
  \<open>repr\<close> of an ASCII string: in single quotes unless it has single but no double quotes; the
  backslash, the quote and the control characters are escaped.
\<close>

definition hex_digit :: "nat \<Rightarrow> char" where
  "hex_digit n = ''0123456789abcdef'' ! n"

definition repr_char :: "char \<Rightarrow> char \<Rightarrow> string" where
  "repr_char quote c =
     (let n = of_char c :: nat; bs = CHR 0x5C
      in if c = quote \<or> c = bs then [bs, c]
         else if n = 10 then [bs, CHR ''n''] else if n = 13 then [bs, CHR ''r''] else if n = 9 then [bs, CHR ''t'']
         else if n < 32 \<or> n = 127 then [bs, CHR ''x'', hex_digit (n div 16), hex_digit (n mod 16)]
         else [c])"

definition repr_str :: "string \<Rightarrow> string" where
  "repr_str s =
     (let quote = if CHR 0x27 \<in> set s \<and> CHR 0x22 \<notin> set s then CHR 0x22 else CHR 0x27
      in quote # concat (map (repr_char quote) s) @ [quote])"

text \<open>Lists and dictionaries reach no text of the master report (they are rejected before).\<close>

fun val_repr :: "pyval \<Rightarrow> string py" where
  "val_repr VNone = Inr ''None''"
| "val_repr (VBool b) = Inr (if b then ''True'' else ''False'')"
| "val_repr (VNum a) = Inr (show_num a)"
| "val_repr (VStr s) = Inr (repr_str s)"
| "val_repr _ = Inl TypeError"

fun val_str :: "pyval \<Rightarrow> string py" where
  "val_str (VStr s) = Inr s"
| "val_str v = val_repr v"

end
