(* ===== verification/Master_Report.thy ===== *)
theory Master_Report
  imports Master_Best Reports Py_Repr
begin

text \<open>
  The plots, the PDF report and \<open>main\<close> of \<open>build_master_summary.py\<close>.  The labels of a row
  (compiler, threads, clients) are any values a JSON file can hold, so equality, sorting and
  printing follow Python's dynamic rules; a missing column of a row reads as \<open>None\<close> (every row
  has all columns, by \<open>master_row_schema\<close>).
\<close>

section \<open>Texts and table rows\<close>

text \<open>\<open>fmt\<close> on dynamic values: a \<open>bool\<close> is an \<open>int\<close>, a text has no fixed-point format.\<close>

fun master_fmt :: "pyval \<Rightarrow> string py" where
  "master_fmt VNone = Inr ''-''"
| "master_fmt (VBool b) = val_str (VBool b)"
| "master_fmt (VNum (PInt i)) = Inr (show_int i)"
| "master_fmt (VNum (PFlt x)) = Inr (fmt_fixed 4 x)"
| "master_fmt (VStr s) = Inl ValueError"
| "master_fmt _ = Inl TypeError"

text \<open>A table cell shows \<open>None\<close> as an empty text and everything else by \<open>str\<close>.\<close>

definition cell_text :: "pyval \<Rightarrow> string py" where
  "cell_text v = (if v = VNone then Inr [] else val_str v)"

text \<open>A table row: every field with the function that turns it into a text.\<close>

definition text_row :: "((pyval \<Rightarrow> string py) \<times> string) list \<Rightarrow> pydict \<Rightarrow> string list py" where
  "text_row spec item = res_map (\<lambda>(f, field). f (row_get item field)) spec"

definition overview_fields :: "((pyval \<Rightarrow> string py) \<times> string) list" where
  "overview_fields =
     [(cell_text, ''library''), (val_str, ''cases''),
      (master_fmt, ''average_elapsed_ms_mean''), (master_fmt, ''average_energy_j_mean''),
      (master_fmt, ''average_throughput_mib_s_mean''), (master_fmt, ''average_throughput_per_joule_mean''),
      (master_fmt, ''best_elapsed_ms_mean''), (master_fmt, ''best_energy_j_mean''),
      (master_fmt, ''best_throughput_mib_s_mean''), (master_fmt, ''best_throughput_per_joule_mean'')]"

definition build_overview_rows :: "pydict list \<Rightarrow> string list list py" where
  "build_overview_rows library_overview = res_map (text_row overview_fields) library_overview"

definition best_case_fields :: "((pyval \<Rightarrow> string py) \<times> string) list" where
  "best_case_fields =
     [(cell_text, ''compiler''), (val_str, ''server_threads''), (val_str, ''parallel_bench_processes''),
      (cell_text, ''best_time_library''), (master_fmt, ''best_time_elapsed_ms_mean''),
      (cell_text, ''best_energy_library''), (master_fmt, ''best_energy_j_mean''),
      (cell_text, ''best_throughput_library''), (master_fmt, ''best_throughput_mib_s_mean''),
      (cell_text, ''best_efficiency_library''), (master_fmt, ''best_throughput_per_joule_mean'')]"

definition build_best_case_rows :: "pydict list \<Rightarrow> string list list py" where
  "build_best_case_rows best_by_case = res_map (text_row best_case_fields) best_by_case"

section \<open>Distinct values\<close>

text \<open>A set keeps the first of the values that are equal (\<open>1\<close>, \<open>1.0\<close> and \<open>True\<close> are).\<close>

definition first_of_key :: "('k \<times> 'v) list \<Rightarrow> ('k, 'v) dict" where
  "first_of_key kvs = fold (\<lambda>(k, v) d. case dict_get d k of None \<Rightarrow> dict_set k v d | Some _ \<Rightarrow> d) kvs []"

definition sorted_set :: "('k \<Rightarrow> key_val list) \<Rightarrow> ('k \<times> 'v) list \<Rightarrow> ('k \<times> 'v) list py" where
  "sorted_set key kvs = py_sort_by (\<lambda>p. key (fst p)) (first_of_key kvs)"

definition display_key :: "key_val \<Rightarrow> key_val list" where
  "display_key k =
     (case k of KStr s \<Rightarrow> [KNum (of_nat (fst (library_display_sort_key s))), KStr s] | _ \<Rightarrow> [KNum (of_nat (length library_order)), k])"

definition unique_values :: "pydict list \<Rightarrow> string \<Rightarrow> pyval list py" where
  "unique_values rows key =
     res_bind (with_keys val_key (filter (\<lambda>v. v \<noteq> VNone) (map (\<lambda>row. row_get row key) rows))) (\<lambda>keyed.
     res_bind (sorted_set (if key = ''library'' then display_key else (\<lambda>k. [k])) keyed) (\<lambda>values.
       Inr (map snd values)))"

definition sanitize_filename :: "string \<Rightarrow> string" where
  "sanitize_filename txt = map (\<lambda>c. if c = CHR '' '' \<or> c = CHR ''/'' \<or> c = CHR 0x5C then CHR ''_'' else c) txt"

text \<open>\<open>==\<close> of dynamic values: by value for numbers and booleans.\<close>

definition py_eq :: "pyval \<Rightarrow> pyval \<Rightarrow> bool" where
  "py_eq v u =
     (case (val_key v, val_key u) of (Inr a, Inr b) \<Rightarrow> a = b | (Inl _, Inl _) \<Rightarrow> v = u | _ \<Rightarrow> False)"

section \<open>Plots\<close>

text \<open>
  The case of a row: the values of its label fields, with the key that identifies them in a
  set.  The plots by case, by compiler and by server threads differ in the label fields, the
  rows they select and the tick labels.
\<close>

definition row_case :: "string list \<Rightarrow> pydict \<Rightarrow> (key_val list \<times> pyval list) py" where
  "row_case labels row =
     res_bind (res_map (\<lambda>f. val_key (row_get row f)) labels) (\<lambda>k. Inr (k, map (row_get row) labels))"

definition sorted_cases :: "string list \<Rightarrow> pydict list \<Rightarrow> pyval list list py" where
  "sorted_cases labels rows =
     res_bind (res_map (row_case labels) rows) (\<lambda>keyed.
     res_bind (sorted_set (\<lambda>k. k) keyed) (\<lambda>cases. Inr (map snd cases)))"

text \<open>\<open>next((r for r in rows if ...), None)\<close> and \<open>match.get(metric_field) if match else None\<close>.\<close>

definition case_value :: "string list \<Rightarrow> pydict list \<Rightarrow> pyval \<Rightarrow> string \<Rightarrow> pyval list \<Rightarrow> pyval" where
  "case_value labels rows library metric_field cs =
     (case find (\<lambda>r. py_eq (row_get r ''library'') library
                    \<and> list_all2 (\<lambda>f v. py_eq (row_get r f) v) labels cs) rows of
        None \<Rightarrow> VNone | Some r \<Rightarrow> row_get r metric_field)"

definition value_line :: "pyval \<Rightarrow> pyval list \<Rightarrow> draw list py" where
  "value_line library ys =
     (let points = filter (\<lambda>(x, y). y \<noteq> VNone) (enumerate 0 ys)
      in if points = [] then Inr []
         else res_bind (val_str library) (\<lambda>name.
           Inr [Line (map (\<lambda>(x, _). VNum (PInt (int x))) points) (map snd points) name 2 (library_color name)]))"

definition close_plot :: "string \<Rightarrow> string \<Rightarrow> string \<Rightarrow> draw list \<Rightarrow> string \<Rightarrow> draw list" where
  "close_plot x_label y_label title ticks output_path =
     [Xlabel x_label, Ylabel y_label, Title title] @ ticks
     @ [Grid (b64 (35 / 100)), Legend, Tight_layout, Savefig output_path, Close_figure]"

text \<open>\<open>f"T={server_threads}, C={parallel_clients}"\<close>: the parts before each value.\<close>

definition tick_label :: "string list \<Rightarrow> pyval list \<Rightarrow> string py" where
  "tick_label marks cs =
     res_bind (res_map (\<lambda>(pre, v). res_bind (val_str v) (\<lambda>s. Inr (pre @ s))) (zip marks cs)) (\<lambda>parts.
       Inr (join_str '', '' parts))"

definition case_plot ::
    "'e os \<Rightarrow> pydict list \<Rightarrow> pydict list \<Rightarrow> (string \<times> string) list \<Rightarrow> string \<Rightarrow> string \<Rightarrow> string \<Rightarrow> string \<Rightarrow> ('e, unit) io" where
  "case_plot os rows selected_rows labels metric_field y_label title output_path =
     io_bind (io_of (unique_values rows ''library'')) (\<lambda>libraries.
     io_bind (io_of (sorted_cases (map fst labels) selected_rows)) (\<lambda>cases.
     io_bind (io_of (res_map (\<lambda>library.
         value_line library (map (case_value (map fst labels) selected_rows library metric_field) cases)) libraries)) (\<lambda>lines.
     io_bind (io_of (res_map (tick_label (map snd labels)) cases)) (\<lambda>ticks.
       sys_unit os (Draw (Figure 13 7 # concat lines
         @ close_plot ''Benchmark case'' y_label title
             [Xticks (map (\<lambda>i. VNum (PInt (int i))) [0..<length cases]) (Some ticks)] output_path))))))"

definition plot_metric_grouped_by_case :: "'e os \<Rightarrow> pydict list \<Rightarrow> string \<Rightarrow> string \<Rightarrow> string \<Rightarrow> string \<Rightarrow> ('e, unit) io" where
  "plot_metric_grouped_by_case os rows metric_field y_label title output_path =
     case_plot os rows rows
       [(''compiler'', []), (''server_threads'', ''T=''), (''parallel_bench_processes'', ''C='')]
       metric_field y_label title output_path"

definition plot_metric_by_compiler ::
    "'e os \<Rightarrow> pydict list \<Rightarrow> pyval \<Rightarrow> string \<Rightarrow> string \<Rightarrow> string \<Rightarrow> string \<Rightarrow> ('e, unit) io" where
  "plot_metric_by_compiler os rows compiler metric_field y_label title output_path =
     case_plot os rows (filter (\<lambda>r. py_eq (row_get r ''compiler'') compiler) rows)
       [(''server_threads'', ''T=''), (''parallel_bench_processes'', ''C='')]
       metric_field y_label title output_path"

definition plot_metric_by_server_threads ::
    "'e os \<Rightarrow> pydict list \<Rightarrow> pyval \<Rightarrow> string \<Rightarrow> string \<Rightarrow> string \<Rightarrow> string \<Rightarrow> ('e, unit) io" where
  "plot_metric_by_server_threads os rows server_threads metric_field y_label title output_path =
     case_plot os rows (filter (\<lambda>r. py_eq (row_get r ''server_threads'') server_threads) rows)
       [(''compiler'', []), (''parallel_bench_processes'', ''C='')]
       metric_field y_label title output_path"

text \<open>This plot is defined in the script, which never draws it.\<close>

definition library_series :: "pydict list \<Rightarrow> string \<Rightarrow> pyval \<Rightarrow> draw list py" where
  "library_series rows metric_field library =
     res_bind (with_keys (\<lambda>r. res_map (\<lambda>f. val_key (row_get r f)) [''parallel_bench_processes'', ''server_threads'', ''compiler''])
       (filter (\<lambda>r. py_eq (row_get r ''library'') library) rows)) (\<lambda>keyed.
     res_bind (py_sort_by fst keyed) (\<lambda>selected.
       value_line library (map (\<lambda>p. row_get (snd p) metric_field) selected)))"

definition plot_metric_all_libraries :: "'e os \<Rightarrow> pydict list \<Rightarrow> string \<Rightarrow> string \<Rightarrow> string \<Rightarrow> string \<Rightarrow> ('e, unit) io" where
  "plot_metric_all_libraries os rows metric_field y_label title output_path =
     io_bind (io_of (unique_values rows ''library'')) (\<lambda>libraries.
     io_bind (io_of (res_map (library_series rows metric_field) libraries)) (\<lambda>lines.
       sys_unit os (Draw (Figure 11 7 # concat lines
         @ close_plot ''Ordered benchmark configuration index'' y_label title [] output_path))))"

section \<open>All plots\<close>

definition metric_specs :: "(string \<times> string \<times> string) list" where
  "metric_specs =
     [(''elapsed_ms_mean'', ''Mean execution time (milliseconds)'', ''Global comparison of mean execution time''),
      (''elapsed_ms_p95'', ''95th percentile execution time (milliseconds)'', ''Global comparison of 95th percentile execution time''),
      (''energy_j_mean'', ''Mean net energy consumption (joules)'', ''Global comparison of mean net energy consumption''),
      (''energy_j_p95'', ''95th percentile net energy consumption (joules)'', ''Global comparison of 95th percentile net energy consumption''),
      (''throughput_mib_s_mean'', ''Mean aggregate throughput (MiB/s)'', ''Global comparison of mean aggregate throughput''),
      (''throughput_mib_s_p95'', ''95th percentile aggregate throughput (MiB/s)'', ''Global comparison of 95th percentile aggregate throughput''),
      (''throughput_per_joule_mean'', ''Mean throughput per joule (MiB/s/J)'', ''Global comparison of mean throughput per joule'')]"

text \<open>One plot of a metric, with the end of its file name and of its title; it is recorded with its title.\<close>

definition metric_plot ::
    "string \<Rightarrow> (string \<Rightarrow> string \<Rightarrow> string \<Rightarrow> string \<Rightarrow> ('e, unit) io) \<Rightarrow> string \<Rightarrow> string
      \<Rightarrow> string \<times> string \<times> string \<Rightarrow> ('e, string \<times> string) io" where
  "metric_plot out_dir plot name_end title_end =
     (\<lambda>(metric_field, y_label, title).
        let out = path_join out_dir (sanitize_filename metric_field @ name_end @ ''.png'')
        in io_then (plot metric_field y_label (title @ title_end) out) (io_return (out, title @ title_end)))"

definition compiler_plots :: "'e os \<Rightarrow> pydict list \<Rightarrow> string \<Rightarrow> pyval \<Rightarrow> ('e, (string \<times> string) list) io" where
  "compiler_plots os rows out_dir compiler =
     io_bind (io_of (val_str compiler)) (\<lambda>name.
       io_map (metric_plot out_dir (plot_metric_by_compiler os rows compiler)
         (''_'' @ sanitize_filename name) ('' ('' @ name @ '')'')) metric_specs)"

definition server_threads_plots :: "'e os \<Rightarrow> pydict list \<Rightarrow> string \<Rightarrow> pyval \<Rightarrow> ('e, (string \<times> string) list) io" where
  "server_threads_plots os rows out_dir server_threads =
     io_bind (io_of (val_str server_threads)) (\<lambda>count_text.
       io_map (metric_plot out_dir (plot_metric_by_server_threads os rows server_threads)
         (''_threads_'' @ count_text) ('' (server threads = '' @ count_text @ '')'')) metric_specs)"

definition generate_global_comparison_plots :: "'e os \<Rightarrow> pydict list \<Rightarrow> string \<Rightarrow> ('e, (string \<times> string) list) io" where
  "generate_global_comparison_plots os rows out_dir =
     io_then (make_dirs os out_dir)
     (io_bind (io_map (metric_plot out_dir (plot_metric_grouped_by_case os rows) ''_all_cases'' []) metric_specs) (\<lambda>all_cases.
      io_bind (io_of (unique_values rows ''compiler'')) (\<lambda>compilers.
      io_bind (io_map (compiler_plots os rows out_dir) compilers) (\<lambda>by_compiler.
      io_bind (io_of (unique_values rows ''server_threads'')) (\<lambda>thread_values.
      io_bind (io_map (server_threads_plots os rows out_dir) thread_values) (\<lambda>by_threads.
        io_return (all_cases @ concat by_compiler @ concat by_threads)))))))"

section \<open>The global report\<close>

text \<open>\<open>add_text_page\<close> and \<open>add_image_page\<close> repeat the code of the benchmark scripts.\<close>

definition master_text_page :: "'e os \<Rightarrow> string \<Rightarrow> string list \<Rightarrow> rat \<Rightarrow> 'e pdf" where
  "master_text_page = pdf_text"

definition master_image_page :: "'e os \<Rightarrow> string \<Rightarrow> string \<Rightarrow> 'e pdf" where
  "master_image_page = add_image_page"

definition master_header_style :: "rat \<Rightarrow> cell_style" where
  "master_header_style fontsize = \<lparr>cs_bold = True, cs_fontsize = Some (b64 (fontsize + 1 / 2)), cs_ha = None, cs_va = None,
     cs_height_factor = b64 (125 / 100), cs_linewidth = b64 (8 / 10), cs_wrap = False\<rparr>"

definition master_body_style :: cell_style where
  "master_body_style = \<lparr>cs_bold = False, cs_fontsize = None, cs_ha = None, cs_va = Some ''center'',
     cs_height_factor = 1, cs_linewidth = b64 (8 / 10), cs_wrap = False\<rparr>"

definition master_table :: "string \<Rightarrow> string list \<Rightarrow> string list list \<Rightarrow> rat \<Rightarrow> rat \<Rightarrow> rat list \<Rightarrow> table" where
  "master_table title columns rows fontsize scale_y col_widths =
     \<lparr>tb_figsize = (19, b64 (115 / 10)), tb_title = title, tb_title_size = 15, tb_columns = columns,
      tb_rows = rows, tb_fontsize = fontsize, tb_scale_y = scale_y, tb_col_widths = col_widths,
      tb_header_style = master_header_style fontsize, tb_body_style = master_body_style\<rparr>"

definition master_tables ::
    "'e os \<Rightarrow> string \<Rightarrow> string list \<Rightarrow> rat \<Rightarrow> rat \<Rightarrow> rat list \<Rightarrow> string list list \<Rightarrow> 'e pdf" where
  "master_tables os name columns fontsize scale_y col_widths rows =
     pdf_tables os (\<lambda>part chunk. master_table (name @ '' (part '' @ show_nat part @ '')'') columns chunk
        fontsize scale_y col_widths) 8 rows"

definition overview_columns :: "string list" where
  "overview_columns = [''Library'', ''Cases'', ''Avg. time mean (ms)'', ''Avg. energy mean'', ''Avg. throughput mean'',
     ''Avg. throughput/J mean'', ''Best time mean (ms)'', ''Best energy mean'', ''Best throughput mean'', ''Best throughput/J mean'']"

definition best_columns :: "string list" where
  "best_columns = [''Compiler'', ''Server threads'', ''Parallel clients'', ''Fastest library'', ''Fastest time mean (ms)'',
     ''Lowest-energy library'', ''Lowest energy mean'', ''Highest-throughput library'', ''Highest throughput mean'',
     ''Best-efficiency library'', ''Best throughput/J mean'']"

text \<open>\<open>f"...{values}"\<close> of a list prints the \<open>repr\<close> of its elements.\<close>

definition show_values :: "pyval list \<Rightarrow> string py" where
  "show_values vs = res_bind (res_map val_repr vs) (\<lambda>parts. Inr (''['' @ join_str '', '' parts @ '']''))"

definition master_cover :: "pydict list \<Rightarrow> string \<Rightarrow> string list py" where
  "master_cover rows now =
     res_bind (unique_values rows ''library'') (\<lambda>libraries.
     res_bind (unique_values rows ''compiler'') (\<lambda>compilers.
     res_bind (res_bind (unique_values rows ''server_threads'') show_values) (\<lambda>threads_text.
     res_bind (res_bind (unique_values rows ''parallel_bench_processes'') show_values) (\<lambda>clients_text.
       Inr [''Global benchmark comparison report'', ''Date: '' @ now, [],
            ''Number of libraries: '' @ show_nat (length libraries),
            ''Number of compilers: '' @ show_nat (length compilers),
            ''Server thread values: '' @ threads_text, ''Parallel client values: '' @ clients_text, [],
            ''This report compares all collected transport libraries together.'', ''It includes:'',
            ''- library-level overview tables'', ''- per-case winners'', ''- global metric comparison plots'',
            ''- compiler-specific comparison plots'', ''- server-thread-specific comparison plots'', [],
            ''Main comparison metrics:'', ''- mean execution time'', ''- 95th percentile execution time'',
            ''- mean net energy'', ''- 95th percentile net energy'', ''- mean throughput'', ''- 95th percentile throughput'',
            ''- mean throughput per joule'']))))"

definition image_if_exists :: "'e os \<Rightarrow> string \<times> string \<Rightarrow> 'e pdf" where
  "image_if_exists os = (\<lambda>(image_path, title).
     pdf_bind (sys_bool os (Path_exists image_path)) (\<lambda>found.
       if found then master_image_page os image_path title else pdf_return))"

definition global_report_body ::
    "'e os \<Rightarrow> pydict list \<Rightarrow> pydict list \<Rightarrow> pydict list \<Rightarrow> (string \<times> string) list \<Rightarrow> 'e pdf" where
  "global_report_body os rows best_by_case library_overview generated_plots =
     pdf_bind (sys_str os Now) (\<lambda>now.
     pdf_bind (io_of (master_cover rows now)) (\<lambda>cover.
     pdf_then (master_text_page os ''Global benchmark comparison report'' cover 11)
     (pdf_bind (io_of (build_overview_rows library_overview)) (\<lambda>overview_rows.
     pdf_then (master_tables os ''Library overview'' overview_columns 8 (b64 (225 / 100))
         (hundredths [18, 7, 9, 9, 10, 11, 9, 9, 10, 11]) overview_rows)
     (pdf_bind (io_of (build_best_case_rows best_by_case)) (\<lambda>best_rows.
     pdf_then (master_tables os ''Best library by case'' best_columns (b64 (75 / 10)) (b64 (22 / 10))
         (hundredths [8, 8, 8, 13, 10, 13, 10, 13, 10, 13, 10]) best_rows)
     (pdf_for generated_plots (image_if_exists os))))))))"

definition generate_global_pdf_report ::
    "'e os \<Rightarrow> pydict list \<Rightarrow> pydict list \<Rightarrow> pydict list \<Rightarrow> string \<Rightarrow> string \<Rightarrow> ('e, unit) io" where
  "generate_global_pdf_report os rows best_by_case library_overview pdf_path out_dir =
     io_bind (generate_global_comparison_plots os rows out_dir) (\<lambda>generated_plots.
       with_pdf os pdf_path (global_report_body os rows best_by_case library_overview generated_plots))"

section \<open>main\<close>

text \<open>The command line arguments; an optional one that is missing is \<open>None\<close>.\<close>

record master_args =
  ma_input_dir :: string
  ma_json_out :: string
  ma_csv_out :: string
  ma_pdf_out :: "string option"
  ma_plots_dir :: "string option"

definition given :: "string option \<Rightarrow> bool" where
  "given arg = (case arg of None \<Rightarrow> False | Some s \<Rightarrow> s \<noteq> [])"

definition report_stage :: "'e os \<Rightarrow> master_args \<Rightarrow> pydict list \<Rightarrow> pydict list \<Rightarrow> pydict list \<Rightarrow> ('e, unit) io" where
  "report_stage os args rows best_by_case library_overview =
     io_when (given (ma_pdf_out args))
       (let pdf_out = the (ma_pdf_out args);
            out_dir = if given (ma_plots_dir args) then the (ma_plots_dir args)
                      else path_join (dirname pdf_out) ''global_comparison_plots''
        in io_then (make_dirs os (dirname pdf_out))
          (io_then (make_dirs os out_dir)
          (io_then (generate_global_pdf_report os rows best_by_case library_overview pdf_out out_dir)
          (io_then (sys_log (''Global PDF report written to: '' @ pdf_out))
            (sys_log (''Global plots directory written to: '' @ out_dir))))))"

definition master_main :: "'e os \<Rightarrow> master_args \<Rightarrow> ('e, unit) io" where
  "master_main os args =
     io_bind (sys_bool os (Is_dir (ma_input_dir args))) (\<lambda>is_dir.
     if \<not> is_dir then exit_with (''Error: input directory does not exist: '' @ ma_input_dir args)
     else io_bind (collect_summary_files os (ma_input_dir args)) (\<lambda>summary_files.
     if summary_files = [] then exit_with ''No *_summary.json files were found.''
     else io_bind (build_master_rows os summary_files) (\<lambda>rows.
     io_bind (io_of (build_best_by_case rows)) (\<lambda>best_by_case.
     io_bind (io_of (build_library_overview rows)) (\<lambda>library_overview.
     io_then (write_json os rows best_by_case library_overview (ma_json_out args))
     (io_then (write_master_csv os rows (ma_csv_out args))
     (io_then (sys_log (''Master JSON written to: '' @ ma_json_out args))
     (io_then (sys_log (''Master CSV written to: '' @ ma_csv_out args))
       (report_stage os args rows best_by_case library_overview)))))))))"

end
