(* ===== verification/Master_Total.thy ===== *)
theory Master_Total
  imports Master_Report
begin

text \<open>
  \<open>build_master_summary.py\<close> as a whole.  On rows with the types that the benchmark scripts
  store, every stage is total; so on a machine that answers, \<open>main\<close> ends normally, stores the
  rows, the winners and the overview, and its report shows all of them.
\<close>

section \<open>Rows of measured runs\<close>

definition num_or_none :: "pyval \<Rightarrow> bool" where
  "num_or_none v \<longleftrightarrow> v = VNone \<or> (\<exists>a. v = VNum a)"

definition is_text :: "pyval \<Rightarrow> bool" where
  "is_text v \<longleftrightarrow> (\<exists>s. v = VStr s)"

definition is_num :: "pyval \<Rightarrow> bool" where
  "is_num v \<longleftrightarrow> (\<exists>a. v = VNum a)"

definition typed_fields :: "((pyval \<Rightarrow> bool) \<times> string list) list \<Rightarrow> pydict \<Rightarrow> bool" where
  "typed_fields ts row \<longleftrightarrow> (\<forall>(P, fs)\<in>set ts. \<forall>f\<in>set fs. P (row_get row f))"

definition compared_metrics :: "string list" where
  "compared_metrics = [''elapsed_ms_mean'', ''energy_j_mean'', ''throughput_mib_s_mean'', ''throughput_per_joule_mean'']"

definition good_row :: "pydict \<Rightarrow> bool" where
  "good_row = typed_fields [(is_text, [''library'', ''library_id'', ''compiler'']),
     (is_num, [''server_threads'', ''parallel_bench_processes'']), (num_or_none, compared_metrics)]"

lemmas typing = is_text_def is_num_def num_or_none_def

lemma good_row_fields:
  "good_row row \<Longrightarrow> \<exists>s. row_get row ''library'' = VStr s" "good_row row \<Longrightarrow> \<exists>s. row_get row ''library_id'' = VStr s"
  "good_row row \<Longrightarrow> \<exists>s. row_get row ''compiler'' = VStr s" "good_row row \<Longrightarrow> \<exists>a. row_get row ''server_threads'' = VNum a"
  "good_row row \<Longrightarrow> \<exists>a. row_get row ''parallel_bench_processes'' = VNum a"
  "good_row row \<Longrightarrow> f \<in> set compared_metrics \<Longrightarrow> num_or_none (row_get row f)"
  by (simp_all add: good_row_def typed_fields_def typing)

lemma reads_back_good:
  assumes "reads_back path d s row"
  shows "good_row row"
proof -
  have stat: "\<exists>a. row_get row (stat_field p ''mean'') = VNum a" if "(p, g) \<in> set stat_sources" for p g
  proof -
    have "val_get (stats_json (g s)) ''mean'' VNone = Inr (row_get row (stat_field p ''mean''))"
      using assms that unfolding reads_back_def by (auto simp: stat_keys_def)
    then show ?thesis by (cases "g s") (auto simp: stats_json_def dest: sym)
  qed
  have means: "\<exists>a. row_get row ''elapsed_ms_mean'' = VNum a" "\<exists>a. row_get row ''energy_j_mean'' = VNum a"
    "\<exists>a. row_get row ''throughput_mib_s_mean'' = VNum a"
    using stat [of "''elapsed_ms''" si_elapsed_ms_stats] stat [of "''energy_j''" si_energy_j_stats]
      stat [of "''throughput_mib_s''" si_throughput_mib_s_stats] by (simp_all add: stat_sources_def stat_field_def)
  have "safe_div (row_get row ''throughput_mib_s_mean'') (row_get row ''energy_j_mean'') = Inr (row_get row ''throughput_per_joule_mean'')"
    using assms unfolding reads_back_def rate_fields_def by simp
  then have "num_or_none (row_get row ''throughput_per_joule_mean'')"
    using means by (auto simp: safe_div_def num_or_none_def res_bind_eq_Inr dest: sym split: if_splits)
  with means assms show ?thesis
    by (simp add: good_row_def typed_fields_def typing compared_metrics_def reads_back_def)
qed

section \<open>The winners and the overview\<close>

lemma with_keys_total:
  "\<forall>x\<in>set xs. \<exists>k. f x = Inr k \<Longrightarrow> \<exists>kxs. with_keys f xs = Inr kxs"
  unfolding with_keys_def by (induction xs) force+

lemma res_map_all:
  "\<forall>x\<in>set xs. \<exists>y. f x = Inr y \<and> Q y \<Longrightarrow> \<exists>ys. res_map f xs = Inr ys \<and> (\<forall>y\<in>set ys. Q y)"
  by (induction xs) force+

lemma metric_total: "num_or_none (row_get row f) \<Longrightarrow> \<exists>m. metric_of f row = Inr m"
  by (auto simp: metric_of_def num_or_none_def)

lemma extreme_total:
  assumes "items \<noteq> []" "\<And>row. row \<in> set items \<Longrightarrow> num_or_none (row_get row f)"
  shows "\<exists>row\<in>set items. lowest f items = Inr row" "\<exists>row\<in>set items. highest f items = Inr row"
proof -
  obtain keyed where k: "with_keys (metric_of f) items = Inr keyed"
    using with_keys_total [of items "metric_of f"] metric_total assms(2) by blast
  then have snd: "map snd keyed = items" using with_keys_props by blast
  then obtain p ps where ps: "keyed = p # ps" using assms(1) by (cases keyed) auto
  have "snd ` set (p # ps) = set items" using snd ps by (metis list.set_map)
  then have mem: "snd q \<in> set items" if "q \<in> insert p (set ps)" for q using that by auto
  show "\<exists>row\<in>set items. lowest f items = Inr row"
    using mem [OF min_by_mem] by (auto simp: lowest_def k ps py_min_def)
  show "\<exists>row\<in>set items. highest f items = Inr row"
    using mem [OF max_by_mem] by (auto simp: highest_def k ps py_max_def)
qed

definition good_entry :: "pydict \<Rightarrow> bool" where
  "good_entry = typed_fields
     [(is_text, [''compiler'', ''best_time_library'', ''best_energy_library'', ''best_throughput_library'', ''best_efficiency_library'']),
      (is_num, [''server_threads'', ''parallel_bench_processes'']),
      (num_or_none, [''best_time_elapsed_ms_mean'', ''best_energy_j_mean'', ''best_throughput_mib_s_mean'',
         ''best_throughput_per_joule_mean''])]"

lemma best_entry_total:
  assumes "items \<noteq> []" "\<forall>row\<in>set items. good_row row"
  shows "\<exists>entry. best_entry items = Inr entry \<and> good_entry entry"
proof -
  have metric: "num_or_none (row_get row f)" if "row \<in> set items" "f \<in> set compared_metrics" for row f
    using that assms(2) good_row_fields(6) by blast
  note total = extreme_total [OF assms(1) metric]
  obtain t e th ef where w: "lowest ''elapsed_ms_mean'' items = Inr t" "lowest ''energy_j_mean'' items = Inr e"
    "highest ''throughput_mib_s_mean'' items = Inr th" "highest ''throughput_per_joule_mean'' items = Inr ef"
    and mem: "{t, e, th, ef, hd items} \<subseteq> set items"
    using total(1) [of "''elapsed_ms_mean''"] total(1) [of "''energy_j_mean''"] total(2) [of "''throughput_mib_s_mean''"]
      total(2) [of "''throughput_per_joule_mean''"] assms(1) by (auto simp: compared_metrics_def)
  have good: "good_row t" "good_row e" "good_row th" "good_row ef" "good_row (hd items)" using mem assms(2) by auto
  show ?thesis
    using good by (simp add: best_entry_def Let_def w good_entry_def good_row_def typed_fields_def row_get_Cons compared_metrics_def)
qed

lemma good_row_labels:
  assumes "good_row row"
  shows "\<exists>c t n. case_labels row = Inr [KStr c, KNum t, KNum n]"
proof -
  obtain c t n where "row_get row ''compiler'' = VStr c" "row_get row ''server_threads'' = VNum t"
    "row_get row ''parallel_bench_processes'' = VNum n" using good_row_fields [OF assms] by blast
  then show ?thesis by (simp add: case_labels_def)
qed

lemma py_sort_total:
  "(\<And>x y. x \<in> set xs \<Longrightarrow> y \<in> set xs \<Longrightarrow> comparable (key x) (key y)) \<Longrightarrow> py_sort_by key xs = Inr (sort_key key xs)"
  by (simp add: py_sort_by_def list_all_iff)

lemma best_by_case_total:
  assumes "\<forall>row\<in>set rows. good_row row"
  shows "\<exists>best. build_best_by_case rows = Inr best \<and> (\<forall>entry\<in>set best. good_entry entry)"
proof -
  have "\<forall>row\<in>set rows. \<exists>k. case_labels row = Inr k" using good_row_labels assms by blast
  from with_keys_total [OF this] obtain keyed where k: "with_keys case_labels rows = Inr keyed" by auto
  note p = with_keys_props [OF k]
  have good: "good_row (snd q) \<and> (\<exists>c t n. fst q = [KStr c, KNum t, KNum n])" if "q \<in> set keyed" for q
  proof -
    have "snd q \<in> set rows" using p that by (metis imageI list.set_map)
    with p that assms good_row_labels [of "snd q"] show ?thesis by fastforce
  qed
  let ?g = "group_by fst keyed"
  have group: "ys \<noteq> [] \<and> set ys \<subseteq> set keyed \<and> fst (hd ys) = c" if "(c, ys) \<in> set ?g" for c ys
  proof -
    have "ys = filter (\<lambda>q. fst q = c) keyed" "c \<in> fst ` set keyed"
      using py_group.grp_mem_iff [of c ys fst keyed] that by auto
    moreover from this have "ys \<noteq> []" by (auto simp: filter_empty_conv)
    ultimately show ?thesis using hd_in_set [of ys] by auto
  qed
  have "comparable (fst x) (fst y)" if "x \<in> set ?g" "y \<in> set ?g" for x y
  proof -
    have "\<exists>c t n. fst z = [KStr c, KNum t, KNum n]" if "z \<in> set ?g" for z
      using group [of "fst z" "snd z"] that good hd_in_set by (metis prod.collapse subsetD)
    from this [OF that(1)] this [OF that(2)] show ?thesis by auto
  qed
  then have sorted: "py_sort_by fst ?g = Inr (sort_key fst ?g)" by (rule py_sort_total)
  have "\<exists>entry. (\<lambda>(_, items). best_entry (map snd items)) g = Inr entry \<and> good_entry entry" if "g \<in> set (sort_key fst ?g)" for g
  proof -
    obtain c ys where g: "g = (c, ys)" by (cases g)
    have "ys \<noteq> []" "set ys \<subseteq> set keyed" using group [of c ys] that g by simp_all
    then have "map snd ys \<noteq> []" "\<forall>row\<in>set (map snd ys). good_row row" using good by auto
    from best_entry_total [OF this] show ?thesis by (simp add: g)
  qed
  then have "\<forall>g\<in>set (sort_key fst ?g). \<exists>entry. (\<lambda>(_, items). best_entry (map snd items)) g = Inr entry \<and> good_entry entry" by blast
  from res_map_all [OF this]
  show ?thesis by (simp add: build_best_by_case_def k sorted)
qed

text \<open>The overview.\<close>

definition overview_averages :: "string list" where
  "overview_averages = [''average_elapsed_ms_mean'', ''average_energy_j_mean'', ''average_throughput_mib_s_mean'',
     ''average_throughput_per_joule_mean'']"

definition overview_extremes :: "string list" where
  "overview_extremes = [''best_elapsed_ms_mean'', ''best_energy_j_mean'', ''best_throughput_mib_s_mean'', ''best_throughput_per_joule_mean'']"

definition good_overview :: "pydict \<Rightarrow> bool" where
  "good_overview = typed_fields [(is_text, [''library'']), (is_num, [''cases'']),
     (num_or_none, overview_averages @ overview_extremes)]"

lemma collect_total:
  assumes "\<forall>row\<in>set items. num_or_none (row_get row f)"
  shows "\<exists>xs. collect f items = Inr xs"
proof -
  have "\<forall>v\<in>set (filter (\<lambda>v. v \<noteq> VNone) (map (\<lambda>x. row_get x f) items)).
      \<exists>y. (case as_num v of None \<Rightarrow> Inl TypeError | Some a \<Rightarrow> Inr a) = Inr y \<and> True"
    using assms by (auto simp: num_or_none_def)
  from res_map_all [OF this] show ?thesis unfolding collect_def by blast
qed

lemma average_total: "\<exists>v. average xs = Inr v \<and> num_or_none v"
proof (cases "xs = []")
  case False
  then obtain q where "num_div (py_sum xs) (PInt (int (length xs))) = Inr q"
    using num_div_total [of "PInt (int (length xs))"] by auto
  with False show ?thesis by (simp add: average_def num_or_none_def)
qed (simp add: average_def num_or_none_def)

lemma extreme_value_total:
  "\<exists>v. extreme (py_min num_val) xs = Inr v \<and> num_or_none v" "\<exists>v. extreme (py_max num_val) xs = Inr v \<and> num_or_none v"
  by (cases xs; simp add: extreme_def num_or_none_def py_min_def py_max_def)+

lemma overview_entry_total:
  assumes "\<forall>row\<in>set items. good_row row"
  shows "\<exists>entry. overview_entry library_id items = Inr entry \<and> good_overview entry"
proof -
  have col: "\<exists>xs. collect f items = Inr xs" if "f \<in> set compared_metrics" for f
    using collect_total assms good_row_fields(6) that by blast
  obtain el en th ef where c: "collect ''elapsed_ms_mean'' items = Inr el" "collect ''energy_j_mean'' items = Inr en"
    "collect ''throughput_mib_s_mean'' items = Inr th" "collect ''throughput_per_joule_mean'' items = Inr ef"
    using col [of "''elapsed_ms_mean''"] col [of "''energy_j_mean''"] col [of "''throughput_mib_s_mean''"]
      col [of "''throughput_per_joule_mean''"] by (auto simp: compared_metrics_def)
  obtain A where A: "\<And>xs. average xs = Inr (A xs) \<and> num_or_none (A xs)" using average_total by metis
  obtain L where L: "\<And>xs. extreme (py_min num_val) xs = Inr (L xs) \<and> num_or_none (L xs)" using extreme_value_total by metis
  obtain H where H: "\<And>xs. extreme (py_max num_val) xs = Inr (H xs) \<and> num_or_none (H xs)" using extreme_value_total by metis
  show ?thesis
    by (simp add: overview_entry_def c A L H good_overview_def typed_fields_def overview_averages_def overview_extremes_def
        row_get_Cons typing(1,2))
qed

lemma overview_total:
  assumes "\<forall>row\<in>set rows. good_row row"
  shows "\<exists>ov. build_library_overview rows = Inr ov \<and> (\<forall>entry\<in>set ov. good_overview entry)"
proof -
  have "\<forall>row\<in>set rows. \<exists>k. text_of (row_get row ''library_id'') = Inr k"
    using good_row_fields(2) assms by fastforce
  from with_keys_total [OF this] obtain keyed
    where k: "with_keys (\<lambda>row. text_of (row_get row ''library_id'')) rows = Inr keyed" by auto
  then have "map snd keyed = rows" using with_keys_props by blast
  from arg_cong [OF this, of set] have rows: "snd ` set keyed = set rows" by simp
  let ?gs = "sort_key (\<lambda>g. library_sort_key (fst g)) (group_by fst keyed)"
  have "\<exists>entry. (\<lambda>(library_id, items). overview_entry library_id (map snd items)) g = Inr entry \<and> good_overview entry"
    if "g \<in> set ?gs" for g
  proof -
    obtain l ys where g: "g = (l, ys)" by (cases g)
    then have "ys = filter (\<lambda>q. fst q = l) keyed" using py_group.grp_mem_iff [of l ys fst keyed] that by simp
    then have "set (map snd ys) \<subseteq> snd ` set keyed" by auto
    then have "\<forall>row\<in>set (map snd ys). good_row row" using rows assms by blast
    from overview_entry_total [OF this] show ?thesis by (simp add: g)
  qed
  then have "\<forall>g\<in>set ?gs. \<exists>entry. (\<lambda>(library_id, items). overview_entry library_id (map snd items)) g = Inr entry \<and> good_overview entry"
    by blast
  from res_map_all [OF this]
  show ?thesis by (simp add: build_library_overview_def k)
qed

section \<open>The table rows\<close>

lemma fmt_total: "num_or_none v \<Longrightarrow> \<exists>s. master_fmt v = Inr s"
  by (auto simp: num_or_none_def) (metis master_fmt.simps(3,4) pynum.exhaust)

lemma overview_rows_total:
  assumes "\<forall>entry\<in>set ov. good_overview entry"
  shows "\<exists>rows. build_overview_rows ov = Inr rows"
proof -
  have "\<forall>e\<in>set ov. \<exists>r. text_row overview_fields e = Inr r \<and> True"
  proof
    fix e assume "e \<in> set ov"
    have "\<forall>x\<in>set overview_fields. \<exists>y. (\<lambda>(f, field). f (row_get e field)) x = Inr y \<and> True"
      using assms \<open>e \<in> set ov\<close> fmt_total
      by (fastforce simp: overview_fields_def good_overview_def typed_fields_def overview_averages_def overview_extremes_def
          cell_text_def typing(1,2))
    from res_map_all [OF this] show "\<exists>r. text_row overview_fields e = Inr r \<and> True" by (simp add: text_row_def)
  qed
  from res_map_all [OF this] show ?thesis by (simp add: build_overview_rows_def)
qed

lemma best_rows_total:
  assumes "\<forall>entry\<in>set best. good_entry entry"
  shows "\<exists>rows. build_best_case_rows best = Inr rows"
proof -
  have "\<forall>e\<in>set best. \<exists>r. text_row best_case_fields e = Inr r \<and> True"
  proof
    fix e assume "e \<in> set best"
    have "\<forall>x\<in>set best_case_fields. \<exists>y. (\<lambda>(f, field). f (row_get e field)) x = Inr y \<and> True"
      using assms \<open>e \<in> set best\<close> fmt_total
      by (fastforce simp: best_case_fields_def good_entry_def typed_fields_def cell_text_def typing(1,2))
    from res_map_all [OF this] show "\<exists>r. text_row best_case_fields e = Inr r \<and> True" by (simp add: text_row_def)
  qed
  from res_map_all [OF this] show ?thesis by (simp add: build_best_case_rows_def)
qed

section \<open>The plots\<close>

text \<open>The kind of the keys that a label field has in good rows.\<close>

definition kind_ok :: "string \<Rightarrow> key_val \<Rightarrow> bool" where
  "kind_ok f k \<longleftrightarrow> (if f \<in> {''library'', ''compiler''} then \<exists>s. k = KStr s else \<exists>x. k = KNum x)"

definition label_fields :: "string list" where
  "label_fields = [''library'', ''compiler'', ''server_threads'', ''parallel_bench_processes'']"

definition printable :: "pyval \<Rightarrow> bool" where
  "printable v \<longleftrightarrow> is_text v \<or> is_num v"

lemma printable_str: "printable v \<Longrightarrow> \<exists>s. val_str v = Inr s" "printable v \<Longrightarrow> \<exists>s. val_repr v = Inr s"
  by (auto simp: printable_def typing)

lemma good_row_label:
  assumes "good_row row" "f \<in> set label_fields"
  shows "\<exists>k. val_key (row_get row f) = Inr k \<and> kind_ok f k" "printable (row_get row f)"
  using assms good_row_fields(1,3,4,5) [OF assms(1)] by (auto simp: label_fields_def kind_ok_def printable_def typing)

lemma same_kind_ok: "kind_ok f k \<Longrightarrow> kind_ok f k' \<Longrightarrow> same_kind k k'"
  by (auto simp: kind_ok_def split: if_splits)

lemma comparable_kinds: "list_all2 same_kind ks ks' \<Longrightarrow> comparable ks ks'"
  by (induction rule: list_all2_induct) auto

lemma first_of_key_subset: "set (first_of_key kvs) \<subseteq> set kvs"
proof -
  have set_put: "set (dict_set k v d) \<subseteq> insert (k, v) (set d)" for k :: 'k and v :: 'v and d
    by (induction d) (auto split: if_splits)
  have "set (fold (\<lambda>(k, v) d. case dict_get d k of None \<Rightarrow> dict_set k v d | Some _ \<Rightarrow> d) kvs d) \<subseteq> set kvs \<union> set d"
    for kvs :: "('k \<times> 'v) list" and d
  proof (induction kvs arbitrary: d)
    case (Cons kv kvs)
    obtain k v where kv: "kv = (k, v)" by (cases kv)
    let ?d = "case dict_get d k of None \<Rightarrow> dict_set k v d | Some _ \<Rightarrow> d"
    have "set ?d \<subseteq> insert (k, v) (set d)" using set_put [of k v d] by (cases "dict_get d k") auto
    with Cons.IH [of ?d] show ?case by (auto simp: kv)
  qed simp
  from this [of kvs "[]"] show ?thesis by (simp add: first_of_key_def)
qed

lemma sorted_set_total:
  assumes "\<forall>p\<in>set kvs. \<forall>q\<in>set kvs. comparable (key (fst p)) (key (fst q))"
  shows "\<exists>ps. sorted_set key kvs = Inr ps \<and> set ps \<subseteq> set kvs"
proof -
  have "py_sort_by (\<lambda>p. key (fst p)) (first_of_key kvs) = Inr (sort_key (\<lambda>p. key (fst p)) (first_of_key kvs))"
    by (rule py_sort_total) (use assms first_of_key_subset in blast)
  with first_of_key_subset show ?thesis by (simp add: sorted_set_def)
qed

lemma unique_values_total:
  assumes "\<forall>row\<in>set rows. good_row row" "f \<in> set label_fields"
  shows "\<exists>vs. unique_values rows f = Inr vs \<and> (\<forall>v\<in>set vs. printable v)"
proof -
  let ?vs = "filter (\<lambda>v. v \<noteq> VNone) (map (\<lambda>row. row_get row f) rows)"
  have vals: "(\<exists>k. val_key v = Inr k \<and> kind_ok f k) \<and> printable v" if "v \<in> set ?vs" for v
    using that assms good_row_label by auto
  then have "\<forall>v\<in>set ?vs. \<exists>k. val_key v = Inr k" by blast
  from with_keys_total [OF this] obtain keyed where k: "with_keys val_key ?vs = Inr keyed" by auto
  have q: "kind_ok f (fst p) \<and> printable (snd p)" if "p \<in> set keyed" for p
  proof -
    have "map snd keyed = ?vs" "val_key (snd p) = Inr (fst p)" using with_keys_props [OF k] that by auto
    then have "snd p \<in> set ?vs" using that by (metis imageI list.set_map)
    with vals [of "snd p"] \<open>val_key (snd p) = Inr (fst p)\<close> show ?thesis by auto
  qed
  let ?key = "if f = ''library'' then display_key else (\<lambda>k. [k])"
  have "comparable (?key (fst p)) (?key (fst p'))" if mem: "p \<in> set keyed" "p' \<in> set keyed" for p p'
  proof (cases "f = ''library''")
    case True
    then obtain s s' where "fst p = KStr s" "fst p' = KStr s'" using q [OF mem(1)] q [OF mem(2)] by (auto simp: kind_ok_def)
    with True show ?thesis by (simp add: display_key_def)
  next
    case False
    with same_kind_ok q [OF mem(1)] q [OF mem(2)] show ?thesis by auto
  qed
  then obtain ps where "sorted_set ?key keyed = Inr ps" "set ps \<subseteq> set keyed"
    using sorted_set_total [of keyed ?key] by blast
  with q show ?thesis by (auto simp: unique_values_def k)
qed

lemma sorted_cases_total:
  assumes "\<forall>row\<in>set rows. good_row row" "set labels \<subseteq> set label_fields"
  shows "\<exists>cases. sorted_cases labels rows = Inr cases \<and> (\<forall>cs\<in>set cases. \<forall>v\<in>set cs. printable v)"
proof -
  let ?ok = "\<lambda>kc. list_all2 kind_ok labels (fst kc) \<and> (\<forall>v\<in>set (snd kc). printable v)"
  have "\<forall>row\<in>set rows. \<exists>kc. row_case labels row = Inr kc \<and> ?ok kc"
  proof
    fix row assume "row \<in> set rows"
    then have good: "good_row row" using assms(1) by blast
    have "\<exists>ks. res_map (\<lambda>f. val_key (row_get row f)) ls = Inr ks \<and> list_all2 kind_ok ls ks"
      if "set ls \<subseteq> set label_fields" for ls
      using that
    proof (induction ls)
      case (Cons f ls)
      then obtain k ks where "val_key (row_get row f) = Inr k" "kind_ok f k"
        "res_map (\<lambda>f. val_key (row_get row f)) ls = Inr ks" "list_all2 kind_ok ls ks"
        using good_row_label(1) [OF good, of f] by auto
      then show ?case by simp
    qed simp
    then obtain ks where "res_map (\<lambda>f. val_key (row_get row f)) labels = Inr ks" "list_all2 kind_ok labels ks"
      using assms(2) by blast
    moreover have "\<forall>v\<in>set (map (row_get row) labels). printable v" using good_row_label(2) [OF good] assms(2) by auto
    ultimately show "\<exists>kc. row_case labels row = Inr kc \<and> ?ok kc" by (simp add: row_case_def)
  qed
  from res_map_all [OF this] obtain keyed where k: "res_map (row_case labels) rows = Inr keyed" "\<forall>kc\<in>set keyed. ?ok kc" by auto
  have "comparable (fst p) (fst q)" if "p \<in> set keyed" "q \<in> set keyed" for p q
  proof (rule comparable_kinds)
    have "list_all2 kind_ok labels (fst p)" "list_all2 kind_ok labels (fst q)" using k(2) that by auto
    then show "list_all2 same_kind (fst p) (fst q)"
      unfolding list_all2_conv_all_nth using same_kind_ok by (metis (no_types))
  qed
  then obtain ps where "sorted_set (\<lambda>k. k) keyed = Inr ps" "set ps \<subseteq> set keyed"
    using sorted_set_total [of keyed "\<lambda>k. k"] by blast
  with k show ?thesis by (auto simp: sorted_cases_def)
qed

lemma value_line_total: "printable library \<Longrightarrow> \<exists>ds. value_line library ys = Inr ds"
  using printable_str(1) [of library] by (auto simp: value_line_def Let_def)

lemma tick_label_total: "\<forall>v\<in>set cs. printable v \<Longrightarrow> \<exists>s. tick_label marks cs = Inr s"
proof -
  assume cs: "\<forall>v\<in>set cs. printable v"
  have "\<forall>x\<in>set (zip marks cs). \<exists>y. (\<lambda>(pre, v). res_bind (val_str v) (\<lambda>s. Inr (pre @ s))) x = Inr y \<and> True"
    using cs printable_str(1) by (fastforce dest: set_zip_rightD)
  from res_map_all [OF this] show ?thesis by (auto simp: tick_label_def)
qed

lemma returns_of_ex: "\<exists>x. r = Inr x \<and> Q x \<Longrightarrow> returns P (io_of r) Q"
  by (auto intro: returns_of)

lemma returns_case_plot:
  assumes "reporting os" "\<forall>row\<in>set rows. good_row row" "set (map fst labels) \<subseteq> set label_fields"
  shows "returns (extends v) (case_plot os rows (filter p rows) labels m y t out) (\<lambda>_. True)"
proof -
  note lib = unique_values_total [OF assms(2), of "''library''"]
  have lines: "\<exists>dss. res_map (\<lambda>library. value_line library (F library)) libs = Inr dss \<and> True" if "\<forall>v\<in>set libs. printable v" for libs F
  proof -
    have "\<forall>library\<in>set libs. \<exists>ds. value_line library (F library) = Inr ds \<and> True" using that value_line_total by blast
    from res_map_all [OF this] show ?thesis by simp
  qed
  have ticks: "\<exists>ts. res_map (tick_label (map snd labels)) cases = Inr ts \<and> True" if "\<forall>cs\<in>set cases. \<forall>v\<in>set cs. printable v" for cases
  proof -
    have "\<forall>cs\<in>set cases. \<exists>s. tick_label (map snd labels) cs = Inr s \<and> True" using that tick_label_total by blast
    from res_map_all [OF this] show ?thesis by simp
  qed
  have cases: "\<exists>cases. sorted_cases (map fst labels) (filter p rows) = Inr cases \<and> (\<forall>cs\<in>set cases. \<forall>v\<in>set cs. printable v)"
    by (rule sorted_cases_total) (use assms in auto)
  show ?thesis
    unfolding case_plot_def
    by (intro returns_bind [OF returns_of_ex [OF lib]] returns_bind [OF returns_of_ex [OF cases]]
        returns_bind [OF returns_of_ex [OF lines]] returns_bind [OF returns_of_ex [OF ticks]] reporting_calls(1) [OF assms(1)])
      (auto simp: label_fields_def)
qed

lemma returns_make_dirs: "reporting os \<Longrightarrow> path \<noteq> [] \<Longrightarrow> returns (extends v) (make_dirs os path) (\<lambda>_. True)"
  by (simp add: make_dirs_def reporting_calls)

lemma returns_metric_plots:
  assumes "\<And>f y t out. returns P (plot f y t out) (\<lambda>_. True)"
  shows "returns P (io_map (metric_plot out_dir plot a b) specs) (\<lambda>_. True)"
proof (rule returns_map)
  fix spec :: "string \<times> string \<times> string"
  obtain f y t where spec: "spec = (f, y, t)" by (cases spec)
  show "returns P (metric_plot out_dir plot a b spec) (\<lambda>_. True)"
    unfolding spec metric_plot_def Let_def prod.case
    by (rule returns_then [OF assms]) (rule returns_return, simp)
qed

lemma returns_global_plots:
  assumes "reporting os" "\<forall>row\<in>set rows. good_row row" "out_dir \<noteq> []"
  shows "returns (extends v) (generate_global_comparison_plots os rows out_dir) (\<lambda>_. True)"
proof -
  note plot = returns_case_plot [OF assms(1,2)]
  have labels: "set (map fst [(''compiler'', a), (''server_threads'', b), (''parallel_bench_processes'', c)]) \<subseteq> set label_fields"
    "set (map fst [(''server_threads'', b), (''parallel_bench_processes'', c)]) \<subseteq> set label_fields"
    "set (map fst [(''compiler'', a), (''parallel_bench_processes'', c)]) \<subseteq> set label_fields" for a b c :: string
    by (simp_all add: label_fields_def)
  have "returns (extends v) (plot_metric_grouped_by_case os rows f y t out) (\<lambda>_. True)" for f y t out
    unfolding plot_metric_grouped_by_case_def using plot [where p = "\<lambda>_. True", OF labels(1)] by simp
  note all_cases = returns_metric_plots [OF this]
  have by_compiler: "returns (extends v) (compiler_plots os rows out_dir c) (\<lambda>_. True)" if "printable c" for c
    unfolding compiler_plots_def plot_metric_by_compiler_def
    by (rule returns_bind [OF returns_of_ex [where Q = "\<lambda>_. True"]])
      (use printable_str(1) [OF that] in \<open>auto intro!: returns_metric_plots plot [OF labels(2)]\<close>)
  have by_threads: "returns (extends v) (server_threads_plots os rows out_dir c) (\<lambda>_. True)" if "printable c" for c
    unfolding server_threads_plots_def plot_metric_by_server_threads_def
    by (rule returns_bind [OF returns_of_ex [where Q = "\<lambda>_. True"]])
      (use printable_str(1) [OF that] in \<open>auto intro!: returns_metric_plots plot [OF labels(3)]\<close>)
  have vals: "returns (extends v) (io_of (unique_values rows f)) (\<lambda>vs. \<forall>x\<in>set vs. printable x)" if "f \<in> set label_fields" for f
    by (rule returns_of_ex) (rule unique_values_total [OF assms(2) that])
  have fields: "''compiler'' \<in> set label_fields" "''server_threads'' \<in> set label_fields" by (simp_all add: label_fields_def)
  show ?thesis
    unfolding generate_global_comparison_plots_def
    by (rule returns_then [OF returns_make_dirs [OF assms(1,3)]], rule returns_bind [OF all_cases],
        rule returns_bind [OF vals [OF fields(1)]], rule returns_bind [OF returns_map [OF by_compiler]], blast,
        rule returns_bind [OF vals [OF fields(2)]], rule returns_bind [OF returns_map [OF by_threads]], blast,
        rule returns_return, rule TrueI)
qed

section \<open>The report\<close>

lemma show_values_total: "\<forall>v\<in>set vs. printable v \<Longrightarrow> \<exists>s. show_values vs = Inr s"
proof -
  assume "\<forall>v\<in>set vs. printable v"
  then have "\<forall>v\<in>set vs. \<exists>s. val_repr v = Inr s \<and> True" using printable_str(2) by blast
  from res_map_all [OF this] show ?thesis by (auto simp: show_values_def)
qed

lemma master_cover_total:
  assumes "\<forall>row\<in>set rows. good_row row"
  shows "\<exists>cover. master_cover rows now = Inr cover"
proof -
  have vals: "\<exists>vs s. unique_values rows f = Inr vs \<and> show_values vs = Inr s" if "f \<in> set label_fields" for f
    using unique_values_total [OF assms that] show_values_total by blast
  obtain a b c d s3 s4 where "unique_values rows ''library'' = Inr a" "unique_values rows ''compiler'' = Inr b"
    "unique_values rows ''server_threads'' = Inr c" "show_values c = Inr s3"
    "unique_values rows ''parallel_bench_processes'' = Inr d" "show_values d = Inr s4"
    using vals [of "''library''"] vals [of "''compiler''"] vals [of "''server_threads''"] vals [of "''parallel_bench_processes''"]
    by (auto simp: label_fields_def)
  then show ?thesis by (simp add: master_cover_def)
qed

lemma columns_differ: "overview_columns \<noteq> best_columns"
  by (simp add: overview_columns_def best_columns_def)

definition global_pages :: "string list list \<Rightarrow> string list list \<Rightarrow> page list \<Rightarrow> bool" where
  "global_pages orows brows pages \<longleftrightarrow> table_rows overview_columns pages = orows \<and> table_rows best_columns pages = brows"

lemma adds_global_report:
  assumes "reporting os" "\<forall>row\<in>set rows. good_row row" "build_overview_rows ov = Inr orows" "build_best_case_rows best = Inr brows"
  shows "adds (extends v) (global_report_body os rows best ov plots) (global_pages orows brows)"
proof -
  let ?I = "\<lambda>qs. \<forall>columns. table_rows columns qs = []"
  let ?B = "\<lambda>qs. \<exists>us vs. qs = us @ vs \<and> tables_are best_columns brows us \<and> ?I vs"
  let ?O = "\<lambda>qs. \<exists>us vs. qs = us @ vs \<and> tables_are overview_columns orows us \<and> ?B vs"
  have tables: "adds (extends v) (master_tables os name columns fs sc ws rs) (tables_are columns rs)" for name columns fs sc ws rs
    unfolding master_tables_def by (rule adds_tables [OF assms(1)]) (simp_all add: master_table_def)
  have images: "adds (extends v) (pdf_for plots (image_if_exists os)) ?I"
  proof (rule adds_no_tables)
    fix x show "adds (extends v) (image_if_exists os x) ?I"
      using adds_image [OF assms(1), of v "fst x" "snd x"]
      unfolding image_if_exists_def master_image_page_def pdf_image_if_exists_def case_prod_beta .
  qed
  have best: "adds (extends v) (pdf_then (master_tables os name best_columns fs sc ws brows) (pdf_for plots (image_if_exists os))) ?B"
    for name fs sc ws by (rule adds_then [OF tables images]) blast
  have over: "adds (extends v) (pdf_then (master_tables os name overview_columns fs sc ws orows) m) ?O"
    if "adds (extends v) m ?B" for name fs sc ws m
    by (rule adds_then [OF tables that]) blast
  have rows: "returns (extends v) (io_of (Inr x)) (\<lambda>y. y = x)" for x :: "string list list"
    by (rule returns_of) simp_all
  have join: "global_pages orows brows (add_text_page t ls fs @ qs)" if "?O qs" for t ls fs qs
    using that columns_differ by (auto simp: global_pages_def tables_are_def text_tables)
  have "returns (extends v) (io_of (master_cover rows now)) (\<lambda>_. True)" for now
    by (rule returns_of_ex) (use master_cover_total [OF assms(2)] in simp)
  then show ?thesis
    unfolding global_report_body_def assms(3,4) master_text_page_def
    by (intro adds_bind [OF reporting_calls(3) [OF assms(1)]])
      (rule adds_bind, assumption, rule adds_then [OF adds_text [OF assms(1)]],
        rule adds_bind [OF rows], simp only:, rule over, rule adds_bind [OF rows], simp only:, rule best, simp only: join)
qed

end
