(* ===== verification/Master_Run.thy ===== *)
theory Master_Run
  imports Master_Total
begin

text \<open>
  The main theorems on \<open>build_master_summary.py\<close>: it completes on the summaries that the benchmark
  scripts store, and a report named without a directory fails after the data was written.
\<close>

section \<open>Without a directory in the PDF name\<close>

lemma dirname_plain: "CHR ''/'' \<notin> set path \<Longrightarrow> dirname path = []"
proof -
  assume "CHR ''/'' \<notin> set path"
  then have "takeWhile (\<lambda>c. c \<noteq> CHR ''/'') (rev path) = rev path" by (simp add: takeWhile_eq_all_conv) blast
  then have "basename path = path" by (simp only: basename_def rev_rev_ident)
  then show ?thesis by (simp add: dirname_def Let_def)
qed

lemma report_stage_none: "ma_pdf_out args = None \<Longrightarrow> report_stage os args rows best ov = io_return ()"
  by (simp add: report_stage_def given_def io_when_def)

lemma report_stage_plain:
  assumes "ma_pdf_out args = Some pdf" "pdf \<noteq> []" "CHR ''/'' \<notin> set pdf"
  shows "report_stage os args rows best ov = io_raise (FileNotFoundError [])"
proof -
  have "given (ma_pdf_out args)" "the (ma_pdf_out args) = pdf" using assms(1,2) by (simp_all add: given_def)
  moreover have "make_dirs os (dirname pdf) = io_raise (FileNotFoundError [])"
    by (simp add: dirname_plain [OF assms(3)] make_dirs_def)
  ultimately show ?thesis
    by (intro ext) (simp add: report_stage_def io_when_def Let_def io_then_def io_bind_def io_raise_def)
qed

text \<open>The part of \<open>main\<close> before the optional report.\<close>

definition data_stage :: "'e os \<Rightarrow> master_args \<Rightarrow> ('e, pydict list \<times> pydict list \<times> pydict list) io" where
  "data_stage os args =
     io_bind (sys_bool os (Is_dir (ma_input_dir args))) (\<lambda>is_dir.
     if \<not> is_dir then exit_with (''Error: input directory does not exist: '' @ ma_input_dir args)
     else io_bind (collect_summary_files os (ma_input_dir args)) (\<lambda>summary_files.
     if summary_files = [] then exit_with ''No *_summary.json files were found.''
     else io_bind (build_master_rows os summary_files) (\<lambda>rows.
     io_bind (io_of (build_best_by_case rows)) (\<lambda>best_by_case.
     io_bind (io_of (build_library_overview rows)) (\<lambda>library_overview.
     io_then (write_json os rows best_by_case library_overview (ma_json_out args))
     (io_then (write_master_csv os rows (ma_csv_out args))
     (io_then (sys_log (''Master JSON written to: '' @ ma_json_out args))
     (io_then (sys_log (''Master CSV written to: '' @ ma_csv_out args))
       (io_return (rows, best_by_case, library_overview))))))))))"

lemma io_bind_assoc: "io_bind (io_bind m f) g = io_bind m (\<lambda>x. io_bind (f x) g)"
  by (rule ext) (auto simp: io_bind_def split: prod.splits sum.splits)

lemma io_bind_then: "io_bind (io_then m n) g = io_then m (io_bind n g)"
  by (simp add: io_then_def io_bind_assoc)

lemma io_bind_return: "io_bind (io_return x) f = f x"
  by (rule ext) (simp add: io_bind_def io_return_def)

lemma io_bind_exit: "io_bind (exit_with msg) f = exit_with msg"
  by (rule ext) (simp add: exit_with_def io_bind_def io_then_def io_raise_def sys_warn_def)

lemma io_bind_if: "io_bind (if b then m else n) f = (if b then io_bind m f else io_bind n f)"
  by simp

lemma master_main_stages:
  "master_main os args = io_bind (data_stage os args) (\<lambda>(rows, best, ov). report_stage os args rows best ov)"
  unfolding master_main_def data_stage_def
  by (simp only: io_bind_assoc io_bind_then io_bind_return io_bind_exit io_bind_if prod.case)

lemma data_stage_pdf: "data_stage os (args\<lparr>ma_pdf_out := p\<rparr>) = data_stage os args"
  unfolding data_stage_def by (simp cong: if_cong)

text \<open>
  Claim C39. Naming the PDF without a directory fails late: \<open>main\<close> first does all that it does without a
  report, so the JSON and the CSV are written, and then raises \<open>FileNotFoundError\<close>, since it
  asks for the creation of the directory with the empty name; no report is written.
\<close>

theorem plain_pdf_name_fails:
  assumes "ma_pdf_out args = Some pdf" "pdf \<noteq> []" "CHR ''/'' \<notin> set pdf"
  shows "master_main os args w = (case master_main os (args\<lparr>ma_pdf_out := None\<rparr>) w of
      (Inr _, w') \<Rightarrow> (Inl (FileNotFoundError []), w') | (Inl e, w') \<Rightarrow> (Inl e, w'))"
proof -
  obtain r w1 where r: "data_stage os args w = (r, w1)" by fastforce
  have "report_stage os (args\<lparr>ma_pdf_out := None\<rparr>) rows best ov = io_return ()" for rows best ov
    by (rule report_stage_none) simp
  then have none: "master_main os (args\<lparr>ma_pdf_out := None\<rparr>) w = (case r of Inl e \<Rightarrow> (Inl e, w1) | Inr _ \<Rightarrow> (Inr (), w1))"
    using r by (simp add: master_main_stages data_stage_pdf io_bind_def io_return_def case_prod_beta split: sum.splits)
  have "master_main os args w = (case r of Inl e \<Rightarrow> (Inl e, w1) | Inr _ \<Rightarrow> (Inl (FileNotFoundError []), w1))"
    using r by (simp add: master_main_stages report_stage_plain [OF assms] io_bind_def io_raise_def case_prod_beta split: sum.splits)
  with none show ?thesis by (cases r) simp_all
qed


section \<open>A complete run\<close>

lemma parent_unit:
  assumes "reporting os"
  shows "\<exists>w' t. io_then (ensure_parent_dir os path) (sys_unit os q) w = (Inr (), w') \<and> w_trace w' = w_trace w @ t @ [q]"
proof -
  have "returns (extends w) (ensure_parent_dir os path) (\<lambda>_. True)"
    unfolding ensure_parent_dir_def Let_def
    by (cases "dirname path = []") (auto simp: io_when_def intro: returns_return returns_make_dirs [OF assms])
  from returnsD [OF this tr.frame_refl] obtain w1 t where 1: "ensure_parent_dir os path w = (Inr (), w1)" "w_trace w1 = w_trace w @ t"
    by (auto simp: extends_def)
  obtain e where "sys_unit os q w1 = (Inr (), logged q e w1)" using reporting_unit [OF assms] by blast
  with 1 show ?thesis by (simp add: io_then_def io_bind_def)
qed

definition master_json :: "pydict list \<Rightarrow> pydict list \<Rightarrow> pydict list \<Rightarrow> pyval" where
  "master_json rows best ov = VDict [(''rows'', VList (map VDict rows)), (''best_by_case'', VList (map VDict best)),
     (''library_overview'', VList (map VDict ov))]"

definition master_csv :: "string \<Rightarrow> pydict list \<Rightarrow> call" where
  "master_csv path rows = (if rows = [] then Write_text path [] else Write_csv path row_schema rows)"

lemma write_json_run:
  assumes "reporting os"
  shows "\<exists>w' t. write_json os rows best ov path w = (Inr (), w') \<and> w_trace w' = w_trace w @ t @ [Dump_json path (master_json rows best ov)]"
  using parent_unit [OF assms] unfolding write_json_def master_json_def by blast

lemma write_csv_run:
  assumes "reporting os" "\<forall>row\<in>set rows. dict_keys row = row_schema"
  shows "\<exists>w' t. write_master_csv os rows path w = (Inr (), w') \<and> w_trace w' = w_trace w @ t @ [master_csv path rows]"
proof -
  have "write_master_csv os rows path = io_then (ensure_parent_dir os path) (sys_unit os (master_csv path rows))"
  proof (cases "rows = []")
    case False
    then have "dict_keys (hd rows) = row_schema" using assms(2) by simp
    moreover have "list_all (\<lambda>row. list_all (\<lambda>k. k \<in> set row_schema) (dict_keys row)) rows"
      using assms(2) by (simp add: list_all_iff)
    ultimately show ?thesis using False by (simp add: write_master_csv_def master_csv_def Let_def)
  qed (simp add: write_master_csv_def master_csv_def)
  with parent_unit [OF assms(1)] show ?thesis by simp
qed

lemma rows_extend: "keeps extends (build_master_rows os files)"
  unfolding build_master_rows_def by (intro tr.keeps_rules sys_keeps)

text \<open>The stored files of runs, as the directory walk finds them.\<close>

definition collected :: "'e os \<Rightarrow> string \<Rightarrow> (string \<times> final_data \<times> summary_item list) list \<Rightarrow> bool" where
  "collected os dir runs \<longleftrightarrow> runs \<noteq> [] \<and> (\<forall>e. fst (os_bool os (Is_dir dir) e))
     \<and> (\<forall>w. fst (collect_summary_files os dir w) = Inr (map fst runs)) \<and> (\<forall>run\<in>set runs. holds_summary os run)"

lemma collect_extends: "collect_summary_files os dir w = (r, w') \<Longrightarrow> extends w w'"
  by (auto simp: collect_summary_files_def io_bind_def io_return_def sys_walk_def extends_def split: prod.splits)

lemma data_stage_completes:
  assumes "reporting os" "collected os (ma_input_dir args) runs"
  shows "\<exists>rows rowss best ov w' t1 t2 t3.
      data_stage os args w = (Inr (rows, best, ov), w')
    \<and> mset rows = mset (concat rowss) \<and> list_all2 (\<lambda>(path, d, items). list_all2 (reads_back path d) items) runs rowss
    \<and> (\<forall>row\<in>set rows. good_row row) \<and> build_best_by_case rows = Inr best \<and> build_library_overview rows = Inr ov
    \<and> w_trace w' = w_trace w @ t1 @ [Dump_json (ma_json_out args) (master_json rows best ov)] @ t2
        @ [master_csv (ma_csv_out args) rows] @ t3"
proof -
  note c = assms(2) [unfolded collected_def]
  obtain e where "os_bool os (Is_dir (ma_input_dir args)) (w_env w) = (True, e)"
    using c by (metis prod.collapse)
  then have 1: "sys_bool os (Is_dir (ma_input_dir args)) w = (Inr True, logged (Is_dir (ma_input_dir args)) e w)"
    by (simp add: sys_bool_def)
  let ?w1 = "logged (Is_dir (ma_input_dir args)) e w"
  obtain w2 where 2: "collect_summary_files os (ma_input_dir args) ?w1 = (Inr (map fst runs), w2)"
    using c by (metis prod.collapse)
  obtain rows rowss w3 where 3: "build_master_rows os (map fst runs) w2 = (Inr rows, w3)" "mset rows = mset (concat rowss)"
    "list_all2 (\<lambda>(path, d, items). list_all2 (reads_back path d) items) runs rowss"
    using stored_rows [of runs os w2] c by blast
  have ext: "extends ?w1 w3" using collect_extends [OF 2] keepsD [OF rows_extend 3(1)] tr.frame_trans by blast
  have "\<forall>row\<in>set (concat rowss). good_row row"
    using 3(3)
  proof (induction rule: list_all2_induct)
    case (Cons run runs rs rowss)
    obtain path d items where "list_all2 (reads_back path d) items rs" using Cons(1) by (cases run) auto
    then have "\<forall>row\<in>set rs. good_row row" by (induction rule: list_all2_induct) (auto intro: reads_back_good)
    with Cons(3) show ?case by auto
  qed simp
  then have good: "\<forall>row\<in>set rows. good_row row" using mset_eq_setD [OF 3(2)] by simp
  obtain best ov where 4: "build_best_by_case rows = Inr best" "build_library_overview rows = Inr ov"
    using best_by_case_total [OF good] overview_total [OF good] by blast
  obtain w4 t2 where 5: "write_json os rows best ov (ma_json_out args) w3 = (Inr (), w4)"
    "w_trace w4 = w_trace w3 @ t2 @ [Dump_json (ma_json_out args) (master_json rows best ov)]"
    using write_json_run [OF assms(1)] by blast
  have schema: "\<forall>row\<in>set rows. dict_keys row = row_schema" using build_master_rows_props [OF 3(1)] by blast
  obtain w5 t3 where 6: "write_master_csv os rows (ma_csv_out args) w4 = (Inr (), w5)"
    "w_trace w5 = w_trace w4 @ t3 @ [master_csv (ma_csv_out args) rows]"
    using write_csv_run [OF assms(1) schema] by blast
  let ?m1 = "''Master JSON written to: '' @ ma_json_out args" and ?m2 = "''Master CSV written to: '' @ ma_csv_out args"
  let ?w6 = "logged (Log ?m1) (w_env w5) w5"
  let ?w7 = "logged (Log ?m2) (w_env ?w6) ?w6"
  have "data_stage os args w = (Inr (rows, best, ov), ?w7)"
    using c by (simp add: data_stage_def io_bind_def io_then_def io_of_def io_return_def sys_log_def 1 2 3(1) 4 5(1) 6(1))
  moreover obtain t1 where "w_trace w3 = w_trace w @ t1" using ext by (auto simp: extends_def)
  then have "w_trace ?w7 = w_trace w @ (t1 @ t2) @ [Dump_json (ma_json_out args) (master_json rows best ov)] @ t3
      @ [master_csv (ma_csv_out args) rows] @ [Log ?m1, Log ?m2]" by (simp add: 5(2) 6(2))
  ultimately show ?thesis using 3 good 4 by blast
qed

lemma report_stage_completes:
  assumes "reporting os" "\<forall>row\<in>set rows. good_row row" "build_overview_rows ov = Inr orows" "build_best_case_rows best = Inr brows"
    and "ma_pdf_out args = Some pdf" "dirname pdf \<noteq> []"
  shows "\<exists>w' t1 t2 pages. report_stage os args rows best ov w = (Inr (), w') \<and> global_pages orows brows pages
    \<and> w_trace w' = w_trace w @ t1 @ [Save_pdf pdf pages] @ t2"
proof -
  define out_dir where "out_dir = (if given (ma_plots_dir args) then the (ma_plots_dir args)
      else path_join (dirname pdf) ''global_comparison_plots'')"
  have out: "out_dir \<noteq> []" by (simp add: out_dir_def given_def path_join_def split: option.splits)
  have "pdf \<noteq> []" using assms(6) by (auto simp: dirname_def basename_def)
  then have given: "given (ma_pdf_out args)" by (simp add: given_def assms(5))
  have dirs: "returns (extends w) (io_then (make_dirs os (dirname pdf)) (io_then (make_dirs os out_dir)
      (generate_global_comparison_plots os rows out_dir))) (\<lambda>_. True)"
    by (intro returns_then returns_make_dirs returns_global_plots assms out)
  from returnsD [OF this tr.frame_refl] obtain plots w1 t where 1: "io_then (make_dirs os (dirname pdf)) (io_then (make_dirs os out_dir)
      (generate_global_comparison_plots os rows out_dir)) w = (Inr plots, w1)" "w_trace w1 = w_trace w @ t"
    by (auto simp: extends_def)
  obtain w2 t2 pages where 2: "with_pdf os pdf (global_report_body os rows best ov plots) w1 = (Inr (), w2)"
    "global_pages orows brows pages" "w_trace w2 = w_trace w1 @ t2 @ [Save_pdf pdf pages]"
    using with_pdf_returns [OF assms(1) adds_global_report [OF assms(1-4)]] by blast
  let ?m1 = "''Global PDF report written to: '' @ pdf" and ?m2 = "''Global plots directory written to: '' @ out_dir"
  let ?w3 = "logged (Log ?m1) (w_env w2) w2"
  let ?w4 = "logged (Log ?m2) (w_env ?w3) ?w3"
  have stage: "report_stage os args rows best ov = io_bind (io_then (make_dirs os (dirname pdf)) (io_then (make_dirs os out_dir)
      (generate_global_comparison_plots os rows out_dir))) (\<lambda>plots.
        io_then (with_pdf os pdf (global_report_body os rows best ov plots)) (io_then (sys_log ?m1) (sys_log ?m2)))"
    unfolding report_stage_def io_when_def Let_def assms(5) option.sel out_dir_def generate_global_pdf_report_def
    using given by (simp add: assms(5) io_then_def io_bind_assoc)
  have "report_stage os args rows best ov w = (Inr (), ?w4)"
    using 2(1) by (simp add: stage io_bind_def [of "io_then _ _" ] 1(1)) (simp add: io_then_def io_bind_def sys_log_def)
  moreover have "w_trace ?w4 = w_trace w @ (t @ t2) @ [Save_pdf pdf pages] @ [Log ?m1, Log ?m2]" by (simp add: 1(2) 2(3))
  ultimately show ?thesis using 2(2) by blast
qed

text \<open>
  Claim C3. \<open>build_master_summary.py\<close> completes: given summary files that benchmark scripts stored, on
  a machine that answers, \<open>main\<close> returns; it has stored the rows of all files with the winners
  and the overview computed from them, first as JSON and then as CSV, and then the report,
  whose tables hold a row for every library and for every case.
\<close>

theorem master_main_completes:
  assumes "reporting os" "collected os (ma_input_dir args) runs" "ma_pdf_out args = Some pdf" "dirname pdf \<noteq> []"
  shows "\<exists>rows rowss best ov orows brows w' t1 t2 t3 t4 pages.
      master_main os args w = (Inr (), w')
    \<and> mset rows = mset (concat rowss) \<and> list_all2 (\<lambda>(path, d, items). list_all2 (reads_back path d) items) runs rowss
    \<and> build_best_by_case rows = Inr best \<and> build_library_overview rows = Inr ov
    \<and> build_overview_rows ov = Inr orows \<and> build_best_case_rows best = Inr brows
    \<and> w_trace w' = w_trace w @ t1 @ [Dump_json (ma_json_out args) (master_json rows best ov)] @ t2
        @ [master_csv (ma_csv_out args) rows] @ t3 @ [Save_pdf pdf pages] @ t4
    \<and> table_rows overview_columns pages = orows \<and> table_rows best_columns pages = brows"
proof -
  obtain rows rowss best ov w1 t1 t2 t3 where 1: "data_stage os args w = (Inr (rows, best, ov), w1)"
    "mset rows = mset (concat rowss)" "list_all2 (\<lambda>(path, d, items). list_all2 (reads_back path d) items) runs rowss"
    "\<forall>row\<in>set rows. good_row row" "build_best_by_case rows = Inr best" "build_library_overview rows = Inr ov"
    "w_trace w1 = w_trace w @ t1 @ [Dump_json (ma_json_out args) (master_json rows best ov)] @ t2 @ [master_csv (ma_csv_out args) rows] @ t3"
    using data_stage_completes [OF assms(1,2), of w] by blast
  have "\<forall>entry\<in>set ov. good_overview entry" "\<forall>entry\<in>set best. good_entry entry"
    using overview_total [OF 1(4)] best_by_case_total [OF 1(4)] 1(5,6) by auto
  then obtain orows brows where 2: "build_overview_rows ov = Inr orows" "build_best_case_rows best = Inr brows"
    using overview_rows_total best_rows_total by blast
  obtain w2 t4 t5 pages where 3: "report_stage os args rows best ov w1 = (Inr (), w2)" "global_pages orows brows pages"
    "w_trace w2 = w_trace w1 @ t4 @ [Save_pdf pdf pages] @ t5"
    using report_stage_completes [OF assms(1) 1(4) 2 assms(3,4)] by blast
  have "master_main os args w = (Inr (), w2)" by (simp add: master_main_stages io_bind_def 1(1) 3(1))
  moreover have "w_trace w2 = w_trace w @ t1 @ [Dump_json (ma_json_out args) (master_json rows best ov)] @ t2
      @ [master_csv (ma_csv_out args) rows] @ (t3 @ t4) @ [Save_pdf pdf pages] @ t5" by (simp add: 1(7) 3(3))
  ultimately show ?thesis using 1 2 3(2) unfolding global_pages_def by blast
qed

definition collecting_os :: "summary_item list \<Rightarrow> unit os" where
  "collecting_os items = steady_os
     \<lparr>os_json := (\<lambda>c e. (Inr (run_json sample_final ''summary'' (map (\<lambda>s. VDict (summary_item_json s)) items)), e)),
      os_walk := (\<lambda>dir e. ([([], [''notes.txt'', ''asio_summary.json''])], e))\<rparr>"

definition sample_args :: "string \<Rightarrow> master_args" where
  "sample_args pdf = \<lparr>ma_input_dir = ''collected'', ma_json_out = ''out/m.json'', ma_csv_out = ''out/m.csv'',
     ma_pdf_out = Some pdf, ma_plots_dir = None\<rparr>"

lemma collecting:
  assumes "summarize_results sample_results = Inr items"
  shows "reporting (collecting_os items)"
    "collected (collecting_os items) (ma_input_dir (sample_args pdf)) [(''collected/asio_summary.json'', sample_final, items)]"
proof -
  show "reporting (collecting_os items)" by (simp add: reporting_def collecting_os_def steady_os_def)
  have files: "filter (\<lambda>name. endswith name ''_summary.json'') (sort [''notes.txt'', ''asio_summary.json'']) = [''asio_summary.json'']"
    "path_join (join_parts ''collected'' []) ''asio_summary.json'' = ''collected/asio_summary.json''"
    by code_simp+
  have "fst (collect_summary_files (collecting_os items) ''collected'' w) = Inr [''collected/asio_summary.json'']" for w
    using files by (simp add: collect_summary_files_def io_bind_def io_return_def sys_walk_def collecting_os_def)
  then show "collected (collecting_os items) (ma_input_dir (sample_args pdf)) [(''collected/asio_summary.json'', sample_final, items)]"
    using assms by (auto simp: collected_def sample_args_def holds_summary_def collecting_os_def steady_os_def)
qed

theorem master_main_completes_witness:
  "\<exists>items w' t pages. summarize_results sample_results = Inr items
    \<and> master_main (collecting_os items) (sample_args ''out/r.pdf'') steady_world = (Inr (), w')
    \<and> Save_pdf ''out/r.pdf'' pages \<in> set (w_trace w')"
proof -
  obtain items where items: "summarize_results sample_results = Inr items" using sample_items by blast
  have "dirname ''out/r.pdf'' \<noteq> []" by code_simp
  with master_main_completes [OF collecting(1) [OF items] collecting(2) [OF items], of "''out/r.pdf''" "''out/r.pdf''" steady_world]
  obtain rows best ov w' t1 t2 t3 t4 pages where r:
    "master_main (collecting_os items) (sample_args ''out/r.pdf'') steady_world = (Inr (), w')"
    "w_trace w' = w_trace steady_world @ t1 @ [Dump_json (ma_json_out (sample_args ''out/r.pdf'')) (master_json rows best ov)] @ t2
        @ [master_csv (ma_csv_out (sample_args ''out/r.pdf'')) rows] @ t3 @ [Save_pdf ''out/r.pdf'' pages] @ t4"
    by (auto simp: sample_args_def)
  then have "Save_pdf ''out/r.pdf'' pages \<in> set (w_trace w')" by simp
  with items r(1) show ?thesis by blast
qed

theorem plain_pdf_name_fails_witness:
  "\<exists>items w' v. summarize_results sample_results = Inr items
    \<and> master_main (collecting_os items) (sample_args ''r.pdf'') steady_world = (Inl (FileNotFoundError []), w')
    \<and> Dump_json ''out/m.json'' v \<in> set (w_trace w')"
proof -
  obtain items where items: "summarize_results sample_results = Inr items" using sample_items by blast
  let ?os = "collecting_os items" and ?args = "sample_args ''r.pdf''"
  obtain rows best ov w1 t1 t2 t3 where d: "data_stage ?os ?args steady_world = (Inr (rows, best, ov), w1)"
    "w_trace w1 = w_trace steady_world @ t1 @ [Dump_json (ma_json_out ?args) (master_json rows best ov)] @ t2 @ [master_csv (ma_csv_out ?args) rows] @ t3"
    using data_stage_completes [OF collecting(1) [OF items] collecting(2) [OF items], of "''r.pdf''" steady_world] by blast
  have "report_stage ?os (?args\<lparr>ma_pdf_out := None\<rparr>) rows best ov = io_return ()" by (rule report_stage_none) simp
  then have "master_main ?os (?args\<lparr>ma_pdf_out := None\<rparr>) steady_world = (Inr (), w1)"
    by (simp add: master_main_stages data_stage_pdf io_bind_def io_return_def d(1))
  moreover have "ma_pdf_out ?args = Some ''r.pdf''" by (simp add: sample_args_def)
  ultimately have "master_main ?os ?args steady_world = (Inl (FileNotFoundError []), w1)"
    using plain_pdf_name_fails [of ?args "''r.pdf''" ?os steady_world] by simp
  moreover have "Dump_json ''out/m.json'' (master_json rows best ov) \<in> set (w_trace w1)"
    using d(2) by (simp add: sample_args_def)
  ultimately show ?thesis using items by blast
qed

end
