(* ===== verification/Spec2Isabelle.thy ===== *)
theory Spec2Isabelle
  imports Stats Energy Ports Server Healthy Master_Run
begin

text \<open>
  Transport performance lab: the benchmark driver of the repository.

  \<^bold>\<open>The program.\<close>  The repository compares implementations of a file transfer over TCP.  Each of the
  directories \<open>asio\<close>, \<open>bsd-sockets\<close>, \<open>bsd-sockets-v\<close>, \<open>capy-corosio\<close>, \<open>taps-asio\<close> and
  \<open>async-berkeley\<close> has a C++ server, a C++ benchmark client and a Python driver
  \<open>scripts/run_bench.py\<close>.  A driver runs a campaign for every compiler and number of server
  threads: it clears the port of the server, starts it, waits until it accepts connections,
  runs every case (a number of parallel benchmark clients) as often as configured while it
  reads the RAPL energy counter, and stops the server.  It then stores the records, reduces
  them to a summary (JSON and CSV), and writes plots and two PDF reports.
  \<open>measure_idle_energy.py\<close> measures the idle power that the drivers subtract.
  \<open>build_master_summary.py\<close> reads the summaries of all libraries back and compares them, and
  \<open>merge.py\<close> merges the PDF reports by category.  This development models these Python programs.

  \<^bold>\<open>Foundations.\<close>
  \<^item> \<open>Prelude\<close>: results that are a value or an error, dictionaries in insertion order (locale
    \<open>keyed_store\<close>), grouping by a key (locale \<open>grouping\<close>), both interpreted on the model's own
    association lists; stable sorting.
  \<^item> \<open>Py_Float\<close>: binary64 as the rationals it denotes with rounding half to even (\<open>b64\<close>).
    Overflow to infinity, infinities, NaN and the sign of zero are not represented.
    \<open>Py_Value\<close>: exceptions, mixed arithmetic of unbounded integers and floats, \<open>min\<close>, \<open>max\<close>,
    indexing, and the values that \<open>json.load\<close> returns.  \<open>Py_Text\<close>, \<open>Py_Repr\<close>: the string methods, number
    formatting and parsing, paths, \<open>str\<close> and \<open>repr\<close>.  \<open>Drawing\<close>: plots as drawing commands, pages,
    and the page breaks of \<open>add_text_page\<close>.
  \<^item> \<open>Py_IO\<close>: an action takes the world (the environment, the mutable global \<open>PORTS\<close>, the open
    log files and the log of all calls so far) and returns a value or an exception with the
    new world.  The operating system is a record of functions that every definition takes as
    an argument; any call may raise, \<open>KeyboardInterrupt\<close> included.  The locale \<open>frame\<close> proves once
    for every reflexive and transitive relation on worlds that the combinators keep it; it is
    interpreted for the extension of the log, for unchanged ports and for files that stay
    closed.  \<open>returns\<close> is total correctness of an action.  \<open>Sim_OS\<close>, and \<open>steady_os\<close> in \<open>Healthy\<close>,
    are concrete machines for the closed instances of the theorems.

  \<^bold>\<open>The benchmark scripts\<close> (\<open>scripts/run_bench.py\<close>; line numbers of the copy in \<open>asio\<close>, which four others
  repeat byte for byte).
  \<^item> \<open>Bench_Config\<close>: the module constants as one record per copy, and the file names.
  \<^item> \<open>Energy\<close>: RAPL readings, the idle baseline and \<open>measure_idle_energy.py\<close>.  The energy of a run is the modular
    difference of the wrapping counter, and the stored baseline is read back.
  \<^item> \<open>Ports\<close>, \<open>Server\<close>: probing, freeing and choosing a port; starting, awaiting and stopping the
    server process.  \<open>wait_loop\<close> has fuel: with a clock that advances while the script sleeps (at
    least a tenth of a second per pause of a fifth, after rounding), 601 rounds exceed the limit
    of 60 seconds, so \<open>OutOfFuel\<close> (which no handler catches) is never the outcome then.
  \<^item> \<open>Stats\<close>: \<open>percentile\<close> and \<open>compute_stats\<close> with the functions of the \<open>statistics\<close> module they call, as
    correctly rounded results, and their meaning up to rounding: mean and median next to the
    exact ones, the deviation next to the root of the exact variance, percentiles as
    interpolations of the sorted sample.
  \<^item> \<open>Bench\<close>, \<open>Bench_Async\<close>: one case, with the start loop, the handling of an interrupt
    (which may come at every call but those that stop a process), the reading of the clients' reports and the record; \<open>Bench_Async\<close> has the two functions in which
    \<open>async-berkeley\<close> differs and their agreement on whole-file downloads.
  \<^item> \<open>Campaign\<close>, \<open>Healthy\<close>: one campaign, for any runner of single cases, with its loop
    order and clean-up, and that it completes on a machine where nothing fails.
  \<^item> \<open>Summary\<close>: grouping and reduction of the records, the JSON and CSV forms.
  \<^item> \<open>Plots\<close>, \<open>Report_Text\<close>, \<open>Pdf\<close>, \<open>Reports\<close>: the plots, table texts, wrapping (with the chunks,
    hyphen breaks and tabs of \<open>textwrap\<close>), and reports; a
    report body adds pages one by one and the file is written when the block is left, also by
    an exception.  The reports are shown complete: every row is on some page.
  \<^item> \<open>Program\<close>, \<open>Complete_Run\<close>: \<open>main\<close>, the six scripts, that a failing campaign ends \<open>main\<close> with nothing stored, and that a
    run on a healthy machine stores everything.  The bound of \<open>2 ^ 53\<close> records is where the
    length of a sample stops being exact as a float.

  \<^bold>\<open>The programs over all libraries.\<close>
  \<^item> \<open>Merge\<close>: \<open>merge.py\<close>.  The combined order equals an order by rank, merging refines the
    concatenation of the pages that the readers deliver, the exit status tells what was written.
  \<^item> \<open>Master\<close>: the data of \<open>build_master_summary.py\<close>.  A row is a dictionary of dynamic values;
    comparing incomparable values raises.  \<open>key_val\<close>, the values a sort key can have, is an instance of
    \<open>linorder\<close>.  \<open>Master_Correct\<close>: all rows have one schema, and the round trip of a stored
    summary.  \<open>Master_Best\<close>: the winners of each case.
  \<^item> \<open>Master_Report\<close>: its plots, report and \<open>main\<close>.  \<open>Master_Total\<close>: every stage is total on rows that
    the benchmark scripts produce.  \<open>Master_Run\<close>: \<open>main\<close> as a whole.

  \<^bold>\<open>What the theorems rely on.\<close>  No theorem assumes anything of the operating system but what its
  statement names: \<open>handler_uninterrupted\<close> (no second interrupt while a process is stopped), \<open>healthy\<close> and \<open>reporting\<close> (calls succeed), \<open>collected\<close> and \<open>holds_summary\<close> (the
  files found are stored summaries), \<open>no_exit\<close> (a system call does not raise \<open>SystemExit\<close>).
  Every such theorem has a closed instance on a concrete machine.

  \<^bold>\<open>Defects the model shows.\<close>  An interpolated percentile can exceed the maximum; the program that
  should thrash the caches is a syntax error that is ignored; a server that does not become
  ready is abandoned with its process and log files; 36 lines leave a blank page; merged
  reports of different directories can overwrite each other; the number of runs is
  multiplied by 1000 with the elapsed times; a PDF named without a directory fails late.

  \<^bold>\<open>Not modelled.\<close>
  \<^item> The C++ servers, clients and benchmarks, CMake files and shell scripts: other languages, which
    the drivers only start as processes; what a benchmark client reports is an input.
  \<^item> The inside of \<open>matplotlib\<close>, \<open>pypdf\<close>, \<open>json\<close>, \<open>csv\<close> and \<open>argparse\<close>: the arguments handed to
    them are modelled; parsed command lines and the pages that a PDF reader delivers are parameters.
  \<^item> Text beyond ASCII.
  \<^item> In \<open>build_master_summary.py\<close>: statistics that are neither numbers nor absent raise \<open>TypeError\<close>
    at their first use as a key (Python would raise it later, in the overview);
    \<open>sum\<close> adds floats from left to right as interpreters before version 3.12 do (later ones
    compensate rounding errors).
\<close>

end
